(* ===== verification/HPrelude.thy ===== *)
theory HPrelude
  imports Main "HOL-Library.Word" "HOL-Library.Multiset" "HOL-Library.AList"
begin

text \<open>
  Shared ground of the development.

  \<^item> Names for the C integer types of an LP64 target.
  \<^item> A small program monad: a C function is a HOL function from the state it runs in to an
    outcome, which is either a normal return or an abnormal stop (a failed assertion, a call of
    \<open>exit\<close>, or an operation whose behaviour the C standard leaves undefined). The state reached
    is kept in both cases, so a theorem can say what had happened before the stop.
  \<^item> The collections \<open>prog_simps\<close> (how the combinators run), \<open>world_simps\<close> (how the
    primitives of the process state run) and \<open>wp_rules\<close> (what has to be shown of a program so that
    a property holds when it returns), which carry the component proofs.
  \<^item> The interface locales \<open>invariant_system\<close> (an invariant of a step relation), \<open>open_close\<close> (a pair
    of operations that acquire and release) and \<open>clean_open_close\<close> (one that also leaves no trace).
\<close>

section \<open>Lists\<close>

lemma in_map_filter: "y \<in> set (List.map_filter f xs) \<longleftrightarrow> (\<exists>x \<in> set xs. f x = Some y)"
  by (force simp: List.map_filter_def)

lemma update_absent: "k \<notin> fst ` set m \<Longrightarrow> AList.update k v m = m @ [(k, v)]"
  by (induction m) auto

lemma filter_swap: "filter P (filter Q xs) = filter Q (filter P xs)"
  by (induction xs) simp_all

section \<open>Integers, pointers\<close>

type_synonym u8 = "8 word"
type_synonym u32 = "32 word"
type_synonym u64 = "64 word"

text \<open>\<open>int\<close> is a 32-bit two's complement value: \<open>sint\<close> reads it, arithmetic wraps.\<close>

type_synonym c_int = "32 word"

text \<open>An object address; \<open>NULL\<close> is 0. A function pointer is an opaque number, 0 again \<open>NULL\<close>.\<close>

type_synonym addr = nat
type_synonym fptr = nat

abbreviation (input) NULL :: nat where
  "NULL \<equiv> 0"

section \<open>Outcomes and programs\<close>

datatype undefined_behaviour =
    Null_dereference
  | Dangling_pointer
  | Out_of_bounds
  | Division_by_zero
  | Null_call
  | Invalid_free
  | Uninitialised_read

datatype stop_reason =
    Assertion_failed
  | Exit int
  | Undefined undefined_behaviour

datatype ('a, 's) outcome = Done 'a 's | Stop stop_reason 's

type_synonym ('s, 'a) prog = "'s \<Rightarrow> ('a, 's) outcome"

named_theorems prog_simps
named_theorems world_simps
named_theorems held_simps
named_theorems wp_rules

definition cret :: "'a \<Rightarrow> ('s, 'a) prog" where
  "cret a = (\<lambda>s. Done a s)"

definition cstop :: "stop_reason \<Rightarrow> ('s, 'a) prog" where
  "cstop r = (\<lambda>s. Stop r s)"

definition cbind :: "('s, 'a) prog \<Rightarrow> ('a \<Rightarrow> ('s, 'b) prog) \<Rightarrow> ('s, 'b) prog" where
  "cbind m f = (\<lambda>s. case m s of Done a t \<Rightarrow> f a t | Stop r t \<Rightarrow> Stop r t)"

definition cthen :: "('s, 'a) prog \<Rightarrow> ('s, 'b) prog \<Rightarrow> ('s, 'b) prog" where
  "cthen m n = cbind m (\<lambda>_. n)"

text \<open>A block of statements run for their effect.\<close>

fun cseq :: "('s, unit) prog list \<Rightarrow> ('s, unit) prog" where
  "cseq [] = cret ()"
| "cseq (m # ms) = cthen m (cseq ms)"

definition cgets :: "('s \<Rightarrow> 'a) \<Rightarrow> ('s, 'a) prog" where
  "cgets f = (\<lambda>s. Done (f s) s)"

definition cmodify :: "('s \<Rightarrow> 's) \<Rightarrow> ('s, unit) prog" where
  "cmodify f = (\<lambda>s. Done () (f s))"

definition cassert :: "bool \<Rightarrow> ('s, unit) prog" where
  "cassert b = (if b then cret () else cstop Assertion_failed)"

definition cwhen :: "bool \<Rightarrow> ('s, unit) prog \<Rightarrow> ('s, unit) prog" where
  "cwhen b m = (if b then m else cret ())"

lemma cret_run [prog_simps]: "cret a s = Done a s"
  by (simp add: cret_def)

lemma cstop_run [prog_simps]: "cstop r s = Stop r s"
  by (simp add: cstop_def)

lemma cbind_run [prog_simps]:
  "cbind m f s = (case m s of Done a t \<Rightarrow> f a t | Stop r t \<Rightarrow> Stop r t)"
  by (simp add: cbind_def)

lemma cthen_run [prog_simps]:
  "cthen m n s = (case m s of Done _ t \<Rightarrow> n t | Stop r t \<Rightarrow> Stop r t)"
  by (simp add: cthen_def cbind_def)

lemma cgets_run [prog_simps]: "cgets f s = Done (f s) s"
  by (simp add: cgets_def)

lemma cmodify_run [prog_simps]: "cmodify f s = Done () (f s)"
  by (simp add: cmodify_def)

lemma cassert_run [prog_simps]:
  "cassert b s = (if b then Done () s else Stop Assertion_failed s)"
  by (simp add: cassert_def cret_def cstop_def)

lemma cwhen_run [prog_simps]: "cwhen b m s = (if b then m s else Done () s)"
  by (simp add: cwhen_def cret_def)

lemmas cseq_run [prog_simps] = cseq.simps

lemma cbind_assoc: "cbind (cbind m f) g = cbind m (\<lambda>a. cbind (f a) g)"
  by (rule ext) (simp add: cbind_def split: outcome.splits)

lemma cbind_ret_left: "cbind (cret a) f = f a"
  by (rule ext) (simp add: cbind_def cret_def)

lemma cbind_ret_right: "cbind m cret = m"
  by (rule ext) (simp add: cbind_def cret_def split: outcome.splits)

text \<open>Reading a run backwards: what a normal return of a sequence says about its parts.\<close>

lemma cbind_DoneE:
  assumes "cbind m f s = Done b u"
  obtains a t where "m s = Done a t" and "f a t = Done b u"
  using assms by (auto simp: cbind_def split: outcome.splits)

lemma cseq_append: "cseq (ms @ ns) = cthen (cseq ms) (cseq ns)"
  by (induction ms)
    (auto simp: cthen_def cbind_ret_left cbind_assoc cong: if_cong)

section \<open>Weakest preconditions\<close>

text \<open>
  \<open>wp m Q E s\<close>: when \<open>m\<close> runs from \<open>s\<close>, \<open>Q\<close> holds of what it returns and \<open>E\<close> of how it stops.
  The rules take a program apart statement by statement and give every answer a name of its own, so
  the goals that are left stay small.
\<close>

definition wp ::
  "('s, 'a) prog \<Rightarrow> ('a \<Rightarrow> 's \<Rightarrow> bool) \<Rightarrow> (stop_reason \<Rightarrow> 's \<Rightarrow> bool) \<Rightarrow> 's \<Rightarrow> bool" where
  "wp m Q E s \<longleftrightarrow> (case m s of Done a t \<Rightarrow> Q a t | Stop r t \<Rightarrow> E r t)"

lemma wp_ret [wp_rules]: "Q a s \<Longrightarrow> wp (cret a) Q E s"
  by (simp add: wp_def cret_def)

lemma wp_stop [wp_rules]: "E r s \<Longrightarrow> wp (cstop r) Q E s"
  by (simp add: wp_def cstop_def)

lemma wp_bind [wp_rules]: "wp m (\<lambda>a. wp (f a) Q E) E s \<Longrightarrow> wp (cbind m f) Q E s"
  by (simp add: wp_def cbind_def split: outcome.splits)

lemma wp_then [wp_rules]: "wp m (\<lambda>_. wp n Q E) E s \<Longrightarrow> wp (cthen m n) Q E s"
  by (simp add: cthen_def wp_bind)

lemma wp_seq_Nil [wp_rules]: "Q () s \<Longrightarrow> wp (cseq []) Q E s"
  by (simp add: wp_ret)

lemma wp_seq_Cons [wp_rules]: "wp m (\<lambda>_. wp (cseq ms) Q E) E s \<Longrightarrow> wp (cseq (m # ms)) Q E s"
  by (simp add: wp_then)

lemma wp_gets [wp_rules]: "Q (f s) s \<Longrightarrow> wp (cgets f) Q E s"
  by (simp add: wp_def cgets_def)

lemma wp_modify [wp_rules]: "Q () (f s) \<Longrightarrow> wp (cmodify f) Q E s"
  by (simp add: wp_def cmodify_def)

lemma wp_assert [wp_rules]:
  "(b \<Longrightarrow> Q () s) \<Longrightarrow> (\<not> b \<Longrightarrow> E Assertion_failed s) \<Longrightarrow> wp (cassert b) Q E s"
  by (simp add: wp_def cassert_def cret_def cstop_def)

lemma wp_when [wp_rules]:
  "(b \<Longrightarrow> wp m Q E s) \<Longrightarrow> (\<not> b \<Longrightarrow> Q () s) \<Longrightarrow> wp (cwhen b m) Q E s"
  by (simp add: wp_def cwhen_def cret_def)

lemma wp_if [wp_rules]:
  "(b \<Longrightarrow> wp m Q E s) \<Longrightarrow> (\<not> b \<Longrightarrow> wp n Q E s) \<Longrightarrow> wp (if b then m else n) Q E s"
  by simp

lemma wp_case_prod [wp_rules]:
  "(\<And>a b. x = (a, b) \<Longrightarrow> wp (f a b) Q E s) \<Longrightarrow> wp (case x of (a, b) \<Rightarrow> f a b) Q E s"
  by (cases x) simp

lemma wp_case_option [wp_rules]:
  "(x = None \<Longrightarrow> wp m Q E s) \<Longrightarrow> (\<And>a. x = Some a \<Longrightarrow> wp (f a) Q E s) \<Longrightarrow>
   wp (case x of None \<Rightarrow> m | Some a \<Rightarrow> f a) Q E s"
  by (cases x) simp_all

lemma wp_let [wp_rules]: "wp (f x) Q E s \<Longrightarrow> wp (Let x f) Q E s"
  by (simp add: Let_def)

lemma wp_DoneD: "wp m Q E s \<Longrightarrow> m s = Done a t \<Longrightarrow> Q a t"
  by (simp add: wp_def)

lemma wp_StopD: "wp m Q E s \<Longrightarrow> m s = Stop r t \<Longrightarrow> E r t"
  by (simp add: wp_def)

lemma wp_returns: "wp m Q (\<lambda>_ _. False) s \<Longrightarrow> \<exists>a t. m s = Done a t \<and> Q a t"
  by (cases "m s") (simp_all add: wp_def)

lemma wp_mono:
  "wp m Q E s \<Longrightarrow> (\<And>a t. Q a t \<Longrightarrow> Q' a t) \<Longrightarrow> (\<And>r t. E r t \<Longrightarrow> E' r t) \<Longrightarrow> wp m Q' E' s"
  by (simp add: wp_def split: outcome.splits)

lemma wp_known: "m s = Done a t \<Longrightarrow> Q a t \<Longrightarrow> wp m Q E s"
  by (simp add: wp_def)

section \<open>Words\<close>

lemma unat_word_add_bounded:
  fixes x y :: "'a::len word"
  assumes "unat x + unat y < 2 ^ LENGTH('a)"
  shows "unat (x + y) = unat x + unat y"
  using assms by (simp add: unat_word_ariths)

lemma unat_sum_list_words:
  fixes xs :: "'a::len word list"
  assumes "sum_list (map unat xs) < 2 ^ LENGTH('a)"
  shows "unat (sum_list xs) = sum_list (map unat xs)"
  using assms
proof (induction xs)
  case Nil
  then show ?case by simp
next
  case (Cons x xs)
  then have "unat (sum_list xs) = sum_list (map unat xs)" by simp
  with Cons.prems show ?case by (simp add: unat_word_add_bounded)
qed

lemma unat_of_nat_bounded:
  "n < 2 ^ LENGTH('a) \<Longrightarrow> unat (of_nat n :: 'a::len word) = n"
  by (simp add: unat_of_nat take_bit_nat_eq_self)

lemma unat_ucast_u32_u64 [simp]: "unat (ucast (x :: u32) :: u64) = unat x"
proof -
  have "unat x < 2 ^ 32" using unsigned_less [of x] by simp
  then have "unat x < 2 ^ 64" by simp
  then show ?thesis by (simp add: unsigned_ucast_eq take_bit_nat_eq_self)
qed

section \<open>Interfaces\<close>

text \<open>A step relation with an invariant that holds at the start and that every step keeps.\<close>

locale invariant_system =
  fixes start :: "'s \<Rightarrow> bool" and step :: "'s \<Rightarrow> 's \<Rightarrow> bool" and inv :: "'s \<Rightarrow> bool"
  assumes inv_start: "start s \<Longrightarrow> inv s"
    and inv_step: "inv s \<Longrightarrow> step s t \<Longrightarrow> inv t"
begin

lemma inv_run: "step\<^sup>*\<^sup>* s t \<Longrightarrow> inv s \<Longrightarrow> inv t"
  by (induction rule: rtranclp_induct) (auto intro: inv_step)

lemma reachable_inv: "start s \<Longrightarrow> step\<^sup>*\<^sup>* s t \<Longrightarrow> inv t"
  using inv_run inv_start by blast

end

text \<open>
  \<open>rounds n\<close> opens and closes \<open>n\<close> times, giving up at the first open whose result is not acceptable,
  and returns how many rounds were completed.
\<close>

fun rounds :: "('s, 'a) prog \<Rightarrow> ('a \<Rightarrow> bool) \<Rightarrow> ('a \<Rightarrow> ('s, 'b) prog) \<Rightarrow> nat \<Rightarrow> ('s, nat) prog" where
  "rounds opn ok cls 0 = cret 0"
| "rounds opn ok cls (Suc n) =
     cbind opn (\<lambda>a.
       if ok a then cthen (cls a) (cbind (rounds opn ok cls n) (\<lambda>k. cret (Suc k)))
       else cret 0)"

text \<open>
  An operation \<open>opn\<close> that, when its result is acceptable, is undone by \<open>cls\<close>: the observation
  \<open>obs\<close> (which resources are held, which memory is allocated) is back to what it was.
\<close>

locale open_close =
  fixes opn :: "('s, 'a) prog" and ok :: "'a \<Rightarrow> bool" and cls :: "'a \<Rightarrow> ('s, 'b) prog"
    and wf :: "'s \<Rightarrow> bool" and obs :: "'s \<Rightarrow> 'o"
  assumes close_after_open:
    "wf s \<Longrightarrow> opn s = Done a t \<Longrightarrow> ok a \<Longrightarrow>
      \<exists>b u. cls a t = Done b u \<and> obs u = obs s \<and> wf u"
begin

lemma complete_rounds: "rounds opn ok cls n s = Done n t \<Longrightarrow> wf s \<Longrightarrow> obs t = obs s \<and> wf t"
proof (induction n arbitrary: s)
  case 0
  then show ?case by (simp add: cret_def)
next
  case (Suc n)
  obtain a s1 where s1: "opn s = Done a s1" "ok a"
    using Suc.prems(1) by (auto simp: prog_simps split: outcome.splits if_splits)
  then obtain b s2 where s2: "cls a s1 = Done b s2" "obs s2 = obs s" "wf s2"
    using close_after_open Suc.prems(2) by blast
  have "rounds opn ok cls n s2 = Done n t"
    using Suc.prems(1) s1 s2(1) by (auto simp: prog_simps split: outcome.splits)
  then show ?case using Suc.IH s2(2,3) by simp
qed

end

text \<open>The same, where a failed open leaves nothing behind either and the operation always returns.\<close>

locale clean_open_close = open_close +
  assumes open_returns: "wf s \<Longrightarrow> \<exists>a t. opn s = Done a t"
    and failed_open: "wf s \<Longrightarrow> opn s = Done a t \<Longrightarrow> \<not> ok a \<Longrightarrow> obs t = obs s \<and> wf t"
begin

lemma all_rounds: "wf s \<Longrightarrow> \<exists>k t. rounds opn ok cls n s = Done k t \<and> k \<le> n \<and> obs t = obs s \<and> wf t"
proof (induction n arbitrary: s)
  case 0
  then show ?case by (simp add: cret_def)
next
  case (Suc n)
  obtain a s1 where s1: "opn s = Done a s1" using open_returns Suc.prems by blast
  show ?case
  proof (cases "ok a")
    case True
    then obtain b s2 where s2: "cls a s1 = Done b s2" "obs s2 = obs s" "wf s2"
      using close_after_open Suc.prems s1 by blast
    obtain k t where "rounds opn ok cls n s2 = Done k t" "k \<le> n" "obs t = obs s2" "wf t"
      using Suc.IH s2(3) by blast
    with True s1 s2 show ?thesis by (simp add: prog_simps)
  next
    case False
    with s1 failed_open [OF Suc.prems s1] show ?thesis by (simp add: prog_simps)
  qed
qed

end

end
