(* ===== verification/Rpc_Stat.thy ===== *)
theory Rpc_Stat
  imports HPrelude
begin

text \<open>
  The statistics of \<^verbatim>\<open>rpclite.c\<close>: the record \<open>rpc_statistic\<close>, the array \<open>rpc_stat\<close> indexed by
  \<open>rpc_stat_type\<close>, and the body of \<open>add_rpc_stat_record\<close>, which runs between the lock and the
  unlock of the record's mutex. The process-level functions, which also take the lock, are in the
  theory \<open>Rpclite_Init\<close>; the interleavings of several threads are in \<open>Stat_Threads\<close>.

  The counters keep their C widths: the number of samples is 32 bits wide, the times 64, and both
  wrap around. The division by the number of samples is guarded by nothing, so the update is
  partial: \<open>None\<close> is a division by zero.
\<close>

datatype rpc_stat_type = RPC_STAT_CONN | RPC_STAT_SEND | RPC_STAT_NR

text \<open>The value of the enumerator, which is the index into the array.\<close>

fun stat_index :: "rpc_stat_type \<Rightarrow> nat" where
  "stat_index RPC_STAT_CONN = 0"
| "stat_index RPC_STAT_SEND = 1"
| "stat_index RPC_STAT_NR = 2"

record rpc_statistic =
  rs_avg_time :: u64
  rs_max_time :: u64
  rs_tot_time :: u64
  rs_num :: u32

text \<open>Static storage starts zeroed; \<open>rpc_stat_init\<close> initialises the mutexes only.\<close>

definition zero_statistic :: rpc_statistic where
  "zero_statistic = \<lparr>rs_avg_time = 0, rs_max_time = 0, rs_tot_time = 0, rs_num = 0\<rparr>"

definition zero_rpc_stat :: "rpc_statistic list" where
  "zero_rpc_stat = replicate (stat_index RPC_STAT_NR) zero_statistic"

section \<open>The statements of the critical section\<close>

definition stat_num :: "rpc_statistic \<Rightarrow> rpc_statistic" where
  "stat_num rs = rs\<lparr>rs_num := rs_num rs + 1\<rparr>"

definition stat_tot :: "u64 \<Rightarrow> rpc_statistic \<Rightarrow> rpc_statistic" where
  "stat_tot time rs = rs\<lparr>rs_tot_time := rs_tot_time rs + time\<rparr>"

definition stat_max :: "u64 \<Rightarrow> rpc_statistic \<Rightarrow> rpc_statistic" where
  "stat_max time rs = (if rs_max_time rs < time then rs\<lparr>rs_max_time := time\<rparr> else rs)"

definition stat_avg :: "rpc_statistic \<Rightarrow> rpc_statistic option" where
  "stat_avg rs =
     (if rs_num rs = 0 then None
      else Some (rs\<lparr>rs_avg_time := rs_tot_time rs div ucast (rs_num rs)\<rparr>))"

definition stat_update :: "u64 \<Rightarrow> rpc_statistic \<Rightarrow> rpc_statistic option" where
  "stat_update time rs = stat_avg (stat_max time (stat_tot time (stat_num rs)))"

lemmas stat_stmt_defs = stat_num_def stat_tot_def stat_max_def stat_avg_def

text \<open>A run of updates, stopping at the first division by zero.\<close>

fun stat_run :: "u64 list \<Rightarrow> rpc_statistic \<Rightarrow> rpc_statistic option" where
  "stat_run [] rs = Some rs"
| "stat_run (t # ts) rs = (case stat_update t rs of None \<Rightarrow> None | Some rs' \<Rightarrow> stat_run ts rs')"

lemma stat_run_append:
  "stat_run (ts @ us) rs = (case stat_run ts rs of None \<Rightarrow> None | Some rs' \<Rightarrow> stat_run us rs')"
  by (induction ts arbitrary: rs) (auto split: option.splits)

lemma stat_run_snoc:
  "stat_run (ts @ [t]) rs = (case stat_run ts rs of None \<Rightarrow> None | Some rs' \<Rightarrow> stat_update t rs')"
  by (simp add: stat_run_append split: option.splits)

section \<open>What a run of updates computes\<close>

lemma stat_update_None_iff: "stat_update t rs = None \<longleftrightarrow> rs_num rs + 1 = 0"
  by (simp add: stat_update_def stat_stmt_defs)

lemma stat_update_fields:
  assumes "stat_update t rs = Some rs'"
  shows "rs_num rs' = rs_num rs + 1"
    and "rs_tot_time rs' = rs_tot_time rs + t"
    and "rs_max_time rs' = max (rs_max_time rs) t"
    and "rs_avg_time rs' = rs_tot_time rs' div ucast (rs_num rs')"
    and "rs_num rs' \<noteq> 0"
  using assms by (auto simp: stat_update_def stat_stmt_defs max_def split: if_splits)

lemma stat_run_fields:
  assumes "stat_run ts rs = Some rs'"
  shows "rs_num rs' = rs_num rs + of_nat (length ts)"
    and "rs_tot_time rs' = rs_tot_time rs + sum_list ts"
    and "rs_max_time rs' = foldl max (rs_max_time rs) ts"
    and "ts \<noteq> [] \<Longrightarrow> rs_avg_time rs' = rs_tot_time rs' div ucast (rs_num rs')"
proof -
  have "rs_num rs' = rs_num rs + of_nat (length ts) \<and>
      rs_tot_time rs' = rs_tot_time rs + sum_list ts \<and>
      rs_max_time rs' = foldl max (rs_max_time rs) ts \<and>
      (ts \<noteq> [] \<longrightarrow> rs_avg_time rs' = rs_tot_time rs' div ucast (rs_num rs'))"
    using assms
  proof (induction ts arbitrary: rs)
    case Nil
    then show ?case by simp
  next
    case (Cons t ts)
    then obtain r where r: "stat_update t rs = Some r" and rest: "stat_run ts r = Some rs'"
      by (auto split: option.splits)
    show ?case
    proof (cases "ts = []")
      case True
      with rest stat_update_fields [OF r] show ?thesis by simp
    next
      case False
      with Cons.IH [OF rest] stat_update_fields [OF r] show ?thesis
        by (simp add: algebra_simps)
    qed
  qed
  then show "rs_num rs' = rs_num rs + of_nat (length ts)"
    and "rs_tot_time rs' = rs_tot_time rs + sum_list ts"
    and "rs_max_time rs' = foldl max (rs_max_time rs) ts"
    and "ts \<noteq> [] \<Longrightarrow> rs_avg_time rs' = rs_tot_time rs' div ucast (rs_num rs')"
    by simp_all
qed

text \<open>The run fails exactly when the sample counter comes round to zero.\<close>

lemma u32_succ_zero_iff: "(n :: u32) + 1 = 0 \<longleftrightarrow> unat n = 2 ^ 32 - 1"
proof -
  have "n + 1 = 0 \<longleftrightarrow> n = - 1" by (simp add: eq_neg_iff_add_eq_0)
  also have "\<dots> \<longleftrightarrow> unat n = unat (- 1 :: u32)" by (simp add: word_unat_eq_iff)
  finally show ?thesis by (simp add: unsigned_minus_1_eq_mask mask_eq_exp_minus_1)
qed

lemma stat_run_None_iff: "stat_run ts rs = None \<longleftrightarrow> 2 ^ 32 \<le> unat (rs_num rs) + length ts"
proof (induction ts arbitrary: rs)
  case Nil
  have "unat (rs_num rs) < 2 ^ 32" using unsigned_less [of "rs_num rs"] by simp
  then show ?case by simp
next
  case (Cons t ts)
  show ?case
  proof (cases "stat_update t rs")
    case None
    then have "unat (rs_num rs) = 2 ^ 32 - 1"
      using stat_update_None_iff [of t rs] by (simp add: u32_succ_zero_iff)
    with None show ?thesis by simp
  next
    case (Some r)
    then have ne: "unat (rs_num rs) \<noteq> 2 ^ 32 - 1"
      using stat_update_None_iff [of t rs] by (auto simp: u32_succ_zero_iff)
    moreover have "unat (rs_num rs) < 2 ^ 32" using unsigned_less [of "rs_num rs"] by simp
    ultimately have "unat (rs_num rs + 1) = unat (rs_num rs) + 1"
      using unat_word_add_bounded [of "rs_num rs" 1] by simp
    with Some Cons.IH [of r] stat_update_fields(1) [OF Some] show ?thesis by simp
  qed
qed

lemma stat_run_Some:
  assumes "unat (rs_num rs) + length ts < 2 ^ 32"
  shows "\<exists>rs'. stat_run ts rs = Some rs'"
  using assms stat_run_None_iff [of ts rs] by (cases "stat_run ts rs") auto

lemma foldl_max_Max:
  fixes m :: "'a::linorder"
  shows "foldl max m ts = Max (insert m (set ts))"
proof (induction ts arbitrary: m)
  case Nil
  then show ?case by simp
next
  case (Cons t ts)
  have "insert (max m t) (set ts) \<noteq> {}" by simp
  show ?case
    by (cases "ts = []") (simp_all add: Cons.IH Max_insert max.assoc)
qed

lemma stat_run_figures:
  assumes "ts \<noteq> []" and "length ts < 2 ^ 32" and "sum_list (map unat ts) < 2 ^ 64"
  shows "\<exists>rs. stat_run ts zero_statistic = Some rs \<and>
    unat (rs_num rs) = length ts \<and>
    unat (rs_tot_time rs) = sum_list (map unat ts) \<and>
    rs_max_time rs = Max (set ts) \<and>
    unat (rs_avg_time rs) = sum_list (map unat ts) div length ts"
proof -
  obtain rs where rs: "stat_run ts zero_statistic = Some rs"
    using stat_run_Some [of zero_statistic ts] assms(2) by (auto simp: zero_statistic_def)
  note f = stat_run_fields [OF rs]
  have num: "unat (rs_num rs) = length ts"
    using f(1) assms(2) by (simp add: zero_statistic_def unat_of_nat_bounded)
  have tot: "unat (rs_tot_time rs) = sum_list (map unat ts)"
    using f(2) assms(3) by (simp add: zero_statistic_def unat_sum_list_words)
  have "Max (insert 0 (set ts)) = Max (set ts)"
    using assms(1) by (simp add: Max_insert)
  then have mx: "rs_max_time rs = Max (set ts)"
    using f(3) by (simp add: zero_statistic_def foldl_max_Max)
  have "unat (ucast (rs_num rs) :: u64) = length ts"
    using num by simp
  then have "unat (rs_avg_time rs) = sum_list (map unat ts) div length ts"
    using f(4) [OF assms(1)] tot by (simp add: unat_div)
  with rs num tot mx show ?thesis by blast
qed

text \<open>
  The statistics are what their names say. After any non-empty sequence of samples recorded from
  zeroed storage, as long as the 32-bit counter and the 64-bit total do not overflow, the counter is
  the number of samples, the total their sum, the maximum their maximum, and the average the
  truncated quotient of the sum and the number; in particular no update divides by zero.
\<close>

theorem stat_run_correct:
  assumes "ts \<noteq> []" and "length ts < 2 ^ 32" and "sum_list (map unat ts) < 2 ^ 64"
  shows "\<exists>rs. stat_run ts zero_statistic = Some rs \<and>
    unat (rs_num rs) = length ts \<and>
    unat (rs_tot_time rs) = sum_list (map unat ts) \<and>
    rs_max_time rs = Max (set ts) \<and>
    unat (rs_avg_time rs) = sum_list (map unat ts) div length ts"
  using assms by (rule stat_run_figures)

text \<open>
  The number of samples is the only thing that can make recording fail: from zeroed storage a
  sequence of samples ends in a division by zero exactly when there are at least \<open>2 ^ 32\<close> of them,
  whatever their values.
\<close>

theorem stat_run_traps_iff:
  "stat_run ts zero_statistic = None \<longleftrightarrow> 2 ^ 32 \<le> length ts"
  by (simp add: stat_run_None_iff zero_statistic_def)

lemma sum_list_le_length_times:
  fixes ts :: "nat list"
  assumes "\<And>t. t \<in> set ts \<Longrightarrow> t \<le> m"
  shows "sum_list ts \<le> length ts * m"
  using assms by (induction ts) (auto intro: add_mono)

text \<open>
  The published figures are consistent with each other: without overflow the average is at most
  the maximum, and the maximum is one of the recorded samples.
\<close>

theorem stat_avg_le_max:
  assumes "ts \<noteq> []" and "sum_list (map unat ts) < 2 ^ 64"
    and "stat_run ts zero_statistic = Some rs"
  shows "rs_avg_time rs \<le> rs_max_time rs \<and> rs_max_time rs \<in> set ts"
proof -
  have "length ts < 2 ^ 32"
    using assms(3) stat_run_None_iff [of ts zero_statistic]
    by (cases "2 ^ 32 \<le> length ts") (auto simp: zero_statistic_def)
  note f = stat_run_fields [OF assms(3)]
  have num: "unat (rs_num rs) = length ts"
    using f(1) \<open>length ts < 2 ^ 32\<close> by (simp add: zero_statistic_def unat_of_nat_bounded)
  have tot: "unat (rs_tot_time rs) = sum_list (map unat ts)"
    using f(2) assms(2) by (simp add: zero_statistic_def unat_sum_list_words)
  have "rs_max_time rs = Max (insert 0 (set ts))"
    using f(3) by (simp add: zero_statistic_def foldl_max_Max)
  then have mx: "rs_max_time rs = Max (set ts)"
    using assms(1) by (simp add: Max_insert)
  have "sum_list (map unat ts) \<le> length (map unat ts) * unat (Max (set ts))"
    by (rule sum_list_le_length_times) (auto simp: word_le_nat_alt [symmetric])
  then have "sum_list (map unat ts) div length ts \<le> unat (Max (set ts))"
    by (metis assms(1) div_le_mono length_0_conv length_map nonzero_mult_div_cancel_left)
  then have "rs_avg_time rs \<le> rs_max_time rs"
    using f(4) [OF assms(1)] num tot mx by (simp add: word_le_nat_alt unat_div)
  with mx assms(1) show ?thesis by simp
qed

end
