(* ===== verification/Stat_Threads.thy ===== *)
theory Stat_Threads
  imports Rpc_Stat
begin

text \<open>
  Any number of threads calling \<open>add_rpc_stat_record\<close> on one element of \<open>rpc_stat\<close>, each statement of
  the function a step of its own and the scheduler free. The mutex is Mero's: its two operations are
  parameters of the step relation, and what the code relies on is the hypothesis
  \<open>mutex_contract\<close>. The result is that the function is atomic: every quiescent state is the result
  of running the completed calls one after the other.
\<close>

section \<open>The mutex\<close>

text \<open>
  \<open>acquire m i\<close> is the mutex after thread \<open>i\<close> got it, or \<open>None\<close> while the thread has to wait.
  A mutex is granted only when nobody holds it, and released only to nobody.
\<close>

definition mutex_contract ::
  "('m \<Rightarrow> nat \<Rightarrow> 'm option) \<Rightarrow> ('m \<Rightarrow> nat \<Rightarrow> 'm option) \<Rightarrow> ('m \<Rightarrow> nat option) \<Rightarrow> bool" where
  "mutex_contract acquire release holder \<longleftrightarrow>
     (\<forall>m i m'. acquire m i = Some m' \<longrightarrow> holder m = None \<and> holder m' = Some i) \<and>
     (\<forall>m i m'. release m i = Some m' \<longrightarrow> holder m' = None)"

section \<open>Threads\<close>

datatype pc = Outside | At_lock | At_num | At_tot | At_max | At_avg | At_unlock

fun in_critical :: "pc \<Rightarrow> bool" where
  "in_critical Outside = False"
| "in_critical At_lock = False"
| "in_critical _ = True"

text \<open>
  \<open>th_done\<close> lists the calls that have returned, in the order of their unlocks, with the thread and
  the sample of each; no step reads it.
\<close>

record 'm threads =
  th_stat :: rpc_statistic
  th_mutex :: 'm
  th_pc :: "nat \<Rightarrow> pc"
  th_time :: "nat \<Rightarrow> u64"
  th_done :: "(nat \<times> u64) list"
  th_trapped :: bool

definition goto :: "nat \<Rightarrow> pc \<Rightarrow> 'm threads \<Rightarrow> 'm threads" where
  "goto i p s = s\<lparr>th_pc := (th_pc s)(i := p)\<rparr>"

inductive add_rpc_stat_record_step ::
  "('m \<Rightarrow> nat \<Rightarrow> 'm option) \<Rightarrow> ('m \<Rightarrow> nat \<Rightarrow> 'm option) \<Rightarrow> 'm threads \<Rightarrow> 'm threads \<Rightarrow> bool"
  for acquire release where
  call: "\<not> th_trapped s \<Longrightarrow> th_pc s i = Outside \<Longrightarrow>
     add_rpc_stat_record_step acquire release s
       (goto i At_lock (s\<lparr>th_time := (th_time s)(i := t)\<rparr>))"
| lock: "\<not> th_trapped s \<Longrightarrow> th_pc s i = At_lock \<Longrightarrow> acquire (th_mutex s) i = Some m \<Longrightarrow>
     add_rpc_stat_record_step acquire release s (goto i At_num (s\<lparr>th_mutex := m\<rparr>))"
| num: "\<not> th_trapped s \<Longrightarrow> th_pc s i = At_num \<Longrightarrow>
     add_rpc_stat_record_step acquire release s
       (goto i At_tot (s\<lparr>th_stat := stat_num (th_stat s)\<rparr>))"
| tot: "\<not> th_trapped s \<Longrightarrow> th_pc s i = At_tot \<Longrightarrow>
     add_rpc_stat_record_step acquire release s
       (goto i At_max (s\<lparr>th_stat := stat_tot (th_time s i) (th_stat s)\<rparr>))"
| max: "\<not> th_trapped s \<Longrightarrow> th_pc s i = At_max \<Longrightarrow>
     add_rpc_stat_record_step acquire release s
       (goto i At_avg (s\<lparr>th_stat := stat_max (th_time s i) (th_stat s)\<rparr>))"
| avg: "\<not> th_trapped s \<Longrightarrow> th_pc s i = At_avg \<Longrightarrow> stat_avg (th_stat s) = Some rs \<Longrightarrow>
     add_rpc_stat_record_step acquire release s (goto i At_unlock (s\<lparr>th_stat := rs\<rparr>))"
| trap: "\<not> th_trapped s \<Longrightarrow> th_pc s i = At_avg \<Longrightarrow> stat_avg (th_stat s) = None \<Longrightarrow>
     add_rpc_stat_record_step acquire release s (s\<lparr>th_trapped := True\<rparr>)"
| unlock: "\<not> th_trapped s \<Longrightarrow> th_pc s i = At_unlock \<Longrightarrow> release (th_mutex s) i = Some m \<Longrightarrow>
     add_rpc_stat_record_step acquire release s
       (goto i Outside (s\<lparr>th_mutex := m, th_done := th_done s @ [(i, th_time s i)]\<rparr>))"

definition threads_start :: "('m \<Rightarrow> nat option) \<Rightarrow> rpc_statistic \<Rightarrow> 'm threads \<Rightarrow> bool" where
  "threads_start holder rs s \<longleftrightarrow>
     th_stat s = rs \<and> holder (th_mutex s) = None \<and> (\<forall>i. th_pc s i = Outside) \<and>
     th_done s = [] \<and> \<not> th_trapped s"

section \<open>The invariant\<close>

text \<open>How far the thread at \<open>p\<close>, recording \<open>t\<close>, has taken the statistic from \<open>rs\<close>.\<close>

fun progress :: "pc \<Rightarrow> u64 \<Rightarrow> rpc_statistic \<Rightarrow> rpc_statistic option" where
  "progress At_tot t rs = Some (stat_num rs)"
| "progress At_max t rs = Some (stat_tot t (stat_num rs))"
| "progress At_avg t rs = Some (stat_max t (stat_tot t (stat_num rs)))"
| "progress At_unlock t rs = stat_update t rs"
| "progress _ t rs = Some rs"

definition exclusive :: "('m \<Rightarrow> nat option) \<Rightarrow> 'm threads \<Rightarrow> bool" where
  "exclusive holder s \<longleftrightarrow> (\<forall>i. in_critical (th_pc s i) \<longleftrightarrow> holder (th_mutex s) = Some i)"

definition stat_inv :: "('m \<Rightarrow> nat option) \<Rightarrow> rpc_statistic \<Rightarrow> 'm threads \<Rightarrow> bool" where
  "stat_inv holder rs0 s \<longleftrightarrow> exclusive holder s \<and>
     (\<exists>rs. stat_run (map snd (th_done s)) rs0 = Some rs \<and>
       (case holder (th_mutex s) of
          None \<Rightarrow> th_stat s = rs
        | Some i \<Rightarrow> progress (th_pc s i) (th_time s i) rs = Some (th_stat s)))"

lemma exclusive_holder: "exclusive holder s \<Longrightarrow> in_critical (th_pc s i) \<Longrightarrow> holder (th_mutex s) = Some i"
  by (simp add: exclusive_def)

text \<open>A step inside the critical section: the mutex and the finished calls stay as they are.\<close>

lemma stat_inv_critical_step:
  assumes "stat_inv holder rs0 s" and "in_critical (th_pc s i)" and "in_critical p"
    and "\<And>rs. progress (th_pc s i) (th_time s i) rs = Some (th_stat s) \<Longrightarrow>
      progress p (th_time s i) rs = Some new"
  shows "stat_inv holder rs0 (goto i p (s\<lparr>th_stat := new\<rparr>))"
proof -
  from assms(1) have ex: "exclusive holder s" by (simp add: stat_inv_def)
  with assms(2) have h: "holder (th_mutex s) = Some i" by (simp add: exclusive_def)
  with assms(1) obtain rs where "stat_run (map snd (th_done s)) rs0 = Some rs"
    and "progress (th_pc s i) (th_time s i) rs = Some (th_stat s)"
    by (auto simp: stat_inv_def)
  moreover have "exclusive holder (goto i p (s\<lparr>th_stat := new\<rparr>))"
    using ex assms(2,3) by (auto simp: exclusive_def goto_def)
  ultimately show ?thesis
    using h assms(4) by (auto simp: stat_inv_def goto_def)
qed

lemma stat_inv_call:
  assumes "stat_inv holder rs0 s" and "th_pc s i = Outside"
  shows "stat_inv holder rs0 (goto i At_lock (s\<lparr>th_time := (th_time s)(i := t)\<rparr>))"
proof -
  have "holder (th_mutex s) \<noteq> Some i"
    using assms by (metis exclusive_def in_critical.simps(1) stat_inv_def)
  with assms show ?thesis
    by (auto simp: stat_inv_def exclusive_def goto_def split: option.splits)
qed

lemma stat_inv_lock:
  assumes "stat_inv holder rs0 s" and "holder (th_mutex s) = None" and "holder m = Some i"
  shows "stat_inv holder rs0 (goto i At_num (s\<lparr>th_mutex := m\<rparr>))"
  using assms by (auto simp: stat_inv_def exclusive_def goto_def)

lemma stat_inv_unlock:
  assumes "stat_inv holder rs0 s" and "th_pc s i = At_unlock" and "holder m = None"
  shows "stat_inv holder rs0
    (goto i Outside (s\<lparr>th_mutex := m, th_done := th_done s @ [(i, th_time s i)]\<rparr>))"
proof -
  from assms(1) have ex: "exclusive holder s" by (simp add: stat_inv_def)
  then have h: "holder (th_mutex s) = Some i" by (rule exclusive_holder) (simp add: assms(2))
  with assms(1,2) obtain rs where "stat_run (map snd (th_done s)) rs0 = Some rs"
    and "stat_update (th_time s i) rs = Some (th_stat s)"
    by (auto simp: stat_inv_def)
  then have "stat_run (map snd (th_done s @ [(i, th_time s i)])) rs0 = Some (th_stat s)"
    by (simp add: stat_run_snoc)
  moreover have "\<not> in_critical (if j = i then Outside else th_pc s j)" for j
    using ex h by (auto simp: exclusive_def)
  ultimately show ?thesis
    using assms(3) by (simp add: stat_inv_def exclusive_def goto_def)
qed

lemma stat_inv_step:
  assumes "mutex_contract acquire release holder"
    and "add_rpc_stat_record_step acquire release s t" and "stat_inv holder rs0 s"
  shows "stat_inv holder rs0 t"
  using assms(2)
proof cases
  case (call i t)
  then show ?thesis using assms(3) by (simp add: stat_inv_call)
next
  case (lock i m)
  then show ?thesis using assms(1,3) by (auto simp: mutex_contract_def intro: stat_inv_lock)
next
  case (num i)
  then show ?thesis using assms(3) by (auto intro!: stat_inv_critical_step)
next
  case (tot i)
  then show ?thesis using assms(3) by (auto intro!: stat_inv_critical_step)
next
  case (max i)
  then show ?thesis using assms(3) by (auto intro!: stat_inv_critical_step)
next
  case (avg i rs)
  then show ?thesis using assms(3)
    by (auto simp: stat_update_def intro!: stat_inv_critical_step)
next
  case (trap i)
  then show ?thesis using assms(3)
    by (auto simp: stat_inv_def exclusive_def split: option.splits)
next
  case (unlock i m)
  then show ?thesis using assms(1,3) by (auto simp: mutex_contract_def intro: stat_inv_unlock)
qed

lemma threads_invariant:
  assumes "mutex_contract acquire release holder"
  shows "invariant_system (threads_start holder rs0)
    (add_rpc_stat_record_step acquire release) (stat_inv holder rs0)"
proof
  fix s :: "'a threads"
  assume "threads_start holder rs0 s"
  then show "stat_inv holder rs0 s"
    by (simp add: threads_start_def stat_inv_def exclusive_def)
next
  fix s t :: "'a threads"
  assume "stat_inv holder rs0 s" and "add_rpc_stat_record_step acquire release s t"
  then show "stat_inv holder rs0 t" using stat_inv_step [OF assms] by blast
qed

lemmas threads_reachable_inv = invariant_system.reachable_inv [OF threads_invariant]

section \<open>Order of the samples\<close>

lemma foldl_max_mset_cong:
  fixes m :: "'a::linorder"
  shows "mset ts = mset us \<Longrightarrow> foldl max m ts = foldl max m us"
  using foldl_max_Max [of m ts] foldl_max_Max [of m us] by (metis set_mset_mset)

lemma sum_list_mset_cong:
  fixes ts :: "'a::comm_monoid_add list"
  shows "mset ts = mset us \<Longrightarrow> sum_list ts = sum_list us"
  by (metis sum_mset_sum_list)

lemma stat_run_order_irrelevant:
  assumes "stat_run ts rs = Some a" and "stat_run us rs = Some b" and "mset ts = mset us"
  shows "a = b"
proof (cases "ts = []")
  case True
  with assms show ?thesis by simp
next
  case False
  with assms(3) have "us \<noteq> []" by auto
  have "rs_num a = rs_num b"
    using stat_run_fields(1) [OF assms(1)] stat_run_fields(1) [OF assms(2)] assms(3)
    by (metis size_mset)
  moreover have "rs_tot_time a = rs_tot_time b"
    using stat_run_fields(2) [OF assms(1)] stat_run_fields(2) [OF assms(2)]
      sum_list_mset_cong [OF assms(3)] by simp
  moreover have "rs_max_time a = rs_max_time b"
    using stat_run_fields(3) [OF assms(1)] stat_run_fields(3) [OF assms(2)]
      foldl_max_mset_cong [OF assms(3)] by simp
  ultimately show ?thesis
    using stat_run_fields(4) [OF assms(1) False] stat_run_fields(4) [OF assms(2) \<open>us \<noteq> []\<close>]
    by simp
qed

text \<open>
  C1. \<open>add_rpc_stat_record\<close> is atomic. Whatever the interleaving of the threads' statements, in every
  reachable state in which no thread is between its lock and its unlock, the shared statistic is the
  result of running the completed calls one after the other, and it does not depend on their order:
  any sequential order of the same samples that succeeds gives the same statistic.
\<close>

theorem add_rpc_stat_record_atomic:
  assumes "mutex_contract acquire release holder"
    and "threads_start holder rs0 s0"
    and "(add_rpc_stat_record_step acquire release)\<^sup>*\<^sup>* s0 s"
    and "\<And>i. \<not> in_critical (th_pc s i)"
  shows "stat_run (map snd (th_done s)) rs0 = Some (th_stat s) \<and>
    (\<forall>us rs. mset us = mset (map snd (th_done s)) \<longrightarrow> stat_run us rs0 = Some rs \<longrightarrow>
       rs = th_stat s)"
proof -
  have inv: "stat_inv holder rs0 s"
    using threads_reachable_inv [OF assms(1-3)] .
  then have "holder (th_mutex s) = None"
    using assms(4) by (cases "holder (th_mutex s)") (auto simp: stat_inv_def exclusive_def)
  with inv have run: "stat_run (map snd (th_done s)) rs0 = Some (th_stat s)"
    by (auto simp: stat_inv_def)
  with stat_run_order_irrelevant [OF _ run] show ?thesis by blast
qed

text \<open>A mutex as the contract describes it, for the witnesses: the holder itself.\<close>

definition option_acquire :: "nat option \<Rightarrow> nat \<Rightarrow> nat option option" where
  "option_acquire m i = (if m = None then Some (Some i) else None)"

definition option_release :: "nat option \<Rightarrow> nat \<Rightarrow> nat option option" where
  "option_release m i = (if m = Some i then Some None else None)"

lemma option_mutex_contract: "mutex_contract option_acquire option_release (\<lambda>m. m)"
  by (simp add: mutex_contract_def option_acquire_def option_release_def)

definition threads_example :: "nat option threads" where
  "threads_example = \<lparr>th_stat = zero_statistic, th_mutex = None, th_pc = (\<lambda>_. Outside),
     th_time = (\<lambda>_. 0), th_done = [], th_trapped = False\<rparr>"

text \<open>One whole call of one thread, statement by statement.\<close>

lemma whole_call:
  assumes "\<not> th_trapped s" and "th_pc s i = Outside" and "th_mutex s = None"
    and "stat_update t (th_stat s) = Some rs"
  shows "(add_rpc_stat_record_step option_acquire option_release)\<^sup>*\<^sup>* s
    (goto i Outside (s\<lparr>th_time := (th_time s)(i := t), th_stat := rs, th_mutex := None,
       th_done := th_done s @ [(i, t)]\<rparr>))"
proof -
  let ?R = "add_rpc_stat_record_step option_acquire option_release"
  let ?s1 = "goto i At_lock (s\<lparr>th_time := (th_time s)(i := t)\<rparr>)"
  let ?s2 = "goto i At_num (?s1\<lparr>th_mutex := Some i\<rparr>)"
  let ?s3 = "goto i At_tot (?s2\<lparr>th_stat := stat_num (th_stat ?s2)\<rparr>)"
  let ?s4 = "goto i At_max (?s3\<lparr>th_stat := stat_tot (th_time ?s3 i) (th_stat ?s3)\<rparr>)"
  let ?s5 = "goto i At_avg (?s4\<lparr>th_stat := stat_max (th_time ?s4 i) (th_stat ?s4)\<rparr>)"
  let ?s6 = "goto i At_unlock (?s5\<lparr>th_stat := rs\<rparr>)"
  let ?s7 = "goto i Outside (?s6\<lparr>th_mutex := None, th_done := th_done ?s6 @ [(i, th_time ?s6 i)]\<rparr>)"
  have "?R s ?s1" using assms(1,2) by (rule call)
  moreover have "?R ?s1 ?s2"
    using assms by (intro lock) (simp_all add: goto_def option_acquire_def)
  moreover have "?R ?s2 ?s3" using assms by (intro num) (simp_all add: goto_def)
  moreover have "?R ?s3 ?s4" using assms by (intro tot) (simp_all add: goto_def)
  moreover have "?R ?s4 ?s5" using assms by (intro max) (simp_all add: goto_def)
  moreover have "?R ?s5 ?s6"
    using assms by (intro avg) (simp_all add: goto_def stat_update_def)
  moreover have "?R ?s6 ?s7"
    using assms by (intro unlock) (simp_all add: goto_def option_release_def)
  ultimately have "?R\<^sup>*\<^sup>* s ?s7" by (meson converse_rtranclp_into_rtranclp rtranclp.rtrancl_refl)
  then show ?thesis using assms(3) by (simp add: goto_def)
qed

lemma two_calls:
  "\<exists>s. (add_rpc_stat_record_step option_acquire option_release)\<^sup>*\<^sup>* threads_example s \<and>
     (\<forall>i. th_pc s i = Outside) \<and> th_done s = [(0, 4), (1, 6)]"
proof -
  let ?rs1 = "\<lparr>rs_avg_time = 4, rs_max_time = 4, rs_tot_time = 4, rs_num = 1\<rparr> :: rpc_statistic"
  let ?rs2 = "\<lparr>rs_avg_time = 5, rs_max_time = 6, rs_tot_time = 10, rs_num = 2\<rparr> :: rpc_statistic"
  let ?s1 = "goto 0 Outside (threads_example\<lparr>th_time := (th_time threads_example)(0 := 4),
    th_stat := ?rs1, th_mutex := None, th_done := th_done threads_example @ [(0, 4)]\<rparr>)"
  let ?s2 = "goto 1 Outside (?s1\<lparr>th_time := (th_time ?s1)(1 := 6),
    th_stat := ?rs2, th_mutex := None, th_done := th_done ?s1 @ [(1, 6)]\<rparr>)"
  have "stat_update 4 zero_statistic = Some ?rs1" "stat_update 6 ?rs1 = Some ?rs2"
    by (simp_all add: stat_update_def stat_stmt_defs zero_statistic_def)
  then have "(add_rpc_stat_record_step option_acquire option_release)\<^sup>*\<^sup>* threads_example ?s1"
    and "(add_rpc_stat_record_step option_acquire option_release)\<^sup>*\<^sup>* ?s1 ?s2"
    by (intro whole_call; simp add: threads_example_def goto_def)+
  then have "(add_rpc_stat_record_step option_acquire option_release)\<^sup>*\<^sup>* threads_example ?s2"
    by (rule rtranclp_trans)
  moreover have "(\<forall>i. th_pc ?s2 i = Outside) \<and> th_done ?s2 = [(0, 4), (1, 6)]"
    by (simp add: threads_example_def goto_def)
  ultimately show ?thesis by blast
qed

theorem add_rpc_stat_record_atomic_witness:
  "\<exists>s. (add_rpc_stat_record_step option_acquire option_release)\<^sup>*\<^sup>* threads_example s \<and>
     th_done s = [(0, 4), (1, 6)] \<and> stat_run [4, 6] zero_statistic = Some (th_stat s)"
proof -
  obtain s where s: "(add_rpc_stat_record_step option_acquire option_release)\<^sup>*\<^sup>* threads_example s"
      "\<And>i. th_pc s i = Outside" "th_done s = [(0, 4), (1, 6)]"
    using two_calls by blast
  have start: "threads_start (\<lambda>m. m) zero_statistic threads_example"
    by (simp add: threads_start_def threads_example_def)
  have "\<not> in_critical (th_pc s i)" for i by (simp add: s(2))
  from add_rpc_stat_record_atomic [OF option_mutex_contract start s(1) this] s(1,3)
  show ?thesis by (intro exI [of _ s]) (simp del: stat_run.simps)
qed

section \<open>When a thread traps\<close>

definition trap_inv :: "('m \<Rightarrow> nat option) \<Rightarrow> rpc_statistic \<Rightarrow> 'm threads \<Rightarrow> bool" where
  "trap_inv holder rs0 s \<longleftrightarrow> stat_inv holder rs0 s \<and>
     (th_trapped s \<longrightarrow> (\<exists>t. stat_run (map snd (th_done s) @ [t]) rs0 = None))"

lemma trap_inv_trap:
  assumes "stat_inv holder rs0 s" and "th_pc s i = At_avg" and "stat_avg (th_stat s) = None"
  shows "stat_run (map snd (th_done s) @ [th_time s i]) rs0 = None"
proof -
  have "exclusive holder s" using assms(1) by (simp add: stat_inv_def)
  then have "holder (th_mutex s) = Some i"
    by (rule exclusive_holder) (simp add: assms(2))
  with assms show ?thesis
    by (auto simp: stat_inv_def stat_run_snoc stat_update_def)
qed

lemma trap_inv_step:
  assumes "mutex_contract acquire release holder"
    and "add_rpc_stat_record_step acquire release s t" and "trap_inv holder rs0 s"
  shows "trap_inv holder rs0 t"
proof -
  have st: "stat_inv holder rs0 s" using assms(3) by (simp add: trap_inv_def)
  have "th_trapped t \<longrightarrow> (\<exists>u. stat_run (map snd (th_done t) @ [u]) rs0 = None)"
    using assms(2)
  proof cases
    case (trap i)
    then show ?thesis using trap_inv_trap [OF st] by auto
  qed (simp_all add: goto_def)
  with stat_inv_step [OF assms(1,2) st] show ?thesis by (simp add: trap_inv_def)
qed

lemma trap_invariant:
  assumes "mutex_contract acquire release holder"
  shows "invariant_system (threads_start holder rs0)
    (add_rpc_stat_record_step acquire release) (trap_inv holder rs0)"
  by unfold_locales
    (use trap_inv_step [OF assms] invariant_system.inv_start [OF threads_invariant [OF assms]] in
      \<open>auto simp: trap_inv_def threads_start_def\<close>)

text \<open>
  No interleaving of the threads can make \<open>add_rpc_stat_record\<close> divide by zero before the sample
  counter wraps: if some thread has trapped, then the samples recorded so far, together with the one
  being recorded, take the counter past its 32 bits.
\<close>

theorem trapped_only_on_wrap:
  assumes "mutex_contract acquire release holder"
    and "threads_start holder rs0 s0"
    and "(add_rpc_stat_record_step acquire release)\<^sup>*\<^sup>* s0 s"
    and "unat (rs_num rs0) + length (th_done s) + 1 < 2 ^ 32"
  shows "\<not> th_trapped s"
proof
  assume "th_trapped s"
  with invariant_system.reachable_inv [OF trap_invariant [OF assms(1)] assms(2,3)]
  obtain t where "stat_run (map snd (th_done s) @ [t]) rs0 = None"
    by (auto simp: trap_inv_def)
  then show False using assms(4) by (simp add: stat_run_None_iff)
qed

section \<open>Progress\<close>

text \<open>A mutex that is free is granted, and its holder can give it back.\<close>

definition mutex_available ::
  "('m \<Rightarrow> nat \<Rightarrow> 'm option) \<Rightarrow> ('m \<Rightarrow> nat \<Rightarrow> 'm option) \<Rightarrow> ('m \<Rightarrow> nat option) \<Rightarrow> bool" where
  "mutex_available acquire release holder \<longleftrightarrow>
     (\<forall>m i. holder m = None \<longrightarrow> acquire m i \<noteq> None) \<and>
     (\<forall>m i. holder m = Some i \<longrightarrow> release m i \<noteq> None)"

fun after :: "pc \<Rightarrow> pc" where
  "after At_num = At_tot"
| "after At_tot = At_max"
| "after At_max = At_avg"
| "after At_avg = At_unlock"
| "after _ = Outside"

text \<open>The states a call of thread \<open>i\<close> goes through once it holds the mutex.\<close>

definition live_state :: "('m \<Rightarrow> nat option) \<Rightarrow> rpc_statistic \<Rightarrow> 'm threads \<Rightarrow> bool" where
  "live_state holder rs0 s \<longleftrightarrow> stat_inv holder rs0 s \<and> \<not> th_trapped s"

lemma average_defined:
  assumes "stat_inv holder rs0 s" and "th_pc s i = At_avg"
    and "unat (rs_num rs0) + length (th_done s) + 1 < 2 ^ 32"
  shows "\<exists>rs. stat_avg (th_stat s) = Some rs"
proof (rule ccontr)
  assume "\<nexists>rs. stat_avg (th_stat s) = Some rs"
  then have "stat_avg (th_stat s) = None" by simp
  from trap_inv_trap [OF assms(1,2) this] show False using assms(3) by (simp add: stat_run_None_iff)
qed

lemma critical_next:
  assumes "mutex_contract acquire release holder" and "mutex_available acquire release holder"
    and "live_state holder rs0 s" and "in_critical (th_pc s i)"
    and "unat (rs_num rs0) + length (th_done s) + 1 < 2 ^ 32"
  shows "\<exists>t. add_rpc_stat_record_step acquire release s t \<and> live_state holder rs0 t \<and>
    th_pc t = (th_pc s)(i := after (th_pc s i)) \<and> th_time t = th_time s \<and>
    th_done t = th_done s @ (if th_pc s i = At_unlock then [(i, th_time s i)] else [])"
proof -
  have live: "\<not> th_trapped s" "stat_inv holder rs0 s" using assms(3) by (simp_all add: live_state_def)
  have "\<exists>t. add_rpc_stat_record_step acquire release s t \<and> \<not> th_trapped t \<and>
      th_pc t = (th_pc s)(i := after (th_pc s i)) \<and> th_time t = th_time s \<and>
      th_done t = th_done s @ (if th_pc s i = At_unlock then [(i, th_time s i)] else [])"
  proof (cases "th_pc s i")
    case At_num
    then show ?thesis using num [OF live(1) At_num] live(1) by (fastforce simp: goto_def)
  next
    case At_tot
    then show ?thesis using tot [OF live(1) At_tot] live(1) by (fastforce simp: goto_def)
  next
    case At_max
    then show ?thesis using max [OF live(1) At_max] live(1) by (fastforce simp: goto_def)
  next
    case At_avg
    then obtain rs where "stat_avg (th_stat s) = Some rs"
      using average_defined [OF live(2) _ assms(5)] by blast
    then show ?thesis using avg [OF live(1) At_avg] At_avg live(1) by (fastforce simp: goto_def)
  next
    case At_unlock
    have "holder (th_mutex s) = Some i"
      using live(2) assms(4) by (simp add: stat_inv_def exclusive_holder)
    then obtain m where m: "release (th_mutex s) i = Some m"
      using assms(2) unfolding mutex_available_def by blast
    show ?thesis
      by (intro exI conjI, rule unlock [where release = release, OF live(1) At_unlock m])
        (simp_all add: goto_def live(1) At_unlock)
  qed (use assms(4) in simp_all)
  then show ?thesis using stat_inv_step [OF assms(1) _ live(2)] by (auto simp: live_state_def)
qed

fun remaining :: "pc \<Rightarrow> nat" where
  "remaining At_num = 5"
| "remaining At_tot = 4"
| "remaining At_max = 3"
| "remaining At_avg = 2"
| "remaining At_unlock = 1"
| "remaining _ = 0"

lemma remaining_after: "in_critical p \<Longrightarrow> remaining (after p) < remaining p"
  "in_critical p \<Longrightarrow> p \<noteq> At_unlock \<Longrightarrow> in_critical (after p)"
  by (cases p; simp)+

lemma critical_finishes:
  assumes "mutex_contract acquire release holder" and "mutex_available acquire release holder"
    and "live_state holder rs0 s" and "in_critical (th_pc s i)"
    and "unat (rs_num rs0) + length (th_done s) + 1 < 2 ^ 32"
  shows "\<exists>t. (add_rpc_stat_record_step acquire release)\<^sup>*\<^sup>* s t \<and> live_state holder rs0 t \<and>
    th_pc t = (th_pc s)(i := Outside) \<and> th_time t = th_time s \<and>
    th_done t = th_done s @ [(i, th_time s i)]"
  using assms(3-5)
proof (induction "remaining (th_pc s i)" arbitrary: s rule: less_induct)
  case less
  obtain t where t: "add_rpc_stat_record_step acquire release s t" "live_state holder rs0 t"
      "th_pc t = (th_pc s)(i := after (th_pc s i))" "th_time t = th_time s"
      "th_done t = th_done s @ (if th_pc s i = At_unlock then [(i, th_time s i)] else [])"
    using critical_next [OF assms(1,2) less.prems] by blast
  show ?case
  proof (cases "th_pc s i = At_unlock")
    case True
    then show ?thesis using t by (intro exI [of _ t]) auto
  next
    case False
    have "remaining (th_pc t i) < remaining (th_pc s i)" "in_critical (th_pc t i)"
      using remaining_after [OF less.prems(2)] False t(3) by simp_all
    from less.hyps [OF this(1) t(2) this(2)] t(3-5) less.prems(3) False
    obtain u where "(add_rpc_stat_record_step acquire release)\<^sup>*\<^sup>* t u" "live_state holder rs0 u"
        "th_pc u = (th_pc s)(i := Outside)" "th_time u = th_time s"
        "th_done u = th_done s @ [(i, th_time s i)]" by auto
    with t(1) show ?thesis by (meson converse_rtranclp_into_rtranclp)
  qed
qed

lemma waiting_finishes:
  assumes "mutex_contract acquire release holder" and "mutex_available acquire release holder"
    and "live_state holder rs0 s" and "th_pc s i = At_lock" and "holder (th_mutex s) = None"
    and "unat (rs_num rs0) + length (th_done s) + 1 < 2 ^ 32"
  shows "\<exists>t. (add_rpc_stat_record_step acquire release)\<^sup>*\<^sup>* s t \<and> th_pc t i = Outside \<and>
    th_done t = th_done s @ [(i, th_time s i)]"
proof -
  obtain m where m: "acquire (th_mutex s) i = Some m"
    using assms(2,5) unfolding mutex_available_def by blast
  let ?s = "goto i At_num (s\<lparr>th_mutex := m\<rparr>)"
  have step: "add_rpc_stat_record_step acquire release s ?s"
    using assms(3,4) m by (intro lock) (simp_all add: live_state_def)
  have "live_state holder rs0 ?s"
    using stat_inv_step [OF assms(1) step] assms(3) by (simp add: live_state_def goto_def)
  from critical_finishes [OF assms(1,2) this, of i] assms(6)
  obtain t where "(add_rpc_stat_record_step acquire release)\<^sup>*\<^sup>* ?s t" "th_pc t i = Outside"
      "th_done t = th_done s @ [(i, th_time s i)]" by (auto simp: goto_def)
  with step show ?thesis by (meson converse_rtranclp_into_rtranclp)
qed



end
