(* ===== verification/Mero_World.thy ===== *)
theory Mero_World
  imports Rpc_Stat
begin

text \<open>
  The state of a process that runs the C layer of Halon, and its boundary to Mero.

  \<^item> Mero, the callers' callbacks and the success of memory allocation are not code of this
    repository. They are the parameter \<open>env\<close>: a call is a value of the type \<open>call\<close>, and \<open>env\<close>
    answers it depending on everything that happened before (the log of earlier calls with their
    answers), so quantifying over \<open>env\<close> covers every behaviour, deterministic or not.
  \<^item> The state \<open>world\<close> holds the global variables of the C files, the heap blocks the C code owns,
    and the log.
  \<^item> Memory is a partial map from addresses to typed objects. An allocation that succeeds returns an
    address that was never used before; dereferencing \<open>NULL\<close> or a freed block, freeing a block twice
    and calling a \<open>NULL\<close> function pointer are stops of their own kind.
  \<^item> \<open>held\<close> reads off a log which Mero resources have been initialised and not yet finalised.
\<close>

section \<open>Mero's data, as far as the C code builds or reads it\<close>

text \<open>\<open>M0_FID_INIT\<close> and \<open>M0_FID_TINIT\<close>; the layout of the type tag is Mero's.\<close>

datatype m0_fid = M0_FID_INIT u64 u64 | M0_FID_TINIT char u64 u64

datatype m0_uint128 = M0_UINT128 u64 u64

text \<open>Vectors that are only passed on are opaque values.\<close>

type_synonym m0_ha_msg_nvec = nat

record m0_ha_msg_failure_vec_rep =
  mfp_pool :: m0_fid
  mfp_vec :: nat

datatype hm_payload =
    M0_HA_MSG_NVEC m0_ha_msg_nvec
  | M0_HA_MSG_FAILURE_VEC_REP m0_ha_msg_failure_vec_rep
  | M0_HA_MSG_KEEPALIVE_REQ m0_uint128
  | M0_HA_MSG_OTHER nat

record m0_ha_msg =
  hm_fid :: m0_fid
  hm_source_process :: m0_fid
  hm_source_service :: m0_fid
  hm_time :: u64
  hm_epoch :: u64
  hm_data :: hm_payload

text \<open>
  Pointers into the middle of an object: the RPC machine of an endpoint, the session of a
  connection, the fop inside a sender-side message. The other constructor is an object of Mero's own.
\<close>

datatype rpc_machine = Machine_of addr | Foreign_machine addr

datatype rpc_session = Session_of addr | Foreign_session addr

datatype fop_ref = Own_fop addr | Msg_fop addr

datatype fop_type = Rpclite_fopt | Rpclite_rep_fopt | Session_terminate_fopt

datatype rpc_opcode = M0_RPC_PING_OPCODE | M0_RPC_PING_REPLY_OPCODE

datatype rpc_flag = M0_RPC_ITEM_TYPE_REQUEST | M0_RPC_ITEM_TYPE_MUTABO | M0_RPC_ITEM_TYPE_REPLY

text \<open>
  The named arguments of \<open>M0_FOP_TYPE_INIT\<close>: the name, the opcode, the flags, and whether the type
  has fom operations of its own (the fops that are executed on arrival have).
\<close>

record fop_type_args =
  ft_name :: string
  ft_opcode :: rpc_opcode
  ft_rpc_flags :: "rpc_flag set"
  ft_fom_ops :: bool

section \<open>Objects\<close>

record rpc_endpoint =
  local_address :: "string option"
  rm_reqh :: "addr option"

record rpc_connection =
  remote_address :: "string option"
  remote_ep :: "addr option"

record rpclite_fop =
  f_count :: u32
  f_fragments :: addr

text \<open>The payload of a fop: none yet, or one of the three types this code sends.\<close>

datatype fop_data =
    No_data
  | Rpclite_data rpclite_fop
  | Rpclite_rep_data u32
  | Terminate_data u64 u64

datatype rpc_item_ops = Default_item_ops | Rpclite_item_ops

datatype rpc_item_prio = M0_RPC_ITEM_PRIO_MID | Other_prio nat

record m0_fop =
  fop_data :: fop_data
  ri_session :: rpc_session
  ri_deadline :: u64
  ri_nr_sent_max :: u64
  ri_resend_interval :: u64
  ri_rmachine :: addr
  ri_ops :: rpc_item_ops
  ri_prio :: rpc_item_prio

record rpclite_senderside_message =
  msg_c :: addr
  msg_ctx :: addr
  msg_reply_callback :: fptr
  msg_fop :: m0_fop
  msg_ctime :: u64

record m0_fom =
  fo_fop :: addr

datatype obj =
    Endpoint_obj rpc_endpoint
  | Reqh_obj
  | Connection_obj rpc_connection
  | Message_obj rpclite_senderside_message
  | Fop_obj m0_fop
  | Bytes_obj "u8 list"
  | Fom_obj m0_fom
  | Clink_obj
  | Ast_obj addr
  | Buffer_obj nat

datatype rpc_status = RPC_OK | RPC_TIMEOUT | RPC_FAILED

record rpc_listen_callbacks =
  connection_callback :: fptr
  disconnected_callback :: fptr
  receive_callback :: fptr

record ha_state_callbacks =
  ha_state_entrypoint :: fptr
  ha_state_link_connected :: fptr
  ha_state_link_reused :: fptr
  ha_state_link_absent :: fptr
  ha_state_link_disconnecting :: fptr
  ha_state_link_disconnected :: fptr
  ha_state_is_delivered :: fptr
  ha_state_is_cancelled :: fptr
  ha_message_callback :: fptr

section \<open>Calls that leave the C layer\<close>

datatype ha_callback_args =
    Entrypoint_args m0_uint128 m0_fid
  | Link_req_args m0_uint128 addr
  | Req_args m0_uint128
  | Link_args addr
  | Tag_args addr u64
  | Msg_args addr m0_ha_msg

text \<open>The functions \<open>ha_state_init\<close> hands to \<open>m0_halon_interface_start\<close>, by their names in \<^verbatim>\<open>hastate.c\<close>.\<close>

datatype hi_callback =
    Entrypoint_request_cb
  | Msg_received_cb
  | Msg_is_delivered_cb
  | Msg_is_not_delivered_cb
  | Link_connected_cb
  | Link_reused_cb
  | Link_absent_cb
  | Link_is_disconnecting_cb
  | Link_disconnected_cb

text \<open>What is allocated: a struct, whose size is Mero's affair, or a number of bytes.\<close>

datatype alloc_size =
    Sizeof_endpoint
  | Sizeof_reqh
  | Sizeof_connection
  | Sizeof_message
  | Sizeof_fom
  | Bytes u64

text \<open>Memory, locks, threads, time.\<close>

datatype sys_call =
    Malloc alloc_size
  | Free addr
  | M0_mutex_init nat
  | M0_mutex_fini nat
  | M0_mutex_lock nat
  | M0_mutex_unlock nat
  | Getenv string
  | M0_SET0 addr
  | M0_thread_init addr fptr
  | M0_thread_join addr
  | M0_thread_fini addr
  | Hs_action fptr
  | Hs_free_fun_ptr fptr
  | M0_time_now
  | M0_time_sub u64 u64
  | M0_time c_int c_int
  | M0_time_from_now c_int c_int
  | Print string "u64 list"
  | Scanf
  | Sleep c_int
  | Clock_tv_sec
  | Clock_tv_nsec

text \<open>Domains and fop types (set up once per process).\<close>

datatype dom_call =
    M0_xc_rpclite_fop_init
  | M0_xc_rpclite_fop_fini
  | M0_fop_type_init fop_type fop_type_args
  | M0_fop_type_fini fop_type
  | M0_net_domain_init
  | M0_net_domain_fini
  | M0_ha_domain_init u64
  | M0_ha_domain_fini
  | M0_ha_domain_get_write
  | M0_ha_domain_put_write u64

text \<open>Endpoints.\<close>

datatype ep_call =
    M0_rpc_bufs_nr u32
  | M0_rpc_net_buffer_pool_setup addr u32 u32
  | M0_rpc_net_buffer_pool_cleanup addr
  | M0_reqh_init addr m0_fid
  | M0_reqh_start addr
  | M0_reqh_services_terminate addr
  | M0_reqh_fini addr
  | M0_rpc_machine_init addr string addr u32 u32
  | M0_rpc_machine_fini addr

text \<open>Connections and sessions. A deadline is Mero's constant for none, or an absolute time.\<close>

datatype deadline = M0_TIME_NEVER | At u64

datatype conn_call =
    M0_net_end_point_create addr rpc_machine string
  | M0_net_end_point_put addr
  | M0_rpc_conn_create addr addr rpc_machine u32 u64
  | M0_rpc_conn_destroy addr deadline
  | M0_rpc_conn_fini addr
  | M0_rpc_session_create addr u64
  | M0_rpc_session_destroy addr deadline
  | M0_rpc_session_fini addr
  | M0_rpc_client_session_destroy addr deadline
  | M0_rpc_client_conn_destroy addr deadline
  | M0_rpc_client_machine_fini addr
  | M0_rpc_client_pool_cleanup addr
  | Read_session_id addr
  | M0_rpc_session_get_max_item_size rpc_session

text \<open>Fops on the sender side.\<close>

datatype fop_call =
    M0_fop_alloc_at rpc_session fop_type
  | M0_fop_payload_size fop_ref
  | M0_fop_session_machine rpc_session
  | M0_fop_init addr fop_type
  | M0_fop_data_alloc addr
  | M0_fop_put fop_ref
  | M0_fop_put_lock fop_ref
  | M0_fop_fini fop_ref
  | M0_rpc_post fop_ref
  | M0_rpc_post_sync fop_ref rpc_session u64
  | Read_ri_error fop_ref
  | Read_ri_reply fop_ref
  | User_reply_callback fptr addr addr rpc_status

text \<open>Fops on the receiver side.\<close>

datatype fom_call =
    User_receive_callback fptr addr addr
  | M0_fop_opcode addr
  | M0_fop_reply_alloc addr fop_type
  | M0_fop_to_rpc_item addr
  | M0_rpc_reply_post addr addr
  | M0_fom_init addr addr addr
  | M0_fom_phase_set_finish addr
  | M0_fom_fini addr
  | M0_clink_del addr
  | M0_clink_fini addr
  | Read_sm_state addr

text \<open>The Halon interface of Mero, and the configuration validator.\<close>

datatype hi_call =
    M0_halon_interface_init addr
  | M0_halon_interface_fini addr
  | M0_halon_interface_start addr string m0_fid m0_fid m0_fid "hi_callback list"
  | M0_halon_interface_stop addr
  | M0_halon_interface_send addr addr m0_ha_msg
  | M0_halon_interface_disconnect addr addr
  | M0_halon_interface_delivered addr addr m0_ha_msg
  | M0_halon_interface_entrypoint_reply addr m0_uint128 c_int u32 "m0_fid list" "string list" u32 m0_fid string
  | M0_halon_interface_rpc_machine addr
  | M0_halon_interface_spiel addr
  | User_ha_callback fptr ha_callback_args
  | M0_conf_validation_error addr addr u64

datatype call =
    Sys sys_call
  | Dom dom_call
  | Ep ep_call
  | Conn conn_call
  | Fop fop_call
  | Fom fom_call
  | Hi hi_call

text \<open>\<open>ROut\<close> answers a call that returns a code and also writes a pointer for its caller.\<close>

datatype answer = RVoid | RInt c_int | RU64 u64 | RAddr addr | ROut c_int addr

type_synonym log = "(call \<times> answer) list"

record env =
  ans_int :: "log \<Rightarrow> call \<Rightarrow> c_int"
  ans_u64 :: "log \<Rightarrow> call \<Rightarrow> u64"
  ans_addr :: "log \<Rightarrow> call \<Rightarrow> addr"
  ans_alloc :: "log \<Rightarrow> alloc_size \<Rightarrow> bool"
  ans_fop :: "log \<Rightarrow> call \<Rightarrow> m0_fop"

section \<open>The process state\<close>

record world =
  w_log :: log
  w_heap :: "addr \<Rightarrow> obj option"
  w_next :: addr
  client_max_epoch :: u64
  rpc_stat :: "rpc_statistic list"
  rpclite_listen_cbs :: rpc_listen_callbacks
  m0init_hi :: addr
  ha_state_cbs :: ha_state_callbacks

definition no_listen_callbacks :: rpc_listen_callbacks where
  "no_listen_callbacks =
     \<lparr>connection_callback = NULL, disconnected_callback = NULL, receive_callback = NULL\<rparr>"

text \<open>A fresh process: all static storage zero.\<close>

definition initial_world :: world where
  "initial_world =
     \<lparr>w_log = [], w_heap = Map.empty, w_next = 1, client_max_epoch = 0, rpc_stat = zero_rpc_stat,
      rpclite_listen_cbs = no_listen_callbacks, m0init_hi = NULL,
      ha_state_cbs = \<lparr>ha_state_entrypoint = NULL, ha_state_link_connected = NULL,
        ha_state_link_reused = NULL, ha_state_link_absent = NULL,
        ha_state_link_disconnecting = NULL, ha_state_link_disconnected = NULL,
        ha_state_is_delivered = NULL, ha_state_is_cancelled = NULL,
        ha_message_callback = NULL\<rparr>\<rparr>"

type_synonym 'a cprog = "(world, 'a) prog"

definition log_call :: "call \<Rightarrow> answer \<Rightarrow> world \<Rightarrow> world" where
  "log_call c a w = w\<lparr>w_log := w_log w @ [(c, a)]\<rparr>"

definition ext_void :: "call \<Rightarrow> unit cprog" where
  "ext_void c = (\<lambda>w. Done () (log_call c RVoid w))"

definition ext_int :: "env \<Rightarrow> call \<Rightarrow> c_int cprog" where
  "ext_int env c = (\<lambda>w. let r = ans_int env (w_log w) c in Done r (log_call c (RInt r) w))"

definition ext_u64 :: "env \<Rightarrow> call \<Rightarrow> u64 cprog" where
  "ext_u64 env c = (\<lambda>w. let r = ans_u64 env (w_log w) c in Done r (log_call c (RU64 r) w))"

definition ext_addr :: "env \<Rightarrow> call \<Rightarrow> addr cprog" where
  "ext_addr env c = (\<lambda>w. let r = ans_addr env (w_log w) c in Done r (log_call c (RAddr r) w))"

definition ext_out :: "env \<Rightarrow> call \<Rightarrow> (c_int \<times> addr) cprog" where
  "ext_out env c = (\<lambda>w.
     let r = ans_int env (w_log w) c; p = ans_addr env (w_log w) c
     in Done (r, p) (log_call c (ROut r p) w))"

text \<open>Calling through a function pointer.\<close>

definition call_fptr :: "fptr \<Rightarrow> 'a cprog \<Rightarrow> 'a cprog" where
  "call_fptr f body = (if f = NULL then cstop (Undefined Null_call) else body)"

section \<open>Memory\<close>

definition mem_put :: "addr \<Rightarrow> obj \<Rightarrow> world \<Rightarrow> world" where
  "mem_put p ob w = w\<lparr>w_heap := (w_heap w)(p \<mapsto> ob)\<rparr>"

definition mem_del :: "addr \<Rightarrow> world \<Rightarrow> world" where
  "mem_del p w = w\<lparr>w_heap := (w_heap w)(p := None)\<rparr>"

definition alloc :: "env \<Rightarrow> alloc_size \<Rightarrow> obj \<Rightarrow> addr cprog" where
  "alloc env n ob = (\<lambda>w.
     if ans_alloc env (w_log w) n
     then Done (w_next w)
            (log_call (Sys (Malloc n)) (RAddr (w_next w))
              (mem_put (w_next w) ob (w\<lparr>w_next := Suc (w_next w)\<rparr>)))
     else Done NULL (log_call (Sys (Malloc n)) (RAddr NULL) w))"

definition free :: "addr \<Rightarrow> unit cprog" where
  "free p = (\<lambda>w.
     if p = NULL then Done () w
     else case w_heap w p of
            None \<Rightarrow> Stop (Undefined Invalid_free) w
          | Some _ \<Rightarrow> Done () (log_call (Sys (Free p)) RVoid (mem_del p w)))"

definition load :: "addr \<Rightarrow> obj cprog" where
  "load p = (\<lambda>w.
     if p = NULL then Stop (Undefined Null_dereference) w
     else case w_heap w p of
            None \<Rightarrow> Stop (Undefined Dangling_pointer) w
          | Some ob \<Rightarrow> Done ob w)"

definition store :: "addr \<Rightarrow> obj \<Rightarrow> unit cprog" where
  "store p ob = (\<lambda>w.
     if p = NULL then Stop (Undefined Null_dereference) w
     else case w_heap w p of
            None \<Rightarrow> Stop (Undefined Dangling_pointer) w
          | Some _ \<Rightarrow> Done () (mem_put p ob w))"

section \<open>How the primitives run\<close>

lemma ext_void_run [world_simps]: "ext_void c w = Done () (log_call c RVoid w)"
  by (simp add: ext_void_def)

lemma ext_int_run [world_simps]:
  "ext_int env c w =
     Done (ans_int env (w_log w) c) (log_call c (RInt (ans_int env (w_log w) c)) w)"
  by (simp add: ext_int_def Let_def)

lemma ext_u64_run [world_simps]:
  "ext_u64 env c w =
     Done (ans_u64 env (w_log w) c) (log_call c (RU64 (ans_u64 env (w_log w) c)) w)"
  by (simp add: ext_u64_def Let_def)

lemma ext_addr_run [world_simps]:
  "ext_addr env c w =
     Done (ans_addr env (w_log w) c) (log_call c (RAddr (ans_addr env (w_log w) c)) w)"
  by (simp add: ext_addr_def Let_def)

lemma ext_out_run [world_simps]:
  "ext_out env c w =
     Done (ans_int env (w_log w) c, ans_addr env (w_log w) c)
       (log_call c (ROut (ans_int env (w_log w) c) (ans_addr env (w_log w) c)) w)"
  by (simp add: ext_out_def Let_def)

lemma call_fptr_run [world_simps]:
  "call_fptr f body w = (if f = NULL then Stop (Undefined Null_call) w else body w)"
  by (simp add: call_fptr_def cstop_def)

lemma log_call_sel [simp]:
  "w_log (log_call c a w) = w_log w @ [(c, a)]"
  "w_heap (log_call c a w) = w_heap w"
  "w_next (log_call c a w) = w_next w"
  "client_max_epoch (log_call c a w) = client_max_epoch w"
  "rpc_stat (log_call c a w) = rpc_stat w"
  "rpclite_listen_cbs (log_call c a w) = rpclite_listen_cbs w"
  "m0init_hi (log_call c a w) = m0init_hi w"
  "ha_state_cbs (log_call c a w) = ha_state_cbs w"
  by (simp_all add: log_call_def)

lemma mem_put_sel [simp]:
  "w_log (mem_put p ob w) = w_log w"
  "w_heap (mem_put p ob w) = (w_heap w)(p \<mapsto> ob)"
  "w_next (mem_put p ob w) = w_next w"
  "client_max_epoch (mem_put p ob w) = client_max_epoch w"
  "rpc_stat (mem_put p ob w) = rpc_stat w"
  "rpclite_listen_cbs (mem_put p ob w) = rpclite_listen_cbs w"
  "m0init_hi (mem_put p ob w) = m0init_hi w"
  "ha_state_cbs (mem_put p ob w) = ha_state_cbs w"
  by (simp_all add: mem_put_def)

lemma mem_del_sel [simp]:
  "w_log (mem_del p w) = w_log w"
  "w_heap (mem_del p w) = (w_heap w)(p := None)"
  "w_next (mem_del p w) = w_next w"
  "client_max_epoch (mem_del p w) = client_max_epoch w"
  "rpc_stat (mem_del p w) = rpc_stat w"
  "rpclite_listen_cbs (mem_del p w) = rpclite_listen_cbs w"
  "m0init_hi (mem_del p w) = m0init_hi w"
  "ha_state_cbs (mem_del p w) = ha_state_cbs w"
  by (simp_all add: mem_del_def)

lemma alloc_run [world_simps]:
  "alloc env n ob w =
    (if ans_alloc env (w_log w) n
     then Done (w_next w)
            (log_call (Sys (Malloc n)) (RAddr (w_next w))
              (mem_put (w_next w) ob (w\<lparr>w_next := Suc (w_next w)\<rparr>)))
     else Done NULL (log_call (Sys (Malloc n)) (RAddr NULL) w))"
  by (simp add: alloc_def)

lemma load_live [world_simps]:
  "p \<noteq> NULL \<Longrightarrow> w_heap w p = Some ob \<Longrightarrow> load p w = Done ob w"
  by (simp add: load_def)

lemma load_NULL [world_simps]: "load NULL w = Stop (Undefined Null_dereference) w"
  by (simp add: load_def)

lemma store_live [world_simps]:
  "p \<noteq> NULL \<Longrightarrow> w_heap w p = Some ob \<Longrightarrow> store p ob' w = Done () (mem_put p ob' w)"
  by (simp add: store_def)

lemma store_NULL [world_simps]: "store NULL ob w = Stop (Undefined Null_dereference) w"
  by (simp add: store_def)

lemma free_live [world_simps]:
  "p \<noteq> NULL \<Longrightarrow> w_heap w p = Some ob \<Longrightarrow>
   free p w = Done () (log_call (Sys (Free p)) RVoid (mem_del p w))"
  by (simp add: free_def)

lemma free_NULL [world_simps]: "free NULL w = Done () w"
  by (simp add: free_def)

text \<open>The same primitives as preconditions.\<close>

lemma wp_ext_void [wp_rules]: "Q () (log_call c RVoid w) \<Longrightarrow> wp (ext_void c) Q E w"
  by (simp add: wp_def ext_void_run)

lemma wp_ext_int [wp_rules]:
  "(\<And>r. ans_int env (w_log w) c = r \<Longrightarrow> Q r (log_call c (RInt r) w)) \<Longrightarrow> wp (ext_int env c) Q E w"
  by (simp add: wp_def ext_int_run)

lemma wp_ext_u64 [wp_rules]:
  "(\<And>r. ans_u64 env (w_log w) c = r \<Longrightarrow> Q r (log_call c (RU64 r) w)) \<Longrightarrow> wp (ext_u64 env c) Q E w"
  by (simp add: wp_def ext_u64_run)

lemma wp_ext_addr [wp_rules]:
  "(\<And>r. ans_addr env (w_log w) c = r \<Longrightarrow> Q r (log_call c (RAddr r) w)) \<Longrightarrow> wp (ext_addr env c) Q E w"
  by (simp add: wp_def ext_addr_run)

lemma wp_ext_out [wp_rules]:
  "(\<And>r p. ans_int env (w_log w) c = r \<Longrightarrow> ans_addr env (w_log w) c = p \<Longrightarrow>
     Q (r, p) (log_call c (ROut r p) w)) \<Longrightarrow> wp (ext_out env c) Q E w"
  by (simp add: wp_def ext_out_run)

lemma wp_call_fptr [wp_rules]:
  "(f = NULL \<Longrightarrow> E (Undefined Null_call) w) \<Longrightarrow> (f \<noteq> NULL \<Longrightarrow> wp body Q E w) \<Longrightarrow>
   wp (call_fptr f body) Q E w"
  by (simp add: wp_def call_fptr_run)

lemma wp_alloc [wp_rules]:
  "(ans_alloc env (w_log w) n \<Longrightarrow>
      Q (w_next w) (log_call (Sys (Malloc n)) (RAddr (w_next w))
        (mem_put (w_next w) ob (w\<lparr>w_next := Suc (w_next w)\<rparr>)))) \<Longrightarrow>
   (\<not> ans_alloc env (w_log w) n \<Longrightarrow> Q NULL (log_call (Sys (Malloc n)) (RAddr NULL) w)) \<Longrightarrow>
   wp (alloc env n ob) Q E w"
  by (simp add: wp_def alloc_run)

lemma wp_load [wp_rules]:
  "(\<And>ob. p \<noteq> NULL \<Longrightarrow> w_heap w p = Some ob \<Longrightarrow> Q ob w) \<Longrightarrow>
   (p = NULL \<Longrightarrow> E (Undefined Null_dereference) w) \<Longrightarrow>
   (p \<noteq> NULL \<Longrightarrow> w_heap w p = None \<Longrightarrow> E (Undefined Dangling_pointer) w) \<Longrightarrow>
   wp (load p) Q E w"
  by (auto simp: wp_def load_def split: option.splits)

lemma wp_store [wp_rules]:
  "(\<And>ob'. p \<noteq> NULL \<Longrightarrow> w_heap w p = Some ob' \<Longrightarrow> Q () (mem_put p ob w)) \<Longrightarrow>
   (p = NULL \<Longrightarrow> E (Undefined Null_dereference) w) \<Longrightarrow>
   (p \<noteq> NULL \<Longrightarrow> w_heap w p = None \<Longrightarrow> E (Undefined Dangling_pointer) w) \<Longrightarrow>
   wp (store p ob) Q E w"
  by (auto simp: wp_def store_def split: option.splits)

lemma wp_free [wp_rules]:
  "(\<And>ob. p \<noteq> NULL \<Longrightarrow> w_heap w p = Some ob \<Longrightarrow>
      Q () (log_call (Sys (Free p)) RVoid (mem_del p w))) \<Longrightarrow>
   (p = NULL \<Longrightarrow> Q () w) \<Longrightarrow>
   (p \<noteq> NULL \<Longrightarrow> w_heap w p = None \<Longrightarrow> E (Undefined Invalid_free) w) \<Longrightarrow>
   wp (free p) Q E w"
  by (auto simp: wp_def free_def split: option.splits)

section \<open>Well-formed worlds\<close>

definition wf_world :: "world \<Rightarrow> bool" where
  "wf_world w \<longleftrightarrow> 0 < w_next w \<and> (\<forall>p ob. w_heap w p = Some ob \<longrightarrow> 0 < p \<and> p < w_next w)"

lemma wf_initial_world: "wf_world initial_world"
  by (simp add: wf_world_def initial_world_def)

lemma wf_world_next: "wf_world w \<Longrightarrow> 0 < w_next w"
  by (simp add: wf_world_def)

lemma wf_world_fresh: "wf_world w \<Longrightarrow> w_heap w (w_next w) = None"
  unfolding wf_world_def by (cases "w_heap w (w_next w)") auto

lemma wf_world_live: "wf_world w \<Longrightarrow> w_heap w p = Some ob \<Longrightarrow> 0 < p \<and> p < w_next w"
  by (simp add: wf_world_def)

lemma wf_log_call [simp]: "wf_world (log_call c a w) = wf_world w"
  by (simp add: wf_world_def)

lemma wf_mem_del: "wf_world w \<Longrightarrow> wf_world (mem_del p w)"
  by (simp add: wf_world_def)

lemma wf_mem_put_live: "wf_world w \<Longrightarrow> w_heap w p = Some ob' \<Longrightarrow> wf_world (mem_put p ob w)"
  by (simp add: wf_world_def)

lemma wf_mem_put_fresh:
  "wf_world w \<Longrightarrow> wf_world (mem_put (w_next w) ob (w\<lparr>w_next := Suc (w_next w)\<rparr>))"
  by (auto simp: wf_world_def less_Suc_eq)

text \<open>
  What the code may rely on from memory, as an interface: reading what was written, not disturbing
  other blocks, and fresh addresses. The lemmas are those the components use.
\<close>

locale memory =
  fixes wf :: "'w \<Rightarrow> bool" and get :: "'w \<Rightarrow> addr \<Rightarrow> 'o option"
    and put :: "addr \<Rightarrow> 'o \<Rightarrow> 'w \<Rightarrow> 'w" and del :: "addr \<Rightarrow> 'w \<Rightarrow> 'w" and fresh :: "'w \<Rightarrow> addr"
  assumes get_put: "get (put p ob w) q = (if q = p then Some ob else get w q)"
    and get_del: "get (del p w) q = (if q = p then None else get w q)"
    and fresh_free: "wf w \<Longrightarrow> get w (fresh w) = None"
    and fresh_not_null: "wf w \<Longrightarrow> fresh w \<noteq> NULL"
begin

lemma allocate_then_release: "wf w \<Longrightarrow> get (del (fresh w) (put (fresh w) ob w)) = get w"
  by (rule ext) (simp add: get_put get_del fresh_free)

lemma update_then_release: "get (del p (put p ob w)) = get (del p w)"
  by (rule ext) (simp add: get_put get_del)

lemma release_order: "get (del p (del q w)) = get (del q (del p w))"
  by (rule ext) (simp add: get_del)

end

interpretation heap: memory wf_world w_heap mem_put mem_del w_next
  by unfold_locales (auto simp: wf_world_fresh wf_world_next)

section \<open>Resources held\<close>

datatype resource =
    Stat_mutex nat
  | Rpclite_xcode
  | Fop_type fop_type
  | Net_domain
  | Ha_domain
  | Ha_write_lock
  | Buffer_pool addr
  | Reqh addr
  | Started_reqh addr
  | Rpc_machine addr
  | Net_end_point addr
  | Rpc_conn addr
  | Rpc_session addr
  | Halon_interface addr
  | Halon_started addr
  | Thread addr
  | Fop_reference fop_ref
  | Fom_init addr

text \<open>
  Which calls initialise a Mero object and which finalise it. A call that reports an error code
  initialises nothing.
\<close>

fun succeeded :: "answer \<Rightarrow> bool" where
  "succeeded (RInt r) = (r = 0)"
| "succeeded (ROut r p) = (r = 0)"
| "succeeded _ = True"

fun out_pointer :: "answer \<Rightarrow> addr" where
  "out_pointer (ROut r p) = p"
| "out_pointer (RAddr p) = p"
| "out_pointer _ = NULL"

fun sys_acquires :: "sys_call \<Rightarrow> resource option" where
  "sys_acquires (M0_mutex_init i) = Some (Stat_mutex i)"
| "sys_acquires (M0_thread_init t f) = Some (Thread t)"
| "sys_acquires _ = None"

fun sys_releases :: "sys_call \<Rightarrow> resource option" where
  "sys_releases (M0_mutex_fini i) = Some (Stat_mutex i)"
| "sys_releases (M0_thread_fini t) = Some (Thread t)"
| "sys_releases _ = None"

fun dom_acquires :: "dom_call \<Rightarrow> resource option" where
  "dom_acquires M0_xc_rpclite_fop_init = Some Rpclite_xcode"
| "dom_acquires (M0_fop_type_init t a) = Some (Fop_type t)"
| "dom_acquires M0_net_domain_init = Some Net_domain"
| "dom_acquires (M0_ha_domain_init e) = Some Ha_domain"
| "dom_acquires M0_ha_domain_get_write = Some Ha_write_lock"
| "dom_acquires _ = None"

fun dom_releases :: "dom_call \<Rightarrow> resource option" where
  "dom_releases M0_xc_rpclite_fop_fini = Some Rpclite_xcode"
| "dom_releases (M0_fop_type_fini t) = Some (Fop_type t)"
| "dom_releases M0_net_domain_fini = Some Net_domain"
| "dom_releases M0_ha_domain_fini = Some Ha_domain"
| "dom_releases (M0_ha_domain_put_write e) = Some Ha_write_lock"
| "dom_releases _ = None"

fun ep_acquires :: "ep_call \<Rightarrow> resource option" where
  "ep_acquires (M0_rpc_net_buffer_pool_setup p n t) = Some (Buffer_pool p)"
| "ep_acquires (M0_reqh_init p f) = Some (Reqh p)"
| "ep_acquires (M0_reqh_start p) = Some (Started_reqh p)"
| "ep_acquires (M0_rpc_machine_init p a q m n) = Some (Rpc_machine p)"
| "ep_acquires _ = None"

fun ep_releases :: "ep_call \<Rightarrow> resource option" where
  "ep_releases (M0_rpc_net_buffer_pool_cleanup p) = Some (Buffer_pool p)"
| "ep_releases (M0_reqh_services_terminate p) = Some (Started_reqh p)"
| "ep_releases (M0_reqh_fini p) = Some (Reqh p)"
| "ep_releases (M0_rpc_machine_fini p) = Some (Rpc_machine p)"
| "ep_releases _ = None"

fun conn_acquires :: "conn_call \<Rightarrow> answer \<Rightarrow> resource option" where
  "conn_acquires (M0_net_end_point_create p m a) ans = Some (Net_end_point (out_pointer ans))"
| "conn_acquires (M0_rpc_conn_create p e m n d) ans = Some (Rpc_conn p)"
| "conn_acquires (M0_rpc_session_create p d) ans = Some (Rpc_session p)"
| "conn_acquires _ ans = None"

fun conn_releases :: "conn_call \<Rightarrow> resource option" where
  "conn_releases (M0_net_end_point_put p) = Some (Net_end_point p)"
| "conn_releases (M0_rpc_conn_destroy p t) = Some (Rpc_conn p)"
| "conn_releases (M0_rpc_conn_fini p) = Some (Rpc_conn p)"
| "conn_releases (M0_rpc_session_destroy p t) = Some (Rpc_session p)"
| "conn_releases (M0_rpc_session_fini p) = Some (Rpc_session p)"
| "conn_releases _ = None"

fun fop_acquires :: "fop_call \<Rightarrow> answer \<Rightarrow> resource option" where
  "fop_acquires (M0_fop_alloc_at s t) ans =
     (if out_pointer ans = NULL then None else Some (Fop_reference (Own_fop (out_pointer ans))))"
| "fop_acquires (M0_fop_init p t) ans = Some (Fop_reference (Msg_fop p))"
| "fop_acquires _ ans = None"

fun fop_releases :: "fop_call \<Rightarrow> resource option" where
  "fop_releases (M0_fop_put f) = Some (Fop_reference f)"
| "fop_releases (M0_fop_put_lock f) = Some (Fop_reference f)"
| "fop_releases _ = None"

fun fom_acquires :: "fom_call \<Rightarrow> resource option" where
  "fom_acquires (M0_fom_init p f r) = Some (Fom_init p)"
| "fom_acquires _ = None"

fun fom_releases :: "fom_call \<Rightarrow> resource option" where
  "fom_releases (M0_fom_fini p) = Some (Fom_init p)"
| "fom_releases _ = None"

fun hi_acquires :: "hi_call \<Rightarrow> answer \<Rightarrow> resource option" where
  "hi_acquires (M0_halon_interface_init p) ans = Some (Halon_interface (out_pointer ans))"
| "hi_acquires (M0_halon_interface_start p a f g h cbs) ans = Some (Halon_started p)"
| "hi_acquires _ ans = None"

fun hi_releases :: "hi_call \<Rightarrow> resource option" where
  "hi_releases (M0_halon_interface_fini p) = Some (Halon_interface p)"
| "hi_releases (M0_halon_interface_stop p) = Some (Halon_started p)"
| "hi_releases _ = None"

fun acquires :: "call \<Rightarrow> answer \<Rightarrow> resource option" where
  "acquires (Sys c) ans = sys_acquires c"
| "acquires (Dom c) ans = dom_acquires c"
| "acquires (Ep c) ans = ep_acquires c"
| "acquires (Conn c) ans = conn_acquires c ans"
| "acquires (Hi c) ans = hi_acquires c ans"
| "acquires (Fop c) ans = fop_acquires c ans"
| "acquires (Fom c) ans = fom_acquires c"

fun acquired :: "call \<times> answer \<Rightarrow> resource option" where
  "acquired (c, ans) = (if succeeded ans then acquires c ans else None)"

fun released :: "call \<times> answer \<Rightarrow> resource option" where
  "released (Sys c, ans) = sys_releases c"
| "released (Dom c, ans) = dom_releases c"
| "released (Ep c, ans) = ep_releases c"
| "released (Conn c, ans) = conn_releases c"
| "released (Hi c, ans) = hi_releases c"
| "released (Fop c, ans) = fop_releases c"
| "released (Fom c, ans) = fom_releases c"

text \<open>
  How often a resource has been acquired more than released; a negative number means it was released
  without being held.
\<close>

definition held :: "log \<Rightarrow> resource \<Rightarrow> int" where
  "held l r = int (count_list (map acquired l) (Some r)) - int (count_list (map released l) (Some r))"

lemma held_Nil [held_simps]: "held [] r = 0"
  by (simp add: held_def)

lemma held_append [held_simps]: "held (l @ m) r = held l r + held m r"
  by (simp add: held_def)

lemma held_Cons [held_simps]:
  "held (e # l) r = (if acquired e = Some r then 1 else 0) - (if released e = Some r then 1 else 0) + held l r"
  by (simp add: held_def)

end
