(* ===== verification/Rpclite_Init.thy ===== *)
theory Rpclite_Init
  imports Mero_World
begin

text \<open>
  Initialisation and finalisation of rpclite (\<^verbatim>\<open>rpclite.c\<close>, \<^verbatim>\<open>rpclite_fop.c\<close>) and the functions that
  read and write its statistics.
\<close>

section \<open>Statistics of the process\<close>

definition rpc_stat_init :: "unit cprog" where
  "rpc_stat_init = cseq (map (\<lambda>i. ext_void (Sys (M0_mutex_init i))) [0..<stat_index RPC_STAT_NR])"

definition rpc_stat_fini :: "unit cprog" where
  "rpc_stat_fini = cseq (map (\<lambda>i. ext_void (Sys (M0_mutex_fini i))) [0..<stat_index RPC_STAT_NR])"

text \<open>\<open>rpc_stat[type]\<close>, with the index checked against the size of the array.\<close>

definition rpc_stat_at :: "rpc_stat_type \<Rightarrow> rpc_statistic cprog" where
  "rpc_stat_at type =
     cbind (cgets rpc_stat) (\<lambda>st.
       if stat_index type < length st then cret (st ! stat_index type)
       else cstop (Undefined Out_of_bounds))"

definition get_max_rpc_time :: "rpc_stat_type \<Rightarrow> u64 cprog" where
  "get_max_rpc_time type = cbind (rpc_stat_at type) (\<lambda>rs. cret (rs_max_time rs))"

definition get_avg_rpc_time :: "rpc_stat_type \<Rightarrow> u64 cprog" where
  "get_avg_rpc_time type = cbind (rpc_stat_at type) (\<lambda>rs. cret (rs_avg_time rs))"

definition get_tot_rpc_num :: "rpc_stat_type \<Rightarrow> u32 cprog" where
  "get_tot_rpc_num type = cbind (rpc_stat_at type) (\<lambda>rs. cret (rs_num rs))"

definition set_rpc_stat :: "rpc_stat_type \<Rightarrow> rpc_statistic \<Rightarrow> unit cprog" where
  "set_rpc_stat type rs =
     cmodify (\<lambda>w. w\<lparr>rpc_stat := (rpc_stat w)[stat_index type := rs]\<rparr>)"

definition add_rpc_stat_record :: "rpc_stat_type \<Rightarrow> u64 \<Rightarrow> unit cprog" where
  "add_rpc_stat_record type time =
     cthen (rpc_stat_at type)
    (cthen (ext_void (Sys (M0_mutex_lock (stat_index type))))
    (cbind (rpc_stat_at type) (\<lambda>rs0.
     let rs = stat_max time (stat_tot time (stat_num rs0)) in
     cthen (set_rpc_stat type rs)
       (case stat_avg rs of
          None \<Rightarrow> cstop (Undefined Division_by_zero)
        | Some rs' \<Rightarrow>
            cthen (set_rpc_stat type rs')
              (ext_void (Sys (M0_mutex_unlock (stat_index type))))))))"

section \<open>Fop types\<close>

definition rpclite_fop_args :: fop_type_args where
  "rpclite_fop_args =
     \<lparr>ft_name = ''Ping fop'', ft_opcode = M0_RPC_PING_OPCODE,
      ft_rpc_flags = {M0_RPC_ITEM_TYPE_REQUEST, M0_RPC_ITEM_TYPE_MUTABO}, ft_fom_ops = True\<rparr>"

definition rpclite_fop_rep_args :: fop_type_args where
  "rpclite_fop_rep_args =
     \<lparr>ft_name = ''Ping fop reply'', ft_opcode = M0_RPC_PING_REPLY_OPCODE,
      ft_rpc_flags = {M0_RPC_ITEM_TYPE_REPLY}, ft_fom_ops = False\<rparr>"

definition rpclite_fop_init :: "c_int cprog" where
  "rpclite_fop_init =
     cthen (cseq
       [ext_void (Dom M0_xc_rpclite_fop_init),
        ext_void (Dom (M0_fop_type_init Rpclite_fopt rpclite_fop_args)),
        ext_void (Dom (M0_fop_type_init Rpclite_rep_fopt rpclite_fop_rep_args))])
     (cret 0)"

definition rpclite_fop_fini :: "unit cprog" where
  "rpclite_fop_fini = cseq
     [ext_void (Dom (M0_fop_type_fini Rpclite_rep_fopt)),
      ext_void (Dom (M0_fop_type_fini Rpclite_fopt)),
      ext_void (Dom M0_xc_rpclite_fop_fini)]"

section \<open>The library\<close>

text \<open>
  The two labels at the end of \<open>rpc_init\<close> are reached by \<open>goto\<close> and fall through: \<open>fop_fini\<close> also
  runs \<open>rpc_stat_fini\<close>.
\<close>

definition rpc_init :: "env \<Rightarrow> c_int cprog" where
  "rpc_init env =
     cthen (cmodify (\<lambda>w. w\<lparr>client_max_epoch := 0\<rparr>))
    (cthen rpc_stat_init
    (cbind rpclite_fop_init (\<lambda>rc.
     if rc \<noteq> 0 then cthen rpc_stat_fini (cret rc)
     else cbind (ext_int env (Dom M0_net_domain_init)) (\<lambda>rc.
       if rc \<noteq> 0 then cthen (cseq [rpclite_fop_fini, rpc_stat_fini]) (cret rc)
       else cthen (ext_void (Dom (M0_ha_domain_init 0))) (cret 0)))))"

definition rpc_fini :: "unit cprog" where
  "rpc_fini = cseq
     [ext_void (Dom M0_ha_domain_fini),
      ext_void (Dom M0_net_domain_fini),
      rpclite_fop_fini,
      rpc_stat_fini]"

section \<open>How the functions run\<close>

text \<open>Appending to the log and changing nothing else.\<close>

definition logged :: "log \<Rightarrow> world \<Rightarrow> world" where
  "logged l w = w\<lparr>w_log := w_log w @ l\<rparr>"

lemma logged_sel [simp]:
  "w_log (logged l w) = w_log w @ l" "w_heap (logged l w) = w_heap w"
  "w_next (logged l w) = w_next w" "client_max_epoch (logged l w) = client_max_epoch w"
  "rpc_stat (logged l w) = rpc_stat w" "wf_world (logged l w) = wf_world w"
  "rpclite_listen_cbs (logged l w) = rpclite_listen_cbs w"
  "m0init_hi (logged l w) = m0init_hi w" "ha_state_cbs (logged l w) = ha_state_cbs w"
  by (simp_all add: logged_def wf_world_def)

text \<open>The calls made between two states of a run.\<close>

definition new_log :: "world \<Rightarrow> world \<Rightarrow> log" where
  "new_log w w' = drop (length (w_log w)) (w_log w')"

lemma new_log_logged [simp]: "new_log w (logged l w) = l"
  by (simp add: new_log_def logged_def)

lemma log_call_logged: "log_call c a w = logged [(c, a)] w"
  by (simp add: log_call_def logged_def)

lemma logged_logged [simp]: "logged l (logged k w) = logged (k @ l) w"
  by (simp add: logged_def)

definition stat_init_log :: log where
  "stat_init_log = [(Sys (M0_mutex_init 0), RVoid), (Sys (M0_mutex_init 1), RVoid)]"

definition stat_fini_log :: log where
  "stat_fini_log = [(Sys (M0_mutex_fini 0), RVoid), (Sys (M0_mutex_fini 1), RVoid)]"

definition fop_init_log :: log where
  "fop_init_log =
     [(Dom M0_xc_rpclite_fop_init, RVoid),
      (Dom (M0_fop_type_init Rpclite_fopt rpclite_fop_args), RVoid),
      (Dom (M0_fop_type_init Rpclite_rep_fopt rpclite_fop_rep_args), RVoid)]"

definition fop_fini_log :: log where
  "fop_fini_log =
     [(Dom (M0_fop_type_fini Rpclite_rep_fopt), RVoid), (Dom (M0_fop_type_fini Rpclite_fopt), RVoid),
      (Dom M0_xc_rpclite_fop_fini, RVoid)]"

lemmas init_logs = stat_init_log_def stat_fini_log_def fop_init_log_def fop_fini_log_def

lemma upt_stat_nr: "[0..<2] = [0, 1::nat]"
  by (simp add: upt_rec)

lemma rpc_stat_init_run [world_simps]: "rpc_stat_init w = Done () (logged stat_init_log w)"
  by (simp add: rpc_stat_init_def upt_stat_nr prog_simps world_simps log_call_logged stat_init_log_def)

lemma rpc_stat_fini_run [world_simps]: "rpc_stat_fini w = Done () (logged stat_fini_log w)"
  by (simp add: rpc_stat_fini_def upt_stat_nr prog_simps world_simps log_call_logged stat_fini_log_def)

lemma rpclite_fop_init_run [world_simps]: "rpclite_fop_init w = Done 0 (logged fop_init_log w)"
  by (simp add: rpclite_fop_init_def prog_simps world_simps log_call_logged fop_init_log_def)

lemma rpclite_fop_fini_run [world_simps]: "rpclite_fop_fini w = Done () (logged fop_fini_log w)"
  by (simp add: rpclite_fop_fini_def prog_simps world_simps log_call_logged fop_fini_log_def)

lemma rpc_fini_run [world_simps]:
  "rpc_fini w = Done () (logged
     ([(Dom M0_ha_domain_fini, RVoid), (Dom M0_net_domain_fini, RVoid)] @ fop_fini_log @ stat_fini_log) w)"
  by (simp add: rpc_fini_def prog_simps world_simps log_call_logged)

text \<open>The answer \<open>m0_net_domain_init\<close> gives during \<open>rpc_init\<close>.\<close>

definition net_domain_rc :: "env \<Rightarrow> world \<Rightarrow> c_int" where
  "net_domain_rc env w =
     ans_int env (w_log w @ stat_init_log @ fop_init_log) (Dom M0_net_domain_init)"

lemma rpc_init_run:
  "rpc_init env w =
    (if net_domain_rc env w = 0
     then Done 0 (logged (stat_init_log @ fop_init_log @
            [(Dom M0_net_domain_init, RInt 0), (Dom (M0_ha_domain_init 0), RVoid)])
            (w\<lparr>client_max_epoch := 0\<rparr>))
     else Done (net_domain_rc env w) (logged (stat_init_log @ fop_init_log @
            [(Dom M0_net_domain_init, RInt (net_domain_rc env w))] @ fop_fini_log @ stat_fini_log)
            (w\<lparr>client_max_epoch := 0\<rparr>)))"
  by (simp add: rpc_init_def prog_simps world_simps log_call_logged net_domain_rc_def)

section \<open>Resources of the library\<close>

text \<open>What a running rpclite holds.\<close>

definition rpclite_resources :: "resource list" where
  "rpclite_resources =
     [Stat_mutex 0, Stat_mutex 1, Rpclite_xcode, Fop_type Rpclite_fopt, Fop_type Rpclite_rep_fopt,
      Net_domain, Ha_domain]"

text \<open>
  \<open>rpc_init\<close> is all or nothing. It always returns; on success it holds each resource of rpclite
  once more than before and returns 0, and on failure it returns the code of
  \<open>m0_net_domain_init\<close> and has given back everything it had acquired. Either way the heap and the
  statistics are as before and the largest epoch seen is reset to zero.
\<close>

theorem rpc_init_all_or_nothing:
  "\<exists>rc w'. rpc_init env w = Done rc w' \<and> rc = net_domain_rc env w \<and>
     held (w_log w') =
       (\<lambda>r. held (w_log w) r + (if rc = 0 \<and> r \<in> set rpclite_resources then 1 else 0)) \<and>
     w_heap w' = w_heap w \<and> rpc_stat w' = rpc_stat w \<and> client_max_epoch w' = 0"
  by (auto simp: rpc_init_run held_simps init_logs rpclite_resources_def fun_eq_iff)

definition init_obs :: "world \<Rightarrow> (resource \<Rightarrow> int) \<times> (addr \<Rightarrow> obj option) \<times> rpc_statistic list" where
  "init_obs w = (held (w_log w), w_heap w, rpc_stat w)"

interpretation lib: clean_open_close "rpc_init env" "\<lambda>rc. rc = 0" "\<lambda>_. rpc_fini" "\<lambda>_. True" init_obs
  for env
  by unfold_locales
    (auto simp: rpc_init_run rpc_fini_run init_obs_def held_simps init_logs fun_eq_iff split: if_splits)

text \<open>
  Any number of rounds of \<open>rpc_init\<close> followed, when it succeeded, by \<open>rpc_fini\<close> runs to its end
  and leaks nothing: the resources held, the heap and the statistics are those from before the first
  round, also when the last \<open>rpc_init\<close> failed.
\<close>

theorem rpc_init_fini_rounds:
  "\<exists>k w'. rounds (rpc_init env) (\<lambda>rc. rc = 0) (\<lambda>_. rpc_fini) n w = Done k w' \<and> k \<le> n \<and>
     held (w_log w') = held (w_log w) \<and> w_heap w' = w_heap w \<and> rpc_stat w' = rpc_stat w"
  using lib.all_rounds [where env = env and n = n and s = w] by (auto simp: init_obs_def)

section \<open>The statistics functions\<close>

lemma rpc_stat_at_run [world_simps]:
  "rpc_stat_at type w =
    (if stat_index type < length (rpc_stat w) then Done (rpc_stat w ! stat_index type) w
     else Stop (Undefined Out_of_bounds) w)"
  by (simp add: rpc_stat_at_def prog_simps)

definition stat_lock_log :: "rpc_stat_type \<Rightarrow> log" where
  "stat_lock_log type =
     [(Sys (M0_mutex_lock (stat_index type)), RVoid), (Sys (M0_mutex_unlock (stat_index type)), RVoid)]"

text \<open>A record that succeeds: the element is updated as \<open>stat_update\<close> says, under its lock.\<close>

lemma add_rpc_stat_record_ok [world_simps]:
  assumes "stat_index type < length (rpc_stat w)"
    and "stat_update time (rpc_stat w ! stat_index type) = Some rs"
  shows "add_rpc_stat_record type time w =
    Done () (logged (stat_lock_log type) (w\<lparr>rpc_stat := (rpc_stat w)[stat_index type := rs]\<rparr>))"
  using assms
  by (simp add: add_rpc_stat_record_def set_rpc_stat_def stat_update_def prog_simps world_simps
      Let_def log_call_logged stat_lock_log_def logged_def)

lemma add_rpc_stat_record_trap:
  assumes "stat_index type < length (rpc_stat w)"
    and "stat_update time (rpc_stat w ! stat_index type) = None"
  shows "\<exists>w'. add_rpc_stat_record type time w = Stop (Undefined Division_by_zero) w'"
  using assms
  by (simp add: add_rpc_stat_record_def set_rpc_stat_def stat_update_def prog_simps world_simps
      Let_def)

lemma wp_add_rpc_stat_record [wp_rules]:
  "(\<And>rs. stat_index type < length (rpc_stat w) \<Longrightarrow>
      stat_update time (rpc_stat w ! stat_index type) = Some rs \<Longrightarrow>
      Q () (logged (stat_lock_log type) (w\<lparr>rpc_stat := (rpc_stat w)[stat_index type := rs]\<rparr>))) \<Longrightarrow>
   (\<And>w'. stat_index type < length (rpc_stat w) \<Longrightarrow>
      stat_update time (rpc_stat w ! stat_index type) = None \<Longrightarrow>
      E (Undefined Division_by_zero) w') \<Longrightarrow>
   (\<not> stat_index type < length (rpc_stat w) \<Longrightarrow> E (Undefined Out_of_bounds) w) \<Longrightarrow>
   wp (add_rpc_stat_record type time) Q E w"
proof -
  assume *: "\<And>rs. stat_index type < length (rpc_stat w) \<Longrightarrow>
      stat_update time (rpc_stat w ! stat_index type) = Some rs \<Longrightarrow>
      Q () (logged (stat_lock_log type) (w\<lparr>rpc_stat := (rpc_stat w)[stat_index type := rs]\<rparr>))"
    "\<And>w'. stat_index type < length (rpc_stat w) \<Longrightarrow>
      stat_update time (rpc_stat w ! stat_index type) = None \<Longrightarrow>
      E (Undefined Division_by_zero) w'"
    "\<not> stat_index type < length (rpc_stat w) \<Longrightarrow> E (Undefined Out_of_bounds) w"
  consider (oob) "\<not> stat_index type < length (rpc_stat w)"
    | (trap) "stat_index type < length (rpc_stat w)"
        "stat_update time (rpc_stat w ! stat_index type) = None"
    | (good) rs where "stat_index type < length (rpc_stat w)"
        "stat_update time (rpc_stat w ! stat_index type) = Some rs"
    by (cases "stat_update time (rpc_stat w ! stat_index type)") auto
  then show ?thesis
  proof cases
    case oob
    then show ?thesis using *(3)
      by (simp add: wp_def add_rpc_stat_record_def prog_simps world_simps)
  next
    case trap
    then show ?thesis
      using add_rpc_stat_record_trap [OF trap] *(2) by (auto simp: wp_def)
  next
    case good
    then show ?thesis using *(1) by (simp add: wp_def add_rpc_stat_record_ok)
  qed
qed

lemma add_records_run:
  assumes "stat_index type < length (rpc_stat w)"
    and "stat_run ts (rpc_stat w ! stat_index type) = Some rs"
  shows "\<exists>l. cseq (map (add_rpc_stat_record type) ts) w =
    Done () (logged l (w\<lparr>rpc_stat := (rpc_stat w)[stat_index type := rs]\<rparr>))"
  using assms
proof (induction ts arbitrary: w)
  case Nil
  then show ?case by (auto simp: prog_simps logged_def intro!: exI [of _ "[]"])
next
  case (Cons t ts)
  obtain r where r: "stat_update t (rpc_stat w ! stat_index type) = Some r"
      and rest: "stat_run ts r = Some rs"
    using Cons.prems(2) by (auto split: option.splits)
  let ?w = "logged (stat_lock_log type) (w\<lparr>rpc_stat := (rpc_stat w)[stat_index type := r]\<rparr>)"
  have "add_rpc_stat_record type t w = Done () ?w"
    using Cons.prems(1) r by (rule add_rpc_stat_record_ok)
  moreover obtain l where "cseq (map (add_rpc_stat_record type) ts) ?w =
      Done () (logged l (?w\<lparr>rpc_stat := (rpc_stat ?w)[stat_index type := rs]\<rparr>))"
    using Cons.IH [of ?w] Cons.prems(1) rest by auto
  ultimately show ?case
    by (auto simp: prog_simps logged_def)
qed

text \<open>
  What a client of the statistics sees: after any non-empty sequence of records of one kind on an
  unused element, the three getters return the maximum, the truncated mean and the number of the
  recorded times, and the element of the other kind is untouched.
\<close>

theorem statistics_functional:
  assumes "stat_index type < length (rpc_stat w)" and "rpc_stat w ! stat_index type = zero_statistic"
    and "ts \<noteq> []" and "length ts < 2 ^ 32" and "sum_list (map unat ts) < 2 ^ 64"
  shows "\<exists>w'. cseq (map (add_rpc_stat_record type) ts) w = Done () w' \<and>
    get_max_rpc_time type w' = Done (Max (set ts)) w' \<and>
    get_avg_rpc_time type w' = Done (of_nat (sum_list (map unat ts) div length ts)) w' \<and>
    get_tot_rpc_num type w' = Done (of_nat (length ts)) w' \<and>
    (\<forall>i. i \<noteq> stat_index type \<longrightarrow> rpc_stat w' ! i = rpc_stat w ! i)"
proof -
  obtain rs where rs: "stat_run ts zero_statistic = Some rs" "unat (rs_num rs) = length ts"
      "rs_max_time rs = Max (set ts)" "unat (rs_avg_time rs) = sum_list (map unat ts) div length ts"
    using stat_run_figures [OF assms(3-5)] by blast
  have "rs_avg_time rs = of_nat (sum_list (map unat ts) div length ts)"
    unfolding rs(4) [symmetric] by simp
  moreover have "rs_num rs = of_nat (length ts)"
    unfolding rs(2) [symmetric] by simp
  ultimately show ?thesis
    using add_records_run [of type w ts rs] rs assms(1,2)
    by (fastforce simp: get_max_rpc_time_def get_avg_rpc_time_def get_tot_rpc_num_def
        prog_simps world_simps)
qed

lemma rpc_stat_initial: "rpc_stat initial_world = [zero_statistic, zero_statistic]"
  by (simp add: initial_world_def zero_rpc_stat_def numeral_2_eq_2)

end
