(* ===== verification/Rpclite_Endpoint.thy ===== *)
theory Rpclite_Endpoint
  imports Rpclite_Init
begin

text \<open>
  Endpoints (\<^verbatim>\<open>rpclite.c\<close>): creation, destruction and listening. An endpoint is a heap block that holds
  its local address and, inside it, a buffer pool and an RPC machine of Mero's, which are named by the
  address of the block. The out-parameter of the creating functions is returned beside the code.
\<close>

definition address_size :: nat where
  "address_size = 80"

definition MAX_MSG_SIZE :: u32 where
  "MAX_MSG_SIZE = push_bit 17 1"

definition QUEUE_LEN :: u32 where
  "QUEUE_LEN = 2"

definition process_fid :: m0_fid where
  "process_fid = M0_FID_TINIT (CHR ''r'') 0 1"

text \<open>\<open>malloc\<close> leaves the block indeterminate.\<close>

definition fresh_endpoint :: obj where
  "fresh_endpoint = Endpoint_obj \<lparr>local_address = None, rm_reqh = None\<rparr>"

definition load_endpoint :: "addr \<Rightarrow> rpc_endpoint cprog" where
  "load_endpoint p = cbind (load p) (\<lambda>ob.
     case ob of Endpoint_obj e \<Rightarrow> cret e | _ \<Rightarrow> cstop (Undefined Dangling_pointer))"

text \<open>A field that was never written must not be read.\<close>

definition read_field :: "'a option \<Rightarrow> 'a cprog" where
  "read_field x = (case x of Some a \<Rightarrow> cret a | None \<Rightarrow> cstop (Undefined Uninitialised_read))"

text \<open>\<open>strcpy\<close> into a field of \<open>address_size\<close> bytes: the terminating zero must fit as well.\<close>

definition strcpy_check :: "string \<Rightarrow> unit cprog" where
  "strcpy_check s = (if Suc (length s) \<le> address_size then cret () else cstop (Undefined Out_of_bounds))"

definition strcpy_local_address :: "addr \<Rightarrow> string \<Rightarrow> unit cprog" where
  "strcpy_local_address p s =
     cbind (load_endpoint p) (\<lambda>e.
     cthen (strcpy_check s)
           (store p (Endpoint_obj (e\<lparr>local_address := Some s\<rparr>))))"

text \<open>\<open>&e->rpc_machine\<close>\<close>

definition rpc_get_rpc_machine :: "addr \<Rightarrow> rpc_machine" where
  "rpc_get_rpc_machine e = Machine_of e"

text \<open>
  The label \<open>pool_fini\<close>: reached from every failure once the endpoint has been allocated.
\<close>

definition pool_fini :: "addr \<Rightarrow> c_int \<Rightarrow> (c_int \<times> addr) cprog" where
  "pool_fini p rc = cthen (ext_void (Ep (M0_rpc_net_buffer_pool_cleanup p))) (cret (rc, p))"

definition rpc_create_endpoint :: "env \<Rightarrow> string \<Rightarrow> addr \<Rightarrow> (c_int \<times> addr) cprog" where
  "rpc_create_endpoint env addrs e =
     cthen (cassert (e \<noteq> NULL)) (
     cbind (alloc env Sizeof_endpoint fresh_endpoint) (\<lambda>p.
     cthen (cassert (length addrs < 80)) (
     cthen (strcpy_local_address p addrs) (
     cbind (ext_int env (Ep (M0_rpc_bufs_nr 1))) (\<lambda>bufs_nr.
     cbind (ext_int env (Ep (M0_rpc_net_buffer_pool_setup p bufs_nr 1))) (\<lambda>rc.
     if rc \<noteq> 0 then pool_fini p rc else
     cbind (alloc env Sizeof_reqh Reqh_obj) (\<lambda>reqh.
     cthen (cassert (reqh \<noteq> NULL)) (
     cthen (ext_void (Sys (M0_SET0 reqh))) (
     cbind (ext_int env (Ep (M0_reqh_init reqh process_fid))) (\<lambda>rc.
     if rc \<noteq> 0 then pool_fini p rc else
     cthen (ext_void (Ep (M0_reqh_start reqh))) (
     cbind (load_endpoint p) (\<lambda>ep.
     cbind (read_field (local_address ep)) (\<lambda>la.
     cbind (ext_out env (Ep (M0_rpc_machine_init p la reqh MAX_MSG_SIZE QUEUE_LEN))) (\<lambda>(rc, q).
     if rc \<noteq> 0 then pool_fini p rc else
     cthen (store p (Endpoint_obj (ep\<lparr>rm_reqh := Some q\<rparr>))) (
     cret (0, p))))))))))))))))"

definition rpc_destroy_endpoint :: "addr \<Rightarrow> unit cprog" where
  "rpc_destroy_endpoint e =
     cbind (load_endpoint e) (\<lambda>ep.
     cbind (read_field (rm_reqh ep)) (\<lambda>reqh.
     cseq
       [ext_void (Ep (M0_rpc_machine_fini e)),
        ext_void (Ep (M0_reqh_services_terminate reqh)),
        ext_void (Ep (M0_reqh_fini reqh)),
        free reqh,
        ext_void (Ep (M0_rpc_net_buffer_pool_cleanup e)),
        free e]))"

definition rpc_listen :: "env \<Rightarrow> string \<Rightarrow> rpc_listen_callbacks option \<Rightarrow> addr \<Rightarrow> (c_int \<times> addr) cprog" where
  "rpc_listen env addrs cbs e =
     cthen (cmodify (\<lambda>w. w\<lparr>rpclite_listen_cbs :=
              (case cbs of Some c \<Rightarrow> c | None \<Rightarrow> no_listen_callbacks)\<rparr>))
           (rpc_create_endpoint env addrs e)"

section \<open>How creation and destruction run\<close>

lemma wp_load_endpoint [wp_rules]:
  "(\<And>e. p \<noteq> NULL \<Longrightarrow> w_heap w p = Some (Endpoint_obj e) \<Longrightarrow> Q e w) \<Longrightarrow>
   (p = NULL \<Longrightarrow> E (Undefined Null_dereference) w) \<Longrightarrow>
   (p \<noteq> NULL \<Longrightarrow> (\<nexists>e. w_heap w p = Some (Endpoint_obj e)) \<Longrightarrow> E (Undefined Dangling_pointer) w) \<Longrightarrow>
   wp (load_endpoint p) Q E w"
  unfolding load_endpoint_def
  by (intro wp_rules) (auto simp: wp_def cret_def cstop_def split: obj.splits)

lemma wp_read_field [wp_rules]:
  "(\<And>a. x = Some a \<Longrightarrow> Q a w) \<Longrightarrow> (x = None \<Longrightarrow> E (Undefined Uninitialised_read) w) \<Longrightarrow>
   wp (read_field x) Q E w"
  unfolding read_field_def by (cases x) (auto simp: wp_def cret_def cstop_def)

lemma wp_strcpy_local_address [wp_rules]:
  "(\<And>e. p \<noteq> NULL \<Longrightarrow> w_heap w p = Some (Endpoint_obj e) \<Longrightarrow> length s < address_size \<Longrightarrow>
     Q () (mem_put p (Endpoint_obj (e\<lparr>local_address := Some s\<rparr>)) w)) \<Longrightarrow>
   (p = NULL \<Longrightarrow> E (Undefined Null_dereference) w) \<Longrightarrow>
   (p \<noteq> NULL \<Longrightarrow> (\<nexists>e. w_heap w p = Some (Endpoint_obj e)) \<Longrightarrow> E (Undefined Dangling_pointer) w) \<Longrightarrow>
   (\<not> length s < address_size \<Longrightarrow> E (Undefined Out_of_bounds) w) \<Longrightarrow>
   wp (strcpy_local_address p s) Q E w"
  unfolding strcpy_local_address_def strcpy_check_def
  by (intro wp_rules) (auto simp: Suc_le_eq)

lemma wp_pool_fini [wp_rules]:
  "Q (rc, p) (log_call (Ep (M0_rpc_net_buffer_pool_cleanup p)) RVoid w) \<Longrightarrow> wp (pool_fini p rc) Q E w"
  unfolding pool_fini_def by (intro wp_rules)

text \<open>The endpoint block after creation.\<close>

definition made_endpoint :: "string \<Rightarrow> addr option \<Rightarrow> obj" where
  "made_endpoint s q = Endpoint_obj \<lparr>local_address = Some s, rm_reqh = q\<rparr>"

text \<open>What a live endpoint holds beside its memory.\<close>

definition endpoint_resources :: "addr \<Rightarrow> addr \<Rightarrow> resource list" where
  "endpoint_resources p q = [Buffer_pool p, Reqh q, Started_reqh q, Rpc_machine p]"

text \<open>Mero's machine refers to the request handler it was given.\<close>

definition machine_keeps_reqh :: "env \<Rightarrow> bool" where
  "machine_keeps_reqh env \<longleftrightarrow>
     (\<forall>l p a q m n. ans_addr env l (Ep (M0_rpc_machine_init p a q m n)) = q)"

definition create_post :: "string \<Rightarrow> world \<Rightarrow> c_int \<times> addr \<Rightarrow> world \<Rightarrow> bool" where
  "create_post s w res w' \<longleftrightarrow>
    (let p = w_next w; q = Suc p in snd res = p \<and> length s < address_size \<and> wf_world w' \<and>
      (if fst res = 0
       then w_heap w' = (w_heap w)(p \<mapsto> made_endpoint s (Some q), q \<mapsto> Reqh_obj) \<and>
         (\<forall>r. held (w_log w') r = held (w_log w) r + (if r \<in> set (endpoint_resources p q) then 1 else 0))
       else w_heap w' = (w_heap w)(p \<mapsto> made_endpoint s None) \<or>
         w_heap w' = (w_heap w)(p \<mapsto> made_endpoint s None, q \<mapsto> Reqh_obj)))"

lemma create_endpoint_wp:
  assumes "wf_world w" and "machine_keeps_reqh env"
  shows "wp (rpc_create_endpoint env s e) (create_post s w) (\<lambda>_ _. True) w"
  unfolding rpc_create_endpoint_def
  by (intro wp_rules)
    (use assms wf_world_next [OF assms(1)] in
      \<open>auto simp: create_post_def fresh_endpoint_def made_endpoint_def endpoint_resources_def
        machine_keeps_reqh_def address_size_def Let_def held_simps fun_eq_iff wf_world_def
        split: if_splits intro: less_SucI\<close>)

text \<open>
  Why creation can stop: \<open>NULL\<close> for the out-parameter, an address too long for its field, or memory
  exhausted (by the unchecked \<open>malloc\<close> of the endpoint, or the asserted one of the handler).
\<close>

definition create_stop :: "env \<Rightarrow> string \<Rightarrow> addr \<Rightarrow> world \<Rightarrow> stop_reason \<Rightarrow> bool" where
  "create_stop env s e w r \<longleftrightarrow>
     r = Assertion_failed \<or>
     r = Undefined Null_dereference \<and> \<not> ans_alloc env (w_log w) Sizeof_endpoint"

lemma create_endpoint_stop_wp:
  assumes "wf_world w"
  shows "wp (rpc_create_endpoint env s e) (\<lambda>_ _. True) (\<lambda>r _. create_stop env s e w r) w"
  unfolding rpc_create_endpoint_def
  by (intro wp_rules)
    (use assms wf_world_next [OF assms] in
      \<open>auto simp: create_stop_def fresh_endpoint_def address_size_def split: if_splits\<close>)

lemma destroy_endpoint_run:
  assumes "wf_world w" and "w_heap w p = Some (made_endpoint s (Some q))"
    and "w_heap w q = Some Reqh_obj"
  shows "\<exists>w'. rpc_destroy_endpoint p w = Done () w' \<and> wf_world w' \<and>
    w_heap w' = (w_heap w)(p := None, q := None) \<and>
    held (w_log w') = (\<lambda>r. held (w_log w) r - (if r \<in> set (endpoint_resources p q) then 1 else 0))"
proof -
  have live: "0 < p" "0 < q"
    using wf_world_live [OF assms(1) assms(2)] wf_world_live [OF assms(1) assms(3)] by simp_all
  have "wp (rpc_destroy_endpoint p)
      (\<lambda>_ w'. wf_world w' \<and> w_heap w' = (w_heap w)(p := None, q := None) \<and>
        held (w_log w') = (\<lambda>r. held (w_log w) r - (if r \<in> set (endpoint_resources p q) then 1 else 0)))
      (\<lambda>_ _. False) w"
    unfolding rpc_destroy_endpoint_def
    by (intro wp_rules)
      (use assms live in
        \<open>auto simp: made_endpoint_def endpoint_resources_def held_simps fun_eq_iff wf_world_def
          split: if_splits\<close>)
  then show ?thesis by (auto dest: wp_returns)
qed

section \<open>Properties\<close>

definition endpoint_obs :: "world \<Rightarrow> (addr \<Rightarrow> obj option) \<times> (resource \<Rightarrow> int)" where
  "endpoint_obs w = (w_heap w, held (w_log w))"

lemma endpoint_open_close:
  assumes "machine_keeps_reqh env"
  shows "open_close (rpc_create_endpoint env s e) (\<lambda>(rc, p). rc = 0) (\<lambda>(rc, p). rpc_destroy_endpoint p)
    wf_world endpoint_obs"
proof
  fix w a w'
  assume w: "wf_world w" "rpc_create_endpoint env s e w = Done a w'" "case a of (rc, p) \<Rightarrow> rc = 0"
  then obtain p where a: "a = (0, p)" by (cases a) auto
  let ?q = "Suc p"
  have p: "p = w_next w" "wf_world w'"
      "w_heap w' = (w_heap w)(p \<mapsto> made_endpoint s (Some ?q), ?q \<mapsto> Reqh_obj)"
      "\<And>r. held (w_log w') r = held (w_log w) r + (if r \<in> set (endpoint_resources p ?q) then 1 else 0)"
    using wp_DoneD [OF create_endpoint_wp [OF w(1) assms] w(2)] a by (auto simp: create_post_def Let_def)
  have "w_heap w p = None" "w_heap w ?q = None"
    using w(1) p(1) by (auto simp: wf_world_def intro: ccontr)
  then have "((w_heap w)(p \<mapsto> made_endpoint s (Some ?q), ?q \<mapsto> Reqh_obj))(p := None, ?q := None) = w_heap w"
    by (auto simp: fun_eq_iff)
  with destroy_endpoint_run [of w' p s ?q] p(2-4) a
  show "\<exists>b u. (case a of (rc, p) \<Rightarrow> rpc_destroy_endpoint p) w' = Done b u \<and>
      endpoint_obs u = endpoint_obs w \<and> wf_world u"
    by (auto simp: endpoint_obs_def fun_eq_iff)
qed

text \<open>
  C28. \<open>rpc_destroy_endpoint\<close> undoes \<open>rpc_create_endpoint\<close>: a successfully created endpoint can be
  destroyed without any undefined operation, and afterwards every memory block and every Mero resource
  the creation had acquired has been given back, so any number of rounds leaves heap and resources as
  they were.
\<close>

theorem endpoint_rounds:
  assumes "wf_world w" and "machine_keeps_reqh env"
    and "rounds (rpc_create_endpoint env s e) (\<lambda>(rc, p). rc = 0)
      (\<lambda>(rc, p). rpc_destroy_endpoint p) n w = Done n w'"
  shows "w_heap w' = w_heap w \<and> held (w_log w') = held (w_log w) \<and> wf_world w'"
  using open_close.complete_rounds [OF endpoint_open_close [OF assms(2)] assms(3,1)]
  by (simp add: endpoint_obs_def)

text \<open>A Mero that succeeds in everything, for the witnesses.\<close>

definition willing_addr :: "log \<Rightarrow> call \<Rightarrow> addr" where
  "willing_addr l c = (case c of Ep (M0_rpc_machine_init p a q m n) \<Rightarrow> q | _ \<Rightarrow> 7)"

definition willing_fop :: "log \<Rightarrow> call \<Rightarrow> m0_fop" where
  "willing_fop l c = \<lparr>fop_data =
       (case c of Fop (M0_fop_alloc_at s Session_terminate_fopt) \<Rightarrow> Terminate_data 0 0
        | Fom (M0_fop_reply_alloc p t) \<Rightarrow> Rpclite_rep_data 0
        | _ \<Rightarrow> Rpclite_data \<lparr>f_count = 0, f_fragments = NULL\<rparr>),
     ri_session = Foreign_session 0, ri_deadline = 0, ri_nr_sent_max = 0, ri_resend_interval = 0,
     ri_rmachine = NULL, ri_ops = Default_item_ops, ri_prio = Other_prio 0\<rparr>"

fun willing_alloc :: "alloc_size \<Rightarrow> bool" where
  "willing_alloc (Bytes b) = (unat b < 2 ^ 63)"
| "willing_alloc _ = True"

definition willing_env :: env where
  "willing_env = \<lparr>ans_int = (\<lambda>_ _. 0), ans_u64 = (\<lambda>_ _. 0), ans_addr = willing_addr,
     ans_alloc = (\<lambda>_. willing_alloc), ans_fop = willing_fop\<rparr>"

lemma willing_machine: "machine_keeps_reqh willing_env"
  by (simp add: machine_keeps_reqh_def willing_env_def willing_addr_def)

lemma willing_create:
  "\<exists>w'. rpc_create_endpoint willing_env ''0@lo:12345:34:10'' 1 initial_world = Done (0, 1) w'"
  by (simp add: rpc_create_endpoint_def prog_simps world_simps willing_env_def willing_addr_def
      initial_world_def fresh_endpoint_def load_endpoint_def strcpy_local_address_def strcpy_check_def
      address_size_def read_field_def)

theorem endpoint_rounds_witness:
  "\<exists>w'. rounds (rpc_create_endpoint willing_env ''0@lo:12345:34:10'' 1) (\<lambda>(rc, p). rc = 0)
     (\<lambda>(rc, p). rpc_destroy_endpoint p) 1 initial_world = Done 1 w' \<and>
   w_heap w' = w_heap initial_world \<and> held (w_log w') = held (w_log initial_world)"
proof -
  let ?opn = "rpc_create_endpoint willing_env ''0@lo:12345:34:10'' 1"
  obtain w1 where w1: "?opn initial_world = Done (0, 1) w1"
    using willing_create by blast
  then obtain b w2 where w2: "rpc_destroy_endpoint 1 w1 = Done b w2"
    using open_close.close_after_open [OF endpoint_open_close [OF willing_machine] wf_initial_world w1]
    by auto
  then have "rounds ?opn (\<lambda>(rc, p). rc = 0) (\<lambda>(rc, p). rpc_destroy_endpoint p) 1 initial_world = Done 1 w2"
    using w1 by (simp add: prog_simps)
  with endpoint_rounds [OF wf_initial_world willing_machine this] show ?thesis by blast
qed

text \<open>
  A failed \<open>rpc_create_endpoint\<close> leaks. Whenever it returns an error code, the block it allocated
  for the endpoint is still allocated (and \<open>*e\<close> still points to it), and so is, when the failure came
  after its allocation, the request handler; no function of the interface can free them, since
  \<open>rpc_destroy_endpoint\<close> of that endpoint reads the handler pointer that was never written.
\<close>

theorem create_endpoint_failure_leaks:
  assumes "wf_world w" and "machine_keeps_reqh env"
    and "rpc_create_endpoint env s e w = Done (rc, p) w'" and "rc \<noteq> 0"
  shows "w_heap w p = None \<and> w_heap w' p = Some (made_endpoint s None) \<and>
    rpc_destroy_endpoint p w' = Stop (Undefined Uninitialised_read) w'"
proof -
  have post: "create_post s w (rc, p) w'"
    using wp_DoneD [OF create_endpoint_wp [OF assms(1,2)] assms(3)] .
  then have p: "p = w_next w" "wf_world w'" "w_heap w' p = Some (made_endpoint s None)"
    using assms(4) by (auto simp: create_post_def Let_def)
  moreover have "0 < p" using wf_world_live [OF p(2,3)] by simp
  ultimately show ?thesis
    using wf_world_fresh [OF assms(1)]
    by (simp add: rpc_destroy_endpoint_def load_endpoint_def read_field_def made_endpoint_def
        prog_simps world_simps)
qed

definition no_pool_env :: env where
  "no_pool_env = willing_env\<lparr>ans_int := (\<lambda>l c. case c of
     Ep (M0_rpc_net_buffer_pool_setup p n t) \<Rightarrow> - 12 | _ \<Rightarrow> 0)\<rparr>"

text \<open>
  The address field is never overrun. \<open>rpc_create_endpoint\<close> stops only at one of its assertions,
  or by dereferencing the result of a \<open>malloc\<close> that failed; in particular no address, of whatever
  length, makes \<open>strcpy\<close> write outside the 80 bytes of the field.
\<close>

theorem create_endpoint_memory_safe:
  assumes "wf_world w" and "rpc_create_endpoint env s e w = Stop r w'"
  shows "r = Assertion_failed \<or>
    r = Undefined Null_dereference \<and> ans_alloc env (w_log w) Sizeof_endpoint = False"
  using wp_StopD [OF create_endpoint_stop_wp [OF assms(1)] assms(2)] by (simp add: create_stop_def)

end
