(* ===== verification/Rpclite_Conn.thy ===== *)
theory Rpclite_Conn
  imports Rpclite_Endpoint
begin

text \<open>
  Connections (\<^verbatim>\<open>rpclite.c\<close>): a connection is a heap block with the remote address, the remote end point
  and, inside it, a Mero connection and session, which are named by the address of the block.
\<close>

definition MAX_RPCS_IN_FLIGHT :: u32 where
  "MAX_RPCS_IN_FLIGHT = 32"

definition fresh_connection :: obj where
  "fresh_connection = Connection_obj \<lparr>remote_address = None, remote_ep = None\<rparr>"

definition load_connection :: "addr \<Rightarrow> rpc_connection cprog" where
  "load_connection p = cbind (load p) (\<lambda>ob.
     case ob of Connection_obj c \<Rightarrow> cret c | _ \<Rightarrow> cstop (Undefined Dangling_pointer))"

definition strcpy_remote_address :: "addr \<Rightarrow> string \<Rightarrow> unit cprog" where
  "strcpy_remote_address p s =
     cbind (load_connection p) (\<lambda>c.
     cthen (strcpy_check s)
           (store p (Connection_obj (c\<lparr>remote_address := Some s\<rparr>))))"

text \<open>\<open>&c->session\<close>\<close>

definition rpc_get_session :: "addr \<Rightarrow> rpc_session" where
  "rpc_get_session c = Session_of c"

text \<open>
  The deadline of \<open>m0_rpc_conn_destroy\<close> on the error path is the number of seconds itself, widened to
  the 64 bits of a time.
\<close>

definition rpc_connect_rpc_machine ::
  "env \<Rightarrow> rpc_machine \<Rightarrow> string \<Rightarrow> c_int \<Rightarrow> addr \<Rightarrow> (c_int \<times> addr) cprog" where
  "rpc_connect_rpc_machine env rm addrs timeout_s c =
     cthen (cassert (c \<noteq> NULL)) (
     cbind (ext_u64 env (Sys M0_time_now)) (\<lambda>time.
     cbind (alloc env Sizeof_connection fresh_connection) (\<lambda>p.
     cthen (cassert (length addrs < 80)) (
     cthen (strcpy_remote_address p addrs) (
     cbind (load_connection p) (\<lambda>conn.
     cbind (read_field (remote_address conn)) (\<lambda>ra.
     cbind (ext_out env (Conn (M0_net_end_point_create p rm ra))) (\<lambda>(rc, ep).
     if rc \<noteq> 0 then cret (rc, p) else
     cthen (store p (Connection_obj (conn\<lparr>remote_ep := Some ep\<rparr>))) (
     cbind (ext_u64 env (Sys (M0_time_from_now timeout_s 0))) (\<lambda>deadline.
     cbind (ext_int env (Conn (M0_rpc_conn_create p ep rm MAX_RPCS_IN_FLIGHT deadline))) (\<lambda>rc.
     cthen (ext_void (Conn (M0_net_end_point_put ep))) (
     if rc \<noteq> 0 then cret (rc, p) else
     cbind (ext_u64 env (Sys M0_time_now)) (\<lambda>now.
     cbind (ext_u64 env (Sys (M0_time_sub now time))) (\<lambda>time.
     cthen (add_rpc_stat_record RPC_STAT_CONN time) (
     cbind (ext_u64 env (Sys (M0_time_from_now timeout_s 0))) (\<lambda>deadline.
     cbind (ext_int env (Conn (M0_rpc_session_create p deadline))) (\<lambda>rc.
     if rc \<noteq> 0 then cthen (ext_int env (Conn (M0_rpc_conn_destroy p (At (scast timeout_s))))) (cret (rc, p)) else
     cret (rc, p))))))))))))))))))"

definition rpc_connect :: "env \<Rightarrow> addr \<Rightarrow> string \<Rightarrow> c_int \<Rightarrow> addr \<Rightarrow> (c_int \<times> addr) cprog" where
  "rpc_connect env e addrs timeout_s c =
     rpc_connect_rpc_machine env (rpc_get_rpc_machine e) addrs timeout_s c"

text \<open>The code of the session is overwritten by that of the connection.\<close>

definition client_fini :: "env \<Rightarrow> addr \<Rightarrow> c_int \<Rightarrow> c_int cprog" where
  "client_fini env cctx timeout_s =
     cbind (ext_int env (Conn (M0_rpc_client_session_destroy cctx (At (scast timeout_s))))) (\<lambda>rc.
     cbind (ext_int env (Conn (M0_rpc_client_conn_destroy cctx (At (scast timeout_s))))) (\<lambda>rc.
     cthen (ext_void (Conn (M0_rpc_client_machine_fini cctx))) (
     cthen (ext_void (Conn (M0_rpc_client_pool_cleanup cctx))) (
     cret rc))))"

definition rpc_disconnect :: "env \<Rightarrow> addr \<Rightarrow> c_int \<Rightarrow> c_int cprog" where
  "rpc_disconnect env c timeout_s =
     cbind (ext_int env (Conn (M0_rpc_session_destroy c M0_TIME_NEVER))) (\<lambda>rc.
     cbind (ext_int env (Conn (M0_rpc_conn_destroy c M0_TIME_NEVER))) (\<lambda>rc.
     cthen (free c) (
     cret rc)))"

definition rpc_release_connection :: "addr \<Rightarrow> unit cprog" where
  "rpc_release_connection c = cseq
     [ext_void (Conn (M0_rpc_session_fini c)),
      ext_void (Conn (M0_rpc_conn_fini c)),
      free c]"

section \<open>How connecting runs\<close>

lemma wp_load_connection [wp_rules]:
  "(\<And>c. p \<noteq> NULL \<Longrightarrow> w_heap w p = Some (Connection_obj c) \<Longrightarrow> Q c w) \<Longrightarrow>
   (p = NULL \<Longrightarrow> E (Undefined Null_dereference) w) \<Longrightarrow>
   (p \<noteq> NULL \<Longrightarrow> (\<nexists>c. w_heap w p = Some (Connection_obj c)) \<Longrightarrow> E (Undefined Dangling_pointer) w) \<Longrightarrow>
   wp (load_connection p) Q E w"
  unfolding load_connection_def
  by (intro wp_rules) (auto simp: wp_def cret_def cstop_def split: obj.splits)

lemma wp_strcpy_remote_address [wp_rules]:
  "(\<And>c. p \<noteq> NULL \<Longrightarrow> w_heap w p = Some (Connection_obj c) \<Longrightarrow> length s < address_size \<Longrightarrow>
     Q () (mem_put p (Connection_obj (c\<lparr>remote_address := Some s\<rparr>)) w)) \<Longrightarrow>
   (p = NULL \<Longrightarrow> E (Undefined Null_dereference) w) \<Longrightarrow>
   (p \<noteq> NULL \<Longrightarrow> (\<nexists>c. w_heap w p = Some (Connection_obj c)) \<Longrightarrow> E (Undefined Dangling_pointer) w) \<Longrightarrow>
   (\<not> length s < address_size \<Longrightarrow> E (Undefined Out_of_bounds) w) \<Longrightarrow>
   wp (strcpy_remote_address p s) Q E w"
  unfolding strcpy_remote_address_def strcpy_check_def
  by (intro wp_rules) (auto simp: Suc_le_eq)

definition connection_resources :: "addr \<Rightarrow> resource list" where
  "connection_resources p = [Rpc_conn p, Rpc_session p]"

text \<open>
  What holds when connecting returns: the block stays allocated whatever the code, the session and
  connection are held exactly on success, and the CONN statistic has grown by one sample exactly if
  Mero accepted the connection.
\<close>

definition conn_accepted :: "addr \<Rightarrow> log \<Rightarrow> bool" where
  "conn_accepted p l \<longleftrightarrow> (\<exists>ep rm n d. (Conn (M0_rpc_conn_create p ep rm n d), RInt 0) \<in> set l)"

definition one_more_sample :: "rpc_stat_type \<Rightarrow> world \<Rightarrow> world \<Rightarrow> bool" where
  "one_more_sample type w w' \<longleftrightarrow>
     (\<exists>t rs. stat_update t (rpc_stat w ! stat_index type) = Some rs \<and>
        rpc_stat w' = (rpc_stat w)[stat_index type := rs])"

definition connect_post :: "string \<Rightarrow> world \<Rightarrow> c_int \<times> addr \<Rightarrow> world \<Rightarrow> bool" where
  "connect_post s w res w' \<longleftrightarrow>
    (let p = w_next w in
      snd res = p \<and> length s < address_size \<and> wf_world w' \<and>
      (\<exists>ep. w_heap w' = (w_heap w)(p \<mapsto> Connection_obj \<lparr>remote_address = Some s, remote_ep = ep\<rparr>)) \<and>
      (\<forall>r. held (w_log w') r = held (w_log w) r +
         (if fst res = 0 \<and> r \<in> set (connection_resources p) then 1 else 0)) \<and>
      (fst res = 0 \<longrightarrow> conn_accepted p (new_log w w')) \<and>
      (if conn_accepted p (new_log w w') then one_more_sample RPC_STAT_CONN w w'
       else rpc_stat w' = rpc_stat w))"

lemma connect_wp:
  assumes "wf_world w"
  shows "wp (rpc_connect_rpc_machine env rm s t c) (connect_post s w) (\<lambda>_ _. True) w"
  unfolding rpc_connect_rpc_machine_def
  by (intro wp_rules)
    (use assms wf_world_next [OF assms(1)] in
      \<open>auto simp: connect_post_def fresh_connection_def connection_resources_def conn_accepted_def
        one_more_sample_def new_log_def address_size_def Let_def held_simps fun_eq_iff wf_world_def
        stat_lock_log_def split: if_splits intro: less_SucI\<close>)

definition connect_stop :: "env \<Rightarrow> world \<Rightarrow> stop_reason \<Rightarrow> bool" where
  "connect_stop env w r \<longleftrightarrow>
     r = Assertion_failed \<or>
     r = Undefined Null_dereference \<and>
       \<not> ans_alloc env (w_log w @ [(Sys M0_time_now, RU64 (ans_u64 env (w_log w) (Sys M0_time_now)))])
           Sizeof_connection \<or>
     r = Undefined Division_by_zero \<and>
       unat (rs_num (rpc_stat w ! stat_index RPC_STAT_CONN)) = 2 ^ 32 - 1"

lemma connect_stop_wp:
  assumes "wf_world w" and "length (rpc_stat w) = stat_index RPC_STAT_NR"
  shows "wp (rpc_connect_rpc_machine env rm s t c) (\<lambda>_ _. True) (\<lambda>r _. connect_stop env w r) w"
  unfolding rpc_connect_rpc_machine_def
  by (intro wp_rules)
    (use assms wf_world_next [OF assms(1)] in
      \<open>auto simp: connect_stop_def fresh_connection_def address_size_def stat_update_None_iff u32_succ_zero_iff
        split: if_splits\<close>)

lemma disconnect_run:
  assumes "0 < p" and "w_heap w p = Some ob" and "wf_world w"
  shows "\<exists>rc w'. rpc_disconnect env p t w = Done rc w' \<and> wf_world w' \<and>
    w_heap w' = (w_heap w)(p := None) \<and>
    held (w_log w') = (\<lambda>r. held (w_log w) r - (if r \<in> set (connection_resources p) then 1 else 0))"
proof -
  have "wp (rpc_disconnect env p t)
      (\<lambda>_ w'. wf_world w' \<and> w_heap w' = (w_heap w)(p := None) \<and>
        held (w_log w') = (\<lambda>r. held (w_log w) r - (if r \<in> set (connection_resources p) then 1 else 0)))
      (\<lambda>_ _. False) w"
    unfolding rpc_disconnect_def
    by (intro wp_rules)
      (use assms in \<open>auto simp: connection_resources_def held_simps fun_eq_iff wf_world_def
        split: if_splits\<close>)
  then show ?thesis by (auto dest: wp_returns)
qed

section \<open>Properties\<close>

lemma connect_open_close:
  "open_close (rpc_connect_rpc_machine env rm s t c) (\<lambda>(rc, p). rc = 0)
     (\<lambda>(rc, p). rpc_disconnect env p t') wf_world endpoint_obs"
proof
  fix w a w'
  assume w: "wf_world w" "rpc_connect_rpc_machine env rm s t c w = Done a w'"
    "case a of (rc, p) \<Rightarrow> rc = 0"
  then obtain p where a: "a = (0, p)" by (cases a) auto
  obtain ob where p: "p = w_next w" "wf_world w'" "w_heap w' = (w_heap w)(p \<mapsto> ob)"
      "\<And>r. held (w_log w') r = held (w_log w) r + (if r \<in> set (connection_resources p) then 1 else 0)"
    using wp_DoneD [OF connect_wp [OF w(1)] w(2)] a by (auto simp: connect_post_def Let_def)
  have "0 < p" using p(1) wf_world_next [OF w(1)] by simp
  moreover have "(w_heap w)(p := None) = w_heap w"
    using wf_world_fresh [OF w(1)] p(1) by (simp add: fun_upd_idem)
  ultimately show "\<exists>b u. (case a of (rc, p) \<Rightarrow> rpc_disconnect env p t') w' = Done b u \<and>
      endpoint_obs u = endpoint_obs w \<and> wf_world u"
    using disconnect_run [of p w' ob env t'] p(2-4) a
    by (auto simp: endpoint_obs_def fun_eq_iff)
qed

text \<open>
  C29. \<open>rpc_disconnect\<close> undoes \<open>rpc_connect\<close>: whatever codes Mero answers while tearing down, a connection
  that was established can be closed, and afterwards the heap and the Mero resources are what they were
  before connecting, over any number of rounds.
\<close>

theorem connect_disconnect_rounds:
  assumes "wf_world w"
    and "rounds (rpc_connect env e s t c) (\<lambda>(rc, p). rc = 0)
      (\<lambda>(rc, p). rpc_disconnect env p t') n w = Done n w'"
  shows "w_heap w' = w_heap w \<and> held (w_log w') = held (w_log w) \<and> wf_world w'"
  using open_close.complete_rounds [OF connect_open_close assms(2) [unfolded rpc_connect_def] assms(1)]
  by (simp add: endpoint_obs_def)

lemma willing_connect:
  "\<exists>w'. rpc_connect willing_env 1 ''0@lo:12345:34:11'' 5 1 initial_world = Done (0, 1) w'"
  by (simp add: rpc_connect_def rpc_connect_rpc_machine_def prog_simps world_simps willing_env_def
      willing_addr_def initial_world_def fresh_connection_def load_connection_def
      strcpy_remote_address_def strcpy_check_def address_size_def read_field_def
      zero_rpc_stat_def stat_update_def stat_stmt_defs zero_statistic_def)

theorem connect_disconnect_rounds_witness:
  "\<exists>w'. rounds (rpc_connect willing_env 1 ''0@lo:12345:34:11'' 5 1) (\<lambda>(rc, p). rc = 0)
     (\<lambda>(rc, p). rpc_disconnect willing_env p 5) 1 initial_world = Done 1 w' \<and>
   w_heap w' = w_heap initial_world \<and> held (w_log w') = held (w_log initial_world)"
proof -
  let ?opn = "rpc_connect willing_env 1 ''0@lo:12345:34:11'' 5 1"
  obtain w1 where w1: "?opn initial_world = Done (0, 1) w1"
    using willing_connect by blast
  then obtain b w2 where w2: "rpc_disconnect willing_env 1 5 w1 = Done b w2"
    using open_close.close_after_open [OF connect_open_close [where t' = 5] wf_initial_world
        w1 [unfolded rpc_connect_def]] by auto
  then have "rounds ?opn (\<lambda>(rc, p). rc = 0) (\<lambda>(rc, p). rpc_disconnect willing_env p 5) 1 initial_world
      = Done 1 w2"
    using w1 by (simp add: prog_simps)
  with connect_disconnect_rounds [OF wf_initial_world this] show ?thesis by blast
qed

text \<open>
  What a failed \<open>rpc_connect\<close> leaves behind: no end point, connection or session of Mero's stays
  acquired, but the block allocated for \<open>*c\<close> does, although only a successful call is documented to set
  \<open>*c\<close>. The connection statistic counts the attempt exactly if Mero had accepted the connection, so a
  connection whose session then failed is counted.
\<close>

theorem connect_failure:
  assumes "wf_world w" and "rpc_connect env e s t c w = Done (rc, p) w'" and "rc \<noteq> 0"
  shows "held (w_log w') = held (w_log w) \<and> w_heap w p = None \<and> w_heap w' p \<noteq> None \<and>
    (if conn_accepted p (new_log w w') then one_more_sample RPC_STAT_CONN w w'
     else rpc_stat w' = rpc_stat w)"
  using wp_DoneD [OF connect_wp [OF assms(1)] assms(2) [unfolded rpc_connect_def]] assms(3)
    wf_world_fresh [OF assms(1)]
  by (auto simp: connect_post_def Let_def)

definition no_session_env :: env where
  "no_session_env = willing_env\<lparr>ans_int := (\<lambda>l c. case c of
     Conn (M0_rpc_session_create p d) \<Rightarrow> - 110 | _ \<Rightarrow> 0)\<rparr>"

text \<open>
  \<open>rpc_connect\<close> stops only at one of its assertions (no out-parameter, or an address that does not
  fit its field), by dereferencing the result of a \<open>malloc\<close> that failed, or in the statistic when
  \<open>2 ^ 32 - 1\<close> connections have been counted before.
\<close>

theorem connect_stops:
  assumes "wf_world w" and "length (rpc_stat w) = stat_index RPC_STAT_NR"
    and "rpc_connect env e s t c w = Stop r w'"
  shows "r = Assertion_failed \<or>
     r = Undefined Null_dereference \<and>
       \<not> ans_alloc env (w_log w @ [(Sys M0_time_now, RU64 (ans_u64 env (w_log w) (Sys M0_time_now)))])
           Sizeof_connection \<or>
     r = Undefined Division_by_zero \<and>
       unat (rs_num (rpc_stat w ! stat_index RPC_STAT_CONN)) = 2 ^ 32 - 1"
  using wp_StopD [OF connect_stop_wp [OF assms(1,2)] assms(3) [unfolded rpc_connect_def]]
  by (simp add: connect_stop_def)

text \<open>
  \<open>rpc_disconnect\<close> reports only the second of its two teardown steps and never times out: its
  result is Mero's answer to the destruction of the connection, whatever the destruction of the session
  answered, and it does not depend on \<open>timeout_s\<close>, both steps being asked to wait for ever.
\<close>

theorem disconnect_result:
  assumes "c \<noteq> NULL" and "w_heap w c = Some ob"
  defines "sess \<equiv> Conn (M0_rpc_session_destroy c M0_TIME_NEVER)"
    and "conn \<equiv> Conn (M0_rpc_conn_destroy c M0_TIME_NEVER)"
  shows "\<exists>w'. rpc_disconnect env c timeout_s w =
      Done (ans_int env (w_log w @ [(sess, RInt (ans_int env (w_log w) sess))]) conn) w' \<and>
    (\<forall>timeout_s'. rpc_disconnect env c timeout_s' w = rpc_disconnect env c timeout_s w)"
  using assms(1,2) by (simp add: rpc_disconnect_def prog_simps world_simps sess_def conn_def)

definition stuck_session_env :: env where
  "stuck_session_env = willing_env\<lparr>ans_int := (\<lambda>l c. case c of
     Conn (M0_rpc_session_destroy p d) \<Rightarrow> - 110 | _ \<Rightarrow> 0)\<rparr>"

end
