(* ===== verification/Rpclite_Fop.thy ===== *)
theory Rpclite_Fop
  imports Rpclite_Conn
begin

text \<open>
  The payload of a message (\<^verbatim>\<open>rpclite.c\<close>): the segments of the caller are copied one after the other
  into one byte array, which the receiver reads back as a single fragment. Lengths are added in an
  \<open>int\<close>, so the arithmetic here is at its width.
\<close>

section \<open>Reaching a fop\<close>

text \<open>A fop is a block of its own or a field of a sender-side message.\<close>

definition load_fop :: "fop_ref \<Rightarrow> m0_fop cprog" where
  "load_fop f = (case f of
     Own_fop p \<Rightarrow> cbind (load p) (\<lambda>ob.
       case ob of Fop_obj x \<Rightarrow> cret x | _ \<Rightarrow> cstop (Undefined Dangling_pointer))
   | Msg_fop p \<Rightarrow> cbind (load p) (\<lambda>ob.
       case ob of Message_obj m \<Rightarrow> cret (msg_fop m) | _ \<Rightarrow> cstop (Undefined Dangling_pointer)))"

definition store_fop :: "fop_ref \<Rightarrow> m0_fop \<Rightarrow> unit cprog" where
  "store_fop f x = (case f of
     Own_fop p \<Rightarrow> store p (Fop_obj x)
   | Msg_fop p \<Rightarrow> cbind (load p) (\<lambda>ob.
       case ob of Message_obj m \<Rightarrow> store p (Message_obj (m\<lparr>msg_fop := x\<rparr>))
       | _ \<Rightarrow> cstop (Undefined Dangling_pointer)))"

definition modify_fop :: "fop_ref \<Rightarrow> (m0_fop \<Rightarrow> m0_fop) \<Rightarrow> unit cprog" where
  "modify_fop f g = cbind (load_fop f) (\<lambda>x. store_fop f (g x))"

definition load_bytes :: "addr \<Rightarrow> u8 list cprog" where
  "load_bytes p = cbind (load p) (\<lambda>ob.
     case ob of Bytes_obj bs \<Rightarrow> cret bs | _ \<Rightarrow> cstop (Undefined Dangling_pointer))"

text \<open>\<open>m0_fop_data\<close> of a fop of the rpclite type.\<close>

definition rpclite_data :: "fop_ref \<Rightarrow> rpclite_fop cprog" where
  "rpclite_data f = cbind (load_fop f) (\<lambda>x.
     case fop_data x of Rpclite_data d \<Rightarrow> cret d | _ \<Rightarrow> cstop (Undefined Dangling_pointer))"

definition set_rpclite_data :: "fop_ref \<Rightarrow> rpclite_fop \<Rightarrow> unit cprog" where
  "set_rpclite_data f d = modify_fop f (\<lambda>x. x\<lparr>fop_data := Rpclite_data d\<rparr>)"

section \<open>Filling a fop\<close>

text \<open>\<open>iov_base\<close> is the memory that may be read from the base pointer on.\<close>

record iovec =
  iov_base :: "u8 list"
  iov_len :: u64

text \<open>\<open>memcpy(dst + offset, iov_base, iov_len)\<close>, with \<open>offset\<close> an \<open>int\<close>.\<close>

definition memcpy :: "addr \<Rightarrow> c_int \<Rightarrow> iovec \<Rightarrow> unit cprog" where
  "memcpy p offset seg =
     cbind (load_bytes p) (\<lambda>bs.
     let n = unat (iov_len seg); k = nat (sint offset) in
     if 0 \<le> sint offset \<and> k + n \<le> length bs \<and> n \<le> length (iov_base seg)
     then store p (Bytes_obj (take k bs @ take n (iov_base seg) @ drop (k + n) bs))
     else cstop (Undefined Out_of_bounds))"

text \<open>
  The two loops, over the indices \<open>i = 0, \<dots>, segment_count - 1\<close>. Adding a \<open>size_t\<close> to an \<open>int\<close>
  and assigning the result to the \<open>int\<close> keeps the low 32 bits.
\<close>

fun sum_segments :: "iovec list \<Rightarrow> nat list \<Rightarrow> c_int \<Rightarrow> c_int cprog" where
  "sum_segments segs [] acc = cret acc"
| "sum_segments segs (i # is) acc =
     (if i < length segs then sum_segments segs is (acc + ucast (iov_len (segs ! i)))
      else cstop (Undefined Out_of_bounds))"

fun copy_segments :: "addr \<Rightarrow> iovec list \<Rightarrow> nat list \<Rightarrow> c_int \<Rightarrow> unit cprog" where
  "copy_segments p segs [] offset = cret ()"
| "copy_segments p segs (i # is) offset =
     (if i < length segs
      then cthen (memcpy p offset (segs ! i))
             (copy_segments p segs is (offset + ucast (iov_len (segs ! i))))
      else cstop (Undefined Out_of_bounds))"

definition segment_indices :: "c_int \<Rightarrow> nat list" where
  "segment_indices segment_count = [0..<nat (sint segment_count)]"

text \<open>\<open>M0_ALLOC_ARR\<close> of a byte array: the \<open>int\<close> is widened to a \<open>size_t\<close>; the memory is zeroed.\<close>

definition fill_rpclite_fop :: "env \<Rightarrow> fop_ref \<Rightarrow> iovec list \<Rightarrow> c_int \<Rightarrow> unit cprog" where
  "fill_rpclite_fop env f segments segment_count =
     cbind (sum_segments segments (segment_indices segment_count) 0) (\<lambda>sum.
     cbind (rpclite_data f) (\<lambda>d.
     cthen (set_rpclite_data f (d\<lparr>f_count := sum\<rparr>)) (
     cbind (alloc env (Bytes (scast sum)) (Bytes_obj (replicate (unat (scast sum :: u64)) 0))) (\<lambda>p.
     cthen (set_rpclite_data f \<lparr>f_count = sum, f_fragments = p\<rparr>) (
     cthen (cassert (p \<noteq> NULL)) (
     copy_segments p segments (segment_indices segment_count) 0))))))"

section \<open>Reading a fop\<close>

text \<open>A received item is its fop; the index of the fragment is ignored.\<close>

definition rpc_get_fragments_count :: "addr \<Rightarrow> c_int cprog" where
  "rpc_get_fragments_count it = cret 1"

definition rpc_get_fragment_count :: "addr \<Rightarrow> c_int \<Rightarrow> c_int cprog" where
  "rpc_get_fragment_count it i = cbind (rpclite_data (Own_fop it)) (\<lambda>d. cret (f_count d))"

definition rpc_get_fragment :: "addr \<Rightarrow> c_int \<Rightarrow> addr cprog" where
  "rpc_get_fragment it i = cbind (rpclite_data (Own_fop it)) (\<lambda>d. cret (f_fragments d))"

definition rpc_get_connection_id :: "addr \<Rightarrow> rpc_session cprog" where
  "rpc_get_connection_id it = cbind (load_fop (Own_fop it)) (\<lambda>x. cret (ri_session x))"

section \<open>How a fop is reached\<close>

definition fop_addr :: "fop_ref \<Rightarrow> addr" where
  "fop_addr f = (case f of Own_fop p \<Rightarrow> p | Msg_fop p \<Rightarrow> p)"

definition fop_at :: "world \<Rightarrow> fop_ref \<Rightarrow> m0_fop option" where
  "fop_at w f = (case (f, w_heap w (fop_addr f)) of
     (Own_fop p, Some (Fop_obj x)) \<Rightarrow> if p = NULL then None else Some x
   | (Msg_fop p, Some (Message_obj m)) \<Rightarrow> if p = NULL then None else Some (msg_fop m)
   | _ \<Rightarrow> None)"

definition put_fop :: "fop_ref \<Rightarrow> m0_fop \<Rightarrow> world \<Rightarrow> world" where
  "put_fop f x w = (case (f, w_heap w (fop_addr f)) of
     (Own_fop p, Some (Fop_obj _)) \<Rightarrow> mem_put p (Fop_obj x) w
   | (Msg_fop p, Some (Message_obj m)) \<Rightarrow> mem_put p (Message_obj (m\<lparr>msg_fop := x\<rparr>)) w
   | _ \<Rightarrow> w)"

lemmas fop_place_defs = fop_addr_def fop_at_def put_fop_def

lemma fop_atE:
  assumes "fop_at w f = Some x"
  obtains (Own) p where "f = Own_fop p" "p \<noteq> NULL" "w_heap w p = Some (Fop_obj x)"
  | (Msg) p m where "f = Msg_fop p" "p \<noteq> NULL" "w_heap w p = Some (Message_obj m)" "x = msg_fop m"
  using assms
  by (auto simp: fop_place_defs split: fop_ref.splits option.splits obj.splits if_splits)

lemma fop_at_addr: "fop_at w f = Some x \<Longrightarrow> \<exists>ob. w_heap w (fop_addr f) = Some ob"
  by (erule fop_atE) (auto simp: fop_addr_def)

lemma load_fop_run [world_simps]: "fop_at w f = Some x \<Longrightarrow> load_fop f w = Done x w"
  by (erule fop_atE) (auto simp: load_fop_def prog_simps world_simps)

lemma store_fop_run [world_simps]: "fop_at w f = Some x \<Longrightarrow> store_fop f y w = Done () (put_fop f y w)"
  by (erule fop_atE) (auto simp: store_fop_def fop_place_defs prog_simps world_simps)

lemma modify_fop_run [world_simps]:
  "fop_at w f = Some x \<Longrightarrow> modify_fop f g w = Done () (put_fop f (g x) w)"
  by (simp add: modify_fop_def prog_simps world_simps)

lemma fop_at_put: "fop_at w f = Some x \<Longrightarrow> fop_at (put_fop f y w) f = Some y"
  by (erule fop_atE) (auto simp: fop_place_defs)

lemma fop_at_put_fop [simp]: "fop_at (put_fop f y w) f = map_option (\<lambda>_. y) (fop_at w f)"
  by (auto simp: fop_place_defs split: fop_ref.splits option.splits obj.splits)

lemma fop_at_other [simp]:
  "fop_at (log_call c a w) f = fop_at w f"
  "fop_at (w\<lparr>w_next := k\<rparr>) f = fop_at w f"
  "fop_at (w\<lparr>w_log := l\<rparr>) f = fop_at w f"
  "fop_addr f \<noteq> q \<Longrightarrow> fop_at (mem_put q ob w) f = fop_at w f"
  by (simp_all add: fop_at_def)

lemma wp_load_fop [wp_rules]:
  "(\<And>x. fop_at w f = Some x \<Longrightarrow> Q x w) \<Longrightarrow> (\<And>u. fop_at w f = None \<Longrightarrow> E (Undefined u) w) \<Longrightarrow>
   wp (load_fop f) Q E w"
  unfolding load_fop_def
  by (auto simp: wp_def fop_place_defs prog_simps load_def split: fop_ref.splits option.splits obj.splits)

lemma wp_modify_fop [wp_rules]:
  "(\<And>x. fop_at w f = Some x \<Longrightarrow> Q () (put_fop f (g x) w)) \<Longrightarrow>
   (\<And>u. fop_at w f = None \<Longrightarrow> E (Undefined u) w) \<Longrightarrow> wp (modify_fop f g) Q E w"
  unfolding modify_fop_def
  by (intro wp_rules) (auto simp: wp_def store_fop_run)

lemma put_fop_put: "fop_at w f = Some x \<Longrightarrow> put_fop f z (put_fop f y w) = put_fop f z w"
  by (erule fop_atE) (auto simp: fop_place_defs mem_put_def)

lemma put_fop_same: "fop_at w f = Some x \<Longrightarrow> put_fop f x w = w"
  by (erule fop_atE) (auto simp: fop_place_defs mem_put_def fun_upd_idem)

lemma fop_at_heap_cong: "w_heap w' (fop_addr f) = w_heap w (fop_addr f) \<Longrightarrow> fop_at w' f = fop_at w f"
  by (simp add: fop_at_def)

lemma put_fop_mem_put:
  "fop_addr f \<noteq> q \<Longrightarrow> put_fop f y (mem_put q ob w) = mem_put q ob (put_fop f y w)"
  by (auto simp: put_fop_def fop_addr_def mem_put_def fun_upd_twist
      split: fop_ref.splits option.splits obj.splits)

lemma put_fop_log_call: "put_fop f y (log_call c a w) = log_call c a (put_fop f y w)"
  by (auto simp: put_fop_def fop_addr_def mem_put_def log_call_def
      split: fop_ref.splits option.splits obj.splits)

lemma put_fop_next: "put_fop f y (w\<lparr>w_next := n\<rparr>) = (put_fop f y w)\<lparr>w_next := n\<rparr>"
  by (auto simp: put_fop_def fop_addr_def mem_put_def
      split: fop_ref.splits option.splits obj.splits)

lemma put_fop_sel [simp]:
  "w_log (put_fop f y w) = w_log w"
  "w_next (put_fop f y w) = w_next w"
  "client_max_epoch (put_fop f y w) = client_max_epoch w"
  "rpc_stat (put_fop f y w) = rpc_stat w"
  "rpclite_listen_cbs (put_fop f y w) = rpclite_listen_cbs w"
  "q \<noteq> fop_addr f \<Longrightarrow> w_heap (put_fop f y w) q = w_heap w q"
  by (auto simp: put_fop_def fop_addr_def split: fop_ref.splits option.splits obj.splits)

section \<open>Lengths in an \<open>int\<close>\<close>

lemma even_div_half:
  assumes "(0 :: int) \<le> u" and "u < 2 * m"
  shows "even (u div m) \<longleftrightarrow> u < m"
proof (cases "u < m")
  case True
  then show ?thesis using assms(1) by (simp add: div_pos_pos_trivial)
next
  case False
  then have "u div m = 1" using assms by (intro int_div_pos_eq [where r = "u - m"]) auto
  with False show ?thesis by simp
qed

lemma sint_nonneg_iff: "0 \<le> sint (x :: c_int) \<longleftrightarrow> unat x < 2 ^ 31"
proof -
  have "0 \<le> sint x \<longleftrightarrow> even (uint x div 2 ^ 31)"
    by (simp add: sint_uint signed_take_bit_nonnegative_iff bit_iff_odd)
  also have "\<dots> \<longleftrightarrow> uint x < 2 ^ 31"
    using uint_lt2p [of x] by (intro even_div_half) simp_all
  also have "\<dots> \<longleftrightarrow> unat x < 2 ^ 31"
    by (simp add: nat_less_iff flip: nat_uint_eq)
  finally show ?thesis .
qed

lemma sint_small:
  assumes "unat (x :: c_int) < 2 ^ 31"
  shows "sint x = int (unat x)"
proof -
  have "uint x < 2 ^ 31" using assms by (simp add: nat_less_iff flip: nat_uint_eq)
  moreover have "0 \<le> uint x" by simp
  ultimately have "- (2 ^ 31) \<le> uint x \<and> uint x < 2 ^ 31" by linarith
  then have "signed_take_bit 31 (uint x) = uint x" by (simp only: signed_take_bit_int_eq_self_iff)
  then show ?thesis by (simp add: sint_uint)
qed

lemma scast_small: "unat (x :: c_int) < 2 ^ 31 \<Longrightarrow> unat (scast x :: u64) = unat x"
  by (simp add: scast_eq sint_small unat_of_nat_bounded)

lemma scast_negative:
  assumes "\<not> unat (x :: c_int) < 2 ^ 31"
  shows "2 ^ 63 \<le> unat (scast x :: u64)"
proof -
  have s: "sint x < 0" "- (2 ^ 31) \<le> sint x"
    using assms sint_nonneg_iff [of x] sint_ge [of x] by auto
  have "uint (scast x :: u64) = sint x mod 2 ^ 64"
    by (simp only: scast_eq uint_word_of_int) simp
  also have "\<dots> = (sint x + 2 ^ 64) mod 2 ^ 64" by (rule mod_add_self2 [symmetric])
  also have "\<dots> = sint x + 2 ^ 64" using s by (intro mod_pos_pos_trivial) auto
  finally have "uint (scast x :: u64) = sint x + 2 ^ 64" .
  moreover have "(2 :: int) ^ 63 \<le> 2 ^ 64 - 2 ^ 31" by simp
  ultimately have "2 ^ 63 \<le> uint (scast x :: u64)" using s by linarith
  then have "nat (2 ^ 63) \<le> nat (uint (scast x :: u64))" by (rule nat_mono)
  then show ?thesis by (simp add: nat_power_eq)
qed

lemma unat_ucast_small: "unat (n :: u64) < 2 ^ 32 \<Longrightarrow> unat (ucast n :: c_int) = unat n"
  by (simp add: unsigned_ucast_eq take_bit_nat_eq_self)

section \<open>How filling runs\<close>

definition seg_bytes :: "iovec \<Rightarrow> u8 list" where
  "seg_bytes s = take (unat (iov_len s)) (iov_base s)"

definition readable :: "iovec \<Rightarrow> bool" where
  "readable s \<longleftrightarrow> unat (iov_len s) \<le> length (iov_base s)"

definition total_len :: "iovec list \<Rightarrow> nat" where
  "total_len ss = sum_list (map (\<lambda>s. unat (iov_len s)) ss)"

lemma total_len_simps [simp]:
  "total_len [] = 0" "total_len (s # ss) = unat (iov_len s) + total_len ss"
  by (simp_all add: total_len_def)

lemma length_seg_bytes: "readable s \<Longrightarrow> length (seg_bytes s) = unat (iov_len s)"
  by (simp add: seg_bytes_def readable_def)

lemma length_concat_seg_bytes:
  "\<forall>s\<in>set ss. readable s \<Longrightarrow> length (concat (map seg_bytes ss)) = total_len ss"
  by (induction ss) (auto simp: length_seg_bytes)

definition len_sum :: "iovec list \<Rightarrow> c_int" where
  "len_sum ss = sum_list (map (\<lambda>s. ucast (iov_len s)) ss)"

lemma sum_segments_run:
  "\<forall>i\<in>set is. i < length segs \<Longrightarrow>
   sum_segments segs is acc w = Done (acc + len_sum (map ((!) segs) is)) w"
  by (induction "is" arbitrary: acc) (auto simp: len_sum_def prog_simps algebra_simps)

lemma unat_len_sum: "unat (len_sum ss) = total_len ss mod 2 ^ 32"
proof (induction ss)
  case Nil
  then show ?case by (simp add: len_sum_def)
next
  case (Cons s ss)
  have "len_sum (s # ss) = ucast (iov_len s) + len_sum ss" by (simp add: len_sum_def)
  then have "unat (len_sum (s # ss)) = (unat (iov_len s) mod 2 ^ 32 + unat (len_sum ss)) mod 2 ^ 32"
    by (simp add: unat_word_ariths unsigned_ucast_eq take_bit_eq_mod)
  with Cons show ?case by (simp add: mod_simps)
qed

lemma memcpy_run:
  assumes "p \<noteq> NULL" and "w_heap w p = Some (Bytes_obj (pre @ suf))" and "unat offset = length pre"
    and "length pre < 2 ^ 31" and "readable s" and "unat (iov_len s) \<le> length suf"
  shows "memcpy p offset s w =
    Done () (mem_put p (Bytes_obj (pre @ seg_bytes s @ drop (unat (iov_len s)) suf)) w)"
  using assms sint_small [of offset]
  by (simp add: memcpy_def load_bytes_def readable_def seg_bytes_def prog_simps world_simps Let_def)

lemma memcpy_Done:
  assumes "memcpy p offset s w = Done u w'" and "w_heap w p = Some (Bytes_obj bs)"
  shows "unat offset < 2 ^ 31 \<and> unat offset + unat (iov_len s) \<le> length bs \<and>
    (\<exists>bs'. length bs' = length bs \<and> w_heap w' p = Some (Bytes_obj bs'))"
  using assms sint_small [of offset] sint_nonneg_iff [of offset]
  by (cases "p = NULL")
    (auto simp: memcpy_def load_bytes_def prog_simps world_simps Let_def split: if_splits)

lemma mem_put_same: "w_heap w p = Some ob \<Longrightarrow> mem_put p ob w = w"
  by (simp add: mem_put_def fun_upd_idem)

lemma mem_put_log_call: "mem_put p ob (log_call c a w) = log_call c a (mem_put p ob w)"
  by (simp add: mem_put_def log_call_def)

lemma mem_put_put [simp]: "mem_put p ob (mem_put p ob' w) = mem_put p ob w"
  by (simp add: mem_put_def)

lemma copy_segments_run:
  assumes "\<forall>i\<in>set is. i < length segs \<and> readable (segs ! i)" and "p \<noteq> NULL"
    and "w_heap w p = Some (Bytes_obj (pre @ suf))" and "unat offset = length pre"
    and "length (pre @ suf) < 2 ^ 31" and "total_len (map ((!) segs) is) \<le> length suf"
  shows "copy_segments p segs is offset w =
    Done () (mem_put p (Bytes_obj (pre @ concat (map seg_bytes (map ((!) segs) is)) @
      drop (total_len (map ((!) segs) is)) suf)) w)"
  using assms
proof (induction "is" arbitrary: pre suf offset w)
  case Nil
  then show ?case by (simp add: prog_simps mem_put_same)
next
  case (Cons i "is")
  let ?s = "segs ! i" and ?n = "unat (iov_len (segs ! i))"
  let ?w = "mem_put p (Bytes_obj ((pre @ seg_bytes ?s) @ drop ?n suf)) w"
  have n: "readable ?s" "?n \<le> length suf" using Cons.prems(1,6) by auto
  have cpy: "memcpy p offset ?s w = Done () ?w"
    using memcpy_run [OF Cons.prems(2,3,4) _ n] Cons.prems(5) by simp
  have "unat (offset + ucast (iov_len ?s)) = length (pre @ seg_bytes ?s)"
    using Cons.prems(4,5) n by (subst unat_word_add_bounded) (auto simp: unat_ucast_small length_seg_bytes)
  then have "copy_segments p segs is (offset + ucast (iov_len ?s)) ?w =
    Done () (mem_put p (Bytes_obj ((pre @ seg_bytes ?s) @ concat (map seg_bytes (map ((!) segs) is)) @
      drop (total_len (map ((!) segs) is)) (drop ?n suf))) ?w)"
    using Cons.prems n by (intro Cons.IH) (auto simp: length_seg_bytes)
  then show ?case using Cons.prems(1) cpy by (simp add: prog_simps add.commute)
qed

text \<open>If copying returns at all, it has stayed inside the block.\<close>

lemma copy_segments_Done:
  assumes "copy_segments p segs is offset w = Done u w'" and "w_heap w p = Some (Bytes_obj bs)"
    and "length bs < 2 ^ 31" and "unat offset \<le> length bs"
  shows "unat offset + total_len (map ((!) segs) is) \<le> length bs"
  using assms
proof (induction "is" arbitrary: offset w bs)
  case Nil
  then show ?case by simp
next
  case (Cons i "is")
  obtain w1 where w1: "memcpy p offset (segs ! i) w = Done () w1"
    and rest: "copy_segments p segs is (offset + ucast (iov_len (segs ! i))) w1 = Done u w'"
    using Cons.prems(1) by (auto simp: prog_simps split: if_splits outcome.splits)
  obtain bs' where bs': "unat offset + unat (iov_len (segs ! i)) \<le> length bs" "length bs' = length bs"
      "w_heap w1 p = Some (Bytes_obj bs')"
    using memcpy_Done [OF w1 Cons.prems(2)] by auto
  then have "unat (offset + ucast (iov_len (segs ! i))) = unat offset + unat (iov_len (segs ! i))"
    using Cons.prems(3) by (subst unat_word_add_bounded) (auto simp: unat_ucast_small)
  with Cons.IH [OF rest bs'(3)] bs' Cons.prems(3) show ?case by simp
qed

definition rpclite_fop_at :: "world \<Rightarrow> fop_ref \<Rightarrow> bool" where
  "rpclite_fop_at w f \<longleftrightarrow> (\<exists>x d. fop_at w f = Some x \<and> fop_data x = Rpclite_data d)"

text \<open>The segments a call with this count reads.\<close>

definition the_segments :: "iovec list \<Rightarrow> c_int \<Rightarrow> iovec list" where
  "the_segments segs n = take (nat (sint n)) segs"

definition good_segments :: "iovec list \<Rightarrow> c_int \<Rightarrow> bool" where
  "good_segments segs n \<longleftrightarrow> nat (sint n) \<le> length segs \<and> (\<forall>s\<in>set (the_segments segs n). readable s)"

lemma map_nth_indices:
  "nat (sint n) \<le> length segs \<Longrightarrow> map ((!) segs) (segment_indices n) = the_segments segs n"
  by (rule nth_equalityI) (simp_all add: segment_indices_def the_segments_def)

lemma good_indices:
  assumes "good_segments segs n"
  shows "\<forall>i\<in>set (segment_indices n). i < length segs \<and> readable (segs ! i)"
proof
  fix i
  assume i: "i \<in> set (segment_indices n)"
  then have "i < length segs" and "segs ! i = the_segments segs n ! i" "i < length (the_segments segs n)"
    using assms by (auto simp: segment_indices_def good_segments_def the_segments_def)
  then show "i < length segs \<and> readable (segs ! i)"
    using assms by (metis good_segments_def nth_mem)
qed

lemma copy_segments_Stop:
  assumes "copy_segments p segs is offset w = Stop r w'" and "w_heap w p = Some (Bytes_obj bs)"
    and "p \<noteq> NULL"
  shows "r = Undefined Out_of_bounds"
  using assms
proof (induction "is" arbitrary: offset w bs)
  case Nil
  then show ?case by (simp add: prog_simps)
next
  case (Cons i "is")
  have cpy: "memcpy p offset (segs ! i) w = Stop r' w'' \<Longrightarrow> r' = Undefined Out_of_bounds" for r' w''
    using Cons.prems(2,3)
    by (auto simp: memcpy_def load_bytes_def prog_simps world_simps Let_def split: if_splits)
  show ?case
  proof (cases "i < length segs")
    case True
    show ?thesis
    proof (cases "memcpy p offset (segs ! i) w")
      case (Done u w1)
      moreover obtain bs' where "w_heap w1 p = Some (Bytes_obj bs')"
        using memcpy_Done [OF Done Cons.prems(2)] by blast
      ultimately show ?thesis using Cons.IH Cons.prems(1,3) True by (auto simp: prog_simps)
    next
      case (Stop r' w1)
      then show ?thesis using Cons.prems(1) True cpy by (simp add: prog_simps)
    qed
  next
    case False
    then show ?thesis using Cons.prems(1) by (simp add: prog_simps)
  qed
qed

text \<open>The world after filling: one new block, and the fop refers to it.\<close>

definition data_put :: "fop_ref \<Rightarrow> c_int \<Rightarrow> addr \<Rightarrow> world \<Rightarrow> world" where
  "data_put f sm q w = put_fop f ((the (fop_at w f))\<lparr>fop_data :=
     Rpclite_data \<lparr>f_count = sm, f_fragments = q\<rparr>\<rparr>) w"

definition filled :: "fop_ref \<Rightarrow> iovec list \<Rightarrow> world \<Rightarrow> world" where
  "filled f ss w =
     (let q = w_next w in
      mem_put q (Bytes_obj (concat (map seg_bytes ss)))
        (data_put f (len_sum ss) q
          (log_call (Sys (Malloc (Bytes (scast (len_sum ss))))) (RAddr q) (w\<lparr>w_next := Suc q\<rparr>))))"

lemma fop_addr_live: "wf_world w \<Longrightarrow> fop_at w f = Some x \<Longrightarrow> 0 < fop_addr f \<and> fop_addr f < w_next w"
  using fop_at_addr wf_world_live by blast

lemma fill_to_copy:
  assumes "wf_world w" and "rpclite_fop_at w f" and "good_segments segs n"
    and "ans_alloc env (w_log w) (Bytes (scast (len_sum ss)))" and "ss = the_segments segs n"
  shows "fill_rpclite_fop env f segs n w =
    copy_segments (w_next w) segs (segment_indices n) 0
      (mem_put (w_next w) (Bytes_obj (replicate (unat (scast (len_sum ss) :: u64)) 0)) (filled f ss w))"
proof -
  obtain x d where x: "fop_at w f = Some x" "fop_data x = Rpclite_data d"
    using assms(2) by (auto simp: rpclite_fop_at_def)
  have q: "fop_addr f \<noteq> w_next w" using fop_addr_live [OF assms(1) x(1)] by simp
  have sum: "sum_segments segs (segment_indices n) 0 w = Done (len_sum ss) w"
    using good_indices [OF assms(3)] assms(3,5)
    by (simp add: sum_segments_run map_nth_indices good_segments_def)
  show ?thesis
    using assms(4) q wf_world_next [OF assms(1)]
    by (simp add: fill_rpclite_fop_def sum prog_simps world_simps x rpclite_data_def set_rpclite_data_def
        filled_def data_put_def Let_def put_fop_mem_put put_fop_log_call put_fop_next
        put_fop_put [OF x(1)] mem_put_log_call)
qed

lemma fill_run:
  assumes "wf_world w" and "rpclite_fop_at w f" and "good_segments segs n"
    and "total_len (the_segments segs n) < 2 ^ 31"
    and "ans_alloc env (w_log w) (Bytes (scast (len_sum (the_segments segs n))))"
  shows "fill_rpclite_fop env f segs n w = Done () (filled f (the_segments segs n) w)"
proof -
  let ?ss = "the_segments segs n"
  have len: "unat (scast (len_sum ?ss) :: u64) = total_len ?ss"
    using assms(4) by (simp add: scast_small unat_len_sum)
  have ix: "map ((!) segs) (segment_indices n) = ?ss"
    using assms(3) by (simp add: map_nth_indices good_segments_def)
  have "copy_segments (w_next w) segs (segment_indices n) 0
      (mem_put (w_next w) (Bytes_obj ([] @ replicate (total_len ?ss) 0)) (filled f ?ss w)) =
    Done () (mem_put (w_next w) (Bytes_obj ([] @ concat (map seg_bytes ?ss) @
      drop (total_len ?ss) (replicate (total_len ?ss) 0)))
      (mem_put (w_next w) (Bytes_obj ([] @ replicate (total_len ?ss) 0)) (filled f ?ss w)))"
    unfolding ix [symmetric]
    using good_indices [OF assms(3)] assms(4) wf_world_next [OF assms(1)] ix
    by (intro copy_segments_run) simp_all
  then show ?thesis
    using fill_to_copy [OF assms(1-3,5) refl] by (simp add: len filled_def Let_def)
qed

lemma filled_sel [simp]:
  "w_log (filled f ss w) =
     w_log w @ [(Sys (Malloc (Bytes (scast (len_sum ss)))), RAddr (w_next w))]"
  "w_next (filled f ss w) = Suc (w_next w)"
  "client_max_epoch (filled f ss w) = client_max_epoch w"
  "rpc_stat (filled f ss w) = rpc_stat w"
  "rpclite_listen_cbs (filled f ss w) = rpclite_listen_cbs w"
  "w_heap (filled f ss w) (w_next w) = Some (Bytes_obj (concat (map seg_bytes ss)))"
  "q \<noteq> w_next w \<Longrightarrow> q \<noteq> fop_addr f \<Longrightarrow> w_heap (filled f ss w) q = w_heap w q"
  by (simp_all add: filled_def data_put_def Let_def)

lemma fop_at_filled:
  assumes "wf_world w" and "fop_at w f = Some x"
  shows "fop_at (filled f ss w) f =
    Some (x\<lparr>fop_data := Rpclite_data \<lparr>f_count = len_sum ss, f_fragments = w_next w\<rparr>\<rparr>)"
proof -
  have q: "fop_addr f \<noteq> w_next w" using fop_addr_live [OF assms] by simp
  show ?thesis
    using q assms(2) by (simp add: filled_def data_put_def Let_def)
qed

section \<open>Properties\<close>

text \<open>
  \<open>fill_rpclite_fop\<close> gathers. When the lengths add up to less than \<open>2 ^ 31\<close> and the memory for them
  can be had, it returns with the fop holding the number of bytes and a new block that is exactly the
  concatenation of the segments; no other block and no global variable is touched.
\<close>

theorem fill_rpclite_fop_gathers:
  assumes "wf_world w" and "fop_at w f = Some x" and "fop_data x = Rpclite_data d"
    and "good_segments segs n" and "total_len (the_segments segs n) < 2 ^ 31"
    and "ans_alloc env (w_log w) (Bytes (scast (len_sum (the_segments segs n))))"
  shows "\<exists>w'. fill_rpclite_fop env f segs n w = Done () w' \<and>
    fop_at w' f = Some (x\<lparr>fop_data := Rpclite_data
      \<lparr>f_count = of_nat (total_len (the_segments segs n)), f_fragments = w_next w\<rparr>\<rparr>) \<and>
    w_heap w' (w_next w) = Some (Bytes_obj (concat (map seg_bytes (the_segments segs n)))) \<and>
    length (concat (map seg_bytes (the_segments segs n))) = total_len (the_segments segs n) \<and>
    (\<forall>q. q \<noteq> w_next w \<and> q \<noteq> fop_addr f \<longrightarrow> w_heap w' q = w_heap w q) \<and>
    rpc_stat w' = rpc_stat w \<and> client_max_epoch w' = client_max_epoch w"
proof -
  let ?ss = "the_segments segs n"
  have "unat (len_sum ?ss) = total_len ?ss" using assms(5) by (simp add: unat_len_sum)
  then have "len_sum ?ss = of_nat (total_len ?ss)" by (metis of_nat_unat ucast_id)
  moreover have "fill_rpclite_fop env f segs n w = Done () (filled f ?ss w)"
    using assms by (intro fill_run) (auto simp: rpclite_fop_at_def)
  moreover have "length (concat (map seg_bytes ?ss)) = total_len ?ss"
    using assms(4) by (intro length_concat_seg_bytes) (simp add: good_segments_def)
  ultimately show ?thesis using fop_at_filled [OF assms(1,2)] by simp
qed

definition sample_segments :: "iovec list" where
  "sample_segments = [\<lparr>iov_base = [1, 2, 3], iov_len = 2\<rparr>, \<lparr>iov_base = [], iov_len = 0\<rparr>,
     \<lparr>iov_base = [4, 5], iov_len = 2\<rparr>]"

definition sample_fop :: m0_fop where
  "sample_fop = willing_fop [] (Fop (M0_fop_alloc_at (Session_of 1) Rpclite_fopt))"

definition sample_fop_world :: world where
  "sample_fop_world = initial_world\<lparr>w_heap := [1 \<mapsto> Fop_obj sample_fop], w_next := 2\<rparr>"

lemma sample_count: "sint (3 :: c_int) = 3"
  using sint_small [of "3 :: c_int"] by simp

lemma sample_the_segments: "the_segments sample_segments 3 = sample_segments"
  by (simp add: the_segments_def sample_segments_def sample_count)

lemma sample_facts:
  "wf_world sample_fop_world"
  "fop_at sample_fop_world (Own_fop 1) = Some sample_fop"
  "fop_data sample_fop = Rpclite_data \<lparr>f_count = 0, f_fragments = NULL\<rparr>"
  "good_segments sample_segments 3" "total_len sample_segments = 4"
  "concat (map seg_bytes sample_segments) = [1, 2, 4, 5]"
  "ans_alloc willing_env l (Bytes (scast (len_sum sample_segments)))"
proof -
  show "wf_world sample_fop_world"
    by (simp add: wf_world_def sample_fop_world_def)
  show "fop_at sample_fop_world (Own_fop 1) = Some sample_fop"
    by (simp add: fop_at_def fop_addr_def sample_fop_world_def)
  show "fop_data sample_fop = Rpclite_data \<lparr>f_count = 0, f_fragments = NULL\<rparr>"
    by (simp add: sample_fop_def willing_fop_def)
  show "good_segments sample_segments 3"
    unfolding good_segments_def sample_the_segments
    by (simp add: sample_segments_def readable_def sample_count)
  show four: "total_len sample_segments = 4"
    by (simp add: sample_segments_def)
  show "concat (map seg_bytes sample_segments) = [1, 2, 4, 5]"
    by (simp add: sample_segments_def seg_bytes_def)
  have "unat (scast (len_sum sample_segments) :: u64) = 4"
    by (simp add: scast_small unat_len_sum four)
  then show "ans_alloc willing_env l (Bytes (scast (len_sum sample_segments)))"
    by (simp add: willing_env_def)
qed

text \<open>An allocator refuses sizes that no object can have.\<close>

definition no_huge_alloc :: "env \<Rightarrow> bool" where
  "no_huge_alloc env \<longleftrightarrow> (\<forall>l b. 2 ^ 63 \<le> unat b \<longrightarrow> \<not> ans_alloc env l (Bytes b))"

lemma fill_no_memory:
  assumes "wf_world w" and "rpclite_fop_at w f" and "good_segments segs n"
    and "\<not> ans_alloc env (w_log w) (Bytes (scast (len_sum (the_segments segs n))))"
  shows "\<exists>w'. fill_rpclite_fop env f segs n w = Stop Assertion_failed w'"
proof -
  let ?ss = "the_segments segs n"
  obtain x d where x: "fop_at w f = Some x" "fop_data x = Rpclite_data d"
    using assms(2) by (auto simp: rpclite_fop_at_def)
  have sum: "sum_segments segs (segment_indices n) 0 w = Done (len_sum ?ss) w"
    using good_indices [OF assms(3)] assms(3)
    by (simp add: sum_segments_run map_nth_indices good_segments_def)
  let ?y = "x\<lparr>fop_data := Rpclite_data (d\<lparr>f_count := len_sum ?ss\<rparr>)\<rparr>"
  have "fop_at (log_call c a (put_fop f ?y w)) f = Some ?y" for c a
    using fop_at_put [OF x(1)] by (simp add: fop_at_def)
  then show ?thesis
    using assms(4)
    by (simp add: fill_rpclite_fop_def sum prog_simps world_simps x rpclite_data_def
        set_rpclite_data_def)
qed

text \<open>
  C27. The lengths are added in an \<open>int\<close>, and nothing checks that they fit. When they add up to
  \<open>2 ^ 31\<close> or more, \<open>fill_rpclite_fop\<close> never returns: it fails its assertion on the allocated block
  (the sum was negative), or the sum has wrapped to a small number and a \<open>memcpy\<close> writes beyond the block.
\<close>

theorem fill_rpclite_fop_overflow:
  assumes "wf_world w" and "rpclite_fop_at w f" and "good_segments segs n" and "no_huge_alloc env"
    and "2 ^ 31 \<le> total_len (the_segments segs n)"
  shows "\<exists>r w'. fill_rpclite_fop env f segs n w = Stop r w' \<and>
    (r = Assertion_failed \<or> r = Undefined Out_of_bounds)"
proof -
  let ?ss = "the_segments segs n"
  let ?n = "unat (scast (len_sum ?ss) :: u64)"
  show ?thesis
  proof (cases "ans_alloc env (w_log w) (Bytes (scast (len_sum ?ss)))")
    case False
    then show ?thesis using fill_no_memory [OF assms(1-3)] by blast
  next
    case True
    then have small: "unat (len_sum ?ss) < 2 ^ 31"
      using assms(4) scast_negative by (auto simp: no_huge_alloc_def)
    let ?w = "mem_put (w_next w) (Bytes_obj (replicate ?n 0)) (filled f ?ss w)"
    have run: "fill_rpclite_fop env f segs n w =
        copy_segments (w_next w) segs (segment_indices n) 0 ?w"
      using fill_to_copy [OF assms(1-3) True refl] .
    have heap: "w_heap ?w (w_next w) = Some (Bytes_obj (replicate ?n 0))" by simp
    show ?thesis
    proof (cases "copy_segments (w_next w) segs (segment_indices n) 0 ?w")
      case (Done u w')
      have "total_len ?ss \<le> ?n"
        using copy_segments_Done [OF Done heap] small assms(3)
        by (simp add: scast_small map_nth_indices good_segments_def)
      then show ?thesis using small assms(5) by (simp add: scast_small)
    next
      case (Stop r w')
      then show ?thesis
        using copy_segments_Stop [OF Stop heap] run wf_world_next [OF assms(1)] by simp
    qed
  qed
qed

text \<open>Two segments of 2 GiB and one of 4 bytes: the sum wraps to 4.\<close>

definition huge_segments :: "iovec list" where
  "huge_segments =
     [\<lparr>iov_base = replicate (2 ^ 31) 0, iov_len = 2 ^ 31\<rparr>,
      \<lparr>iov_base = replicate (2 ^ 31) 0, iov_len = 2 ^ 31\<rparr>,
      \<lparr>iov_base = [1, 2, 3, 4], iov_len = 4\<rparr>]"

theorem fill_rpclite_fop_overflow_witness:
  "\<exists>r w'. fill_rpclite_fop willing_env (Own_fop 1) huge_segments 3 sample_fop_world = Stop r w' \<and>
     (r = Assertion_failed \<or> r = Undefined Out_of_bounds)"
proof -
  have ss: "the_segments huge_segments 3 = huge_segments"
    by (simp add: the_segments_def huge_segments_def sample_count)
  have len: "length huge_segments = 3" by (simp add: huge_segments_def)
  have "\<forall>s\<in>set huge_segments. readable s"
    by (simp add: huge_segments_def readable_def)
  then have "good_segments huge_segments 3"
    by (simp add: good_segments_def ss len sample_count)
  moreover have "2 ^ 31 \<le> total_len (the_segments huge_segments 3)"
    by (simp add: ss) (simp add: huge_segments_def)
  moreover have "rpclite_fop_at sample_fop_world (Own_fop 1)"
    using sample_facts(2,3) by (simp add: rpclite_fop_at_def)
  moreover have "no_huge_alloc willing_env"
    by (simp add: no_huge_alloc_def willing_env_def)
  ultimately show ?thesis
    using fill_rpclite_fop_overflow [OF sample_facts(1)] by blast
qed

text \<open>
  C24. The receiver reads back what the sender gathered: on a fop that \<open>fill_rpclite_fop\<close> filled, the
  receiver's functions report one fragment, its length is the sum of the lengths of the segments, and the
  block it points to holds their concatenation, whatever index is asked for.
\<close>

theorem fill_then_get_fragment:
  assumes "wf_world w" and "rpclite_fop_at w (Own_fop p)" and "good_segments segs n"
    and "total_len (the_segments segs n) < 2 ^ 31"
    and "fill_rpclite_fop env (Own_fop p) segs n w = Done () w'"
  shows "\<exists>k q. rpc_get_fragments_count p w' = Done 1 w' \<and>
    rpc_get_fragment_count p i w' = Done k w' \<and> sint k = int (total_len (the_segments segs n)) \<and>
    rpc_get_fragment p i w' = Done q w' \<and>
    w_heap w' q = Some (Bytes_obj (concat (map seg_bytes (the_segments segs n))))"
proof -
  let ?ss = "the_segments segs n"
  have "ans_alloc env (w_log w) (Bytes (scast (len_sum ?ss)))"
    using fill_no_memory [OF assms(1-3)] assms(5) by fastforce
  then have w': "w' = filled (Own_fop p) ?ss w"
    using fill_run [OF assms(1-4)] assms(5) by simp
  obtain x where x: "fop_at w (Own_fop p) = Some x"
    using assms(2) by (auto simp: rpclite_fop_at_def)
  have "sint (len_sum ?ss) = int (total_len ?ss)"
    using assms(4) by (simp add: sint_small unat_len_sum)
  then show ?thesis
    using w' fop_at_filled [OF assms(1) x]
    by (simp add: rpc_get_fragments_count_def rpc_get_fragment_count_def rpc_get_fragment_def
        rpclite_data_def prog_simps world_simps)
qed

theorem fill_then_get_fragment_witness:
  "\<exists>w' q. fill_rpclite_fop willing_env (Own_fop 1) sample_segments 3 sample_fop_world = Done () w' \<and>
     rpc_get_fragment 1 0 w' = Done q w' \<and> w_heap w' q = Some (Bytes_obj [1, 2, 4, 5])"
proof -
  have at: "rpclite_fop_at sample_fop_world (Own_fop 1)"
    using sample_facts(2,3) by (simp add: rpclite_fop_at_def)
  have "fill_rpclite_fop willing_env (Own_fop 1) sample_segments 3 sample_fop_world =
      Done () (filled (Own_fop 1) sample_segments sample_fop_world)"
    using fill_run [OF sample_facts(1) at sample_facts(4)] sample_facts(5,7)
    by (simp add: sample_the_segments)
  with fill_then_get_fragment [OF sample_facts(1) at sample_facts(4) _ this] sample_facts(5,6)
  show ?thesis by (force simp: sample_the_segments)
qed

end
