(* ===== verification/Rpclite_Send.thy ===== *)
theory Rpclite_Send
  imports Rpclite_Fop
begin

text \<open>
  Sending (\<^verbatim>\<open>rpclite.c\<close>): the blocking call, which waits in Mero and drops its reference to the fop, and
  the asynchronous one, whose message carries the caller's callback until \<open>rpclite_replied\<close> runs.
\<close>

definition ITEM_SIZE_CUSHION :: u64 where
  "ITEM_SIZE_CUSHION = 128"

definition ETIMEDOUT :: c_int where
  "ETIMEDOUT = 110"

text \<open>
  \<open>m0_fop_alloc_at\<close> gives \<open>NULL\<close> or a new fop, whose contents are Mero's choice.
\<close>

definition fop_alloc_at :: "env \<Rightarrow> rpc_session \<Rightarrow> fop_type \<Rightarrow> addr cprog" where
  "fop_alloc_at env s t = (\<lambda>w.
     let c = Fop (M0_fop_alloc_at s t) in
     if ans_addr env (w_log w) c = NULL then Done NULL (log_call c (RAddr NULL) w)
     else Done (w_next w)
            (log_call c (RAddr (w_next w))
              (mem_put (w_next w) (Fop_obj (ans_fop env (w_log w) c)) (w\<lparr>w_next := Suc (w_next w)\<rparr>))))"

text \<open>The size check both ways of sending make, and the message it prints before \<open>exit(1)\<close>.\<close>

definition item_too_big :: "env \<Rightarrow> fop_ref \<Rightarrow> rpc_session \<Rightarrow> bool cprog" where
  "item_too_big env f s =
     cbind (ext_u64 env (Fop (M0_fop_payload_size f))) (\<lambda>size.
     cbind (ext_u64 env (Conn (M0_rpc_session_get_max_item_size s))) (\<lambda>max_size.
     cret (size + ITEM_SIZE_CUSHION > max_size)))"

definition exit_too_big :: "env \<Rightarrow> fop_ref \<Rightarrow> rpc_session \<Rightarrow> c_int cprog" where
  "exit_too_big env f s =
     cbind (ext_u64 env (Fop (M0_fop_payload_size f))) (\<lambda>_.
     cbind (ext_u64 env (Conn (M0_rpc_session_get_max_item_size s))) (\<lambda>_.
     cstop (Exit 1)))"

definition rpc_send_fop_blocking_and_release :: "env \<Rightarrow> addr \<Rightarrow> addr \<Rightarrow> c_int \<Rightarrow> c_int cprog" where
  "rpc_send_fop_blocking_and_release env c fop timeout_s =
     cthen (cassert (fop \<noteq> NULL)) (
     cbind (item_too_big env (Own_fop fop) (rpc_get_session c)) (\<lambda>too_big.
     if too_big then exit_too_big env (Own_fop fop) (rpc_get_session c) else
     cthen (modify_fop (Own_fop fop) (\<lambda>x. x\<lparr>ri_nr_sent_max := 1\<rparr>)) (
     cbind (ext_u64 env (Sys (M0_time (if timeout_s \<noteq> 0 then timeout_s else 1) 0))) (\<lambda>t.
     cthen (modify_fop (Own_fop fop) (\<lambda>x. x\<lparr>ri_resend_interval := t\<rparr>)) (
     cbind (ext_u64 env (Sys (M0_time_from_now 0 (1 * 1000 * 1000)))) (\<lambda>deadline.
     cbind (ext_int env (Fop (M0_rpc_post_sync (Own_fop fop) (rpc_get_session c) deadline))) (\<lambda>rc.
     cthen (cwhen (rc = 0)
       (cthen (cassert (rc = 0))
       (cbind (ext_int env (Fop (Read_ri_error (Own_fop fop)))) (\<lambda>ri_error.
        cthen (cassert (ri_error = 0))
       (cbind (ext_addr env (Fop (Read_ri_reply (Own_fop fop)))) (\<lambda>ri_reply.
        cassert (ri_reply \<noteq> NULL))))))) (
     cthen (ext_void (Fop (M0_fop_put_lock (Own_fop fop)))) (
     cret rc)))))))))"

definition rpc_send_blocking :: "env \<Rightarrow> addr \<Rightarrow> iovec list \<Rightarrow> c_int \<Rightarrow> c_int \<Rightarrow> c_int cprog" where
  "rpc_send_blocking env c segments segment_count timeout_s =
     cbind (fop_alloc_at env (rpc_get_session c) Rpclite_fopt) (\<lambda>fop.
     cthen (cassert (fop \<noteq> NULL)) (
     cthen (fill_rpclite_fop env (Own_fop fop) segments segment_count) (
     rpc_send_fop_blocking_and_release env c fop timeout_s)))"

section \<open>The asynchronous call\<close>

definition load_message :: "addr \<Rightarrow> rpclite_senderside_message cprog" where
  "load_message p = cbind (load p) (\<lambda>ob.
     case ob of Message_obj m \<Rightarrow> cret m | _ \<Rightarrow> cstop (Undefined Dangling_pointer))"

definition modify_message ::
  "addr \<Rightarrow> (rpclite_senderside_message \<Rightarrow> rpclite_senderside_message) \<Rightarrow> unit cprog" where
  "modify_message p g = cbind (load_message p) (\<lambda>m. store p (Message_obj (g m)))"

text \<open>\<open>rpclite_replied\<close>, on the item of the message at \<open>p\<close>.\<close>

definition rpclite_replied :: "env \<Rightarrow> addr \<Rightarrow> unit cprog" where
  "rpclite_replied env p =
     cbind (ext_int env (Fop (Read_ri_error (Msg_fop p)))) (\<lambda>ri_error.
     cbind (if - ri_error = ETIMEDOUT then cret RPC_TIMEOUT
       else if - ri_error = 0 then
         cbind (ext_u64 env (Sys M0_time_now)) (\<lambda>now.
         cbind (load_message p) (\<lambda>m.
         cthen (add_rpc_stat_record RPC_STAT_SEND (now - msg_ctime m))
         (cret RPC_OK)))
       else cret RPC_FAILED) (\<lambda>st.
     cbind (load_message p) (\<lambda>m.
     cthen (call_fptr (msg_reply_callback m)
       (ext_void (Fop (User_reply_callback (msg_reply_callback m) (msg_c m) (msg_ctx m) st)))) (
     ext_void (Fop (M0_fop_put (Msg_fop p)))))))"

definition rpclite_senderside_free_nonuser_memory :: "addr \<Rightarrow> unit cprog" where
  "rpclite_senderside_free_nonuser_memory p = cseq
     [ext_void (Fop (M0_fop_fini (Msg_fop p))),
      free p]"

text \<open>\<open>item_ops\<close>: the only operation set is \<open>rio_replied\<close>.\<close>

definition item_ops_replied :: "rpc_item_ops \<Rightarrow> (env \<Rightarrow> addr \<Rightarrow> unit cprog) option" where
  "item_ops_replied ops = (case ops of Rpclite_item_ops \<Rightarrow> Some rpclite_replied | Default_item_ops \<Rightarrow> None)"

definition zero_fop :: m0_fop where
  "zero_fop = \<lparr>fop_data = No_data, ri_session = Foreign_session NULL, ri_deadline = 0,
     ri_nr_sent_max = 0, ri_resend_interval = 0, ri_rmachine = NULL, ri_ops = Default_item_ops,
     ri_prio = Other_prio 0\<rparr>"

definition zero_message :: rpclite_senderside_message where
  "zero_message = \<lparr>msg_c = NULL, msg_ctx = NULL, msg_reply_callback = NULL, msg_fop = zero_fop,
     msg_ctime = 0\<rparr>"

text \<open>\<open>m0_fop_init\<close> and \<open>m0_fop_data_alloc\<close> write into the fop of the message; what, is Mero's choice.\<close>

definition fop_init :: "env \<Rightarrow> addr \<Rightarrow> fop_type \<Rightarrow> unit cprog" where
  "fop_init env p t =
     cbind (cgets (\<lambda>w. ans_fop env (w_log w) (Fop (M0_fop_init p t)))) (\<lambda>x.
     cthen (ext_void (Fop (M0_fop_init p t)))
     (modify_message p (\<lambda>m. m\<lparr>msg_fop := x\<rparr>)))"

definition fop_data_alloc :: "env \<Rightarrow> addr \<Rightarrow> c_int cprog" where
  "fop_data_alloc env p =
     cbind (cgets (\<lambda>w. ans_fop env (w_log w) (Fop (M0_fop_data_alloc p)))) (\<lambda>x.
     cbind (ext_int env (Fop (M0_fop_data_alloc p))) (\<lambda>rc.
     cthen (cwhen (rc = 0) (modify_fop (Msg_fop p) (\<lambda>y. y\<lparr>fop_data := fop_data x\<rparr>)))
     (cret rc)))"

text \<open>The body of \<open>if (msg != NULL)\<close>; a code that is not zero makes the caller return it.\<close>

definition init_message :: "env \<Rightarrow> addr \<Rightarrow> addr \<Rightarrow> fptr \<Rightarrow> addr \<Rightarrow> c_int \<Rightarrow> c_int cprog" where
  "init_message env c msg reply_callback ctx timeout_s =
     cbind (ext_u64 env (Sys M0_time_now)) (\<lambda>t.
     cthen (modify_message msg (\<lambda>m. m\<lparr>msg_ctime := t\<rparr>)) (
     cthen (fop_init env msg Rpclite_fopt) (
     cthen (modify_fop (Msg_fop msg) (\<lambda>x. x\<lparr>ri_session := rpc_get_session c\<rparr>)) (
     cbind (ext_u64 env (Sys (M0_time_from_now 0 (1 * 1000 * 1000)))) (\<lambda>t.
     cthen (modify_fop (Msg_fop msg) (\<lambda>x. x\<lparr>ri_deadline := t, ri_nr_sent_max := 1\<rparr>)) (
     cbind (ext_u64 env (Sys (M0_time (if timeout_s \<noteq> 0 then timeout_s else 1) 0))) (\<lambda>t.
     cthen (modify_fop (Msg_fop msg) (\<lambda>x. x\<lparr>ri_resend_interval := t\<rparr>)) (
     cbind (ext_addr env (Fop (M0_fop_session_machine (rpc_get_session c)))) (\<lambda>rm.
     cthen (modify_fop (Msg_fop msg) (\<lambda>x. x\<lparr>ri_rmachine := rm\<rparr>)) (
     cthen (modify_message msg (\<lambda>m. m\<lparr>msg_ctx := ctx, msg_c := c\<rparr>)) (
     cthen (modify_fop (Msg_fop msg) (\<lambda>x. x\<lparr>ri_ops := Rpclite_item_ops, ri_prio := M0_RPC_ITEM_PRIO_MID\<rparr>)) (
     cthen (modify_message msg (\<lambda>m. m\<lparr>msg_reply_callback := reply_callback\<rparr>)) (
     cbind (fop_data_alloc env msg) (\<lambda>rc.
     cthen (cwhen (rc \<noteq> 0) (free msg)) (
     cret rc)))))))))))))))"

definition rpc_send ::
  "env \<Rightarrow> addr \<Rightarrow> iovec list \<Rightarrow> c_int \<Rightarrow> fptr \<Rightarrow> addr \<Rightarrow> c_int \<Rightarrow> c_int cprog" where
  "rpc_send env c segments segment_count reply_callback ctx timeout_s =
     cbind (alloc env Sizeof_message (Message_obj zero_message)) (\<lambda>msg.
     cbind (if msg \<noteq> NULL then init_message env c msg reply_callback ctx timeout_s else cret 0) (\<lambda>rc.
     if rc \<noteq> 0 then cret rc else
     cthen (cassert (msg \<noteq> NULL)) (
     cthen (fill_rpclite_fop env (Msg_fop msg) segments segment_count) (
     cbind (item_too_big env (Msg_fop msg) (rpc_get_session c)) (\<lambda>too_big.
     if too_big then exit_too_big env (Msg_fop msg) (rpc_get_session c) else
     ext_int env (Fop (M0_rpc_post (Msg_fop msg))))))))"

section \<open>How sending runs\<close>

lemma wp_load_message [wp_rules]:
  "(\<And>m. p \<noteq> NULL \<Longrightarrow> w_heap w p = Some (Message_obj m) \<Longrightarrow> Q m w) \<Longrightarrow>
   (\<And>u. p = NULL \<or> (\<nexists>m. w_heap w p = Some (Message_obj m)) \<Longrightarrow> E (Undefined u) w) \<Longrightarrow>
   wp (load_message p) Q E w"
  unfolding load_message_def
  by (intro wp_rules) (auto simp: wp_def cret_def cstop_def split: obj.splits)

lemma wp_modify_message [wp_rules]:
  "(\<And>m. p \<noteq> NULL \<Longrightarrow> w_heap w p = Some (Message_obj m) \<Longrightarrow> Q () (mem_put p (Message_obj (g m)) w)) \<Longrightarrow>
   (\<And>u. p = NULL \<or> (\<nexists>m. w_heap w p = Some (Message_obj m)) \<Longrightarrow> E (Undefined u) w) \<Longrightarrow>
   wp (modify_message p g) Q E w"
  unfolding modify_message_def by (intro wp_rules) auto

lemma wp_fop_alloc_at [wp_rules]:
  "(ans_addr env (w_log w) (Fop (M0_fop_alloc_at s t)) \<noteq> NULL \<Longrightarrow>
      Q (w_next w) (log_call (Fop (M0_fop_alloc_at s t)) (RAddr (w_next w))
        (mem_put (w_next w) (Fop_obj (ans_fop env (w_log w) (Fop (M0_fop_alloc_at s t))))
          (w\<lparr>w_next := Suc (w_next w)\<rparr>)))) \<Longrightarrow>
   (ans_addr env (w_log w) (Fop (M0_fop_alloc_at s t)) = NULL \<Longrightarrow>
      Q NULL (log_call (Fop (M0_fop_alloc_at s t)) (RAddr NULL) w)) \<Longrightarrow>
   wp (fop_alloc_at env s t) Q E w"
  by (simp add: wp_def fop_alloc_at_def Let_def)

text \<open>Whether the item is too big, by what Mero will answer, and what asking leaves in the log.\<close>

definition size_log :: "env \<Rightarrow> fop_ref \<Rightarrow> rpc_session \<Rightarrow> log \<Rightarrow> log" where
  "size_log env f s l =
     (let e = (Fop (M0_fop_payload_size f), RU64 (ans_u64 env l (Fop (M0_fop_payload_size f)))) in
      [e, (Conn (M0_rpc_session_get_max_item_size s),
           RU64 (ans_u64 env (l @ [e]) (Conn (M0_rpc_session_get_max_item_size s))))])"

definition too_big :: "env \<Rightarrow> fop_ref \<Rightarrow> rpc_session \<Rightarrow> log \<Rightarrow> bool" where
  "too_big env f s l =
     (let e = (Fop (M0_fop_payload_size f), RU64 (ans_u64 env l (Fop (M0_fop_payload_size f)))) in
      ans_u64 env l (Fop (M0_fop_payload_size f)) + ITEM_SIZE_CUSHION >
      ans_u64 env (l @ [e]) (Conn (M0_rpc_session_get_max_item_size s)))"

lemma item_too_big_run [world_simps]:
  "item_too_big env f s w = Done (too_big env f s (w_log w)) (logged (size_log env f s (w_log w)) w)"
  by (simp add: item_too_big_def too_big_def size_log_def Let_def prog_simps world_simps log_call_logged)

lemma wp_item_too_big [wp_rules]:
  "Q (too_big env f s (w_log w)) (logged (size_log env f s (w_log w)) w) \<Longrightarrow>
   wp (item_too_big env f s) Q E w"
  by (simp add: wp_def item_too_big_run)

lemma wp_exit_too_big [wp_rules]:
  "E (Exit 1) (logged (size_log env f s (w_log w)) w) \<Longrightarrow> wp (exit_too_big env f s) Q E w"
  by (simp add: wp_def exit_too_big_def size_log_def Let_def prog_simps world_simps log_call_logged)

lemma held_size_log [held_simps]: "held (size_log env f s l) r = 0"
  by (simp add: size_log_def Let_def held_simps)

lemma fop_at_logged [simp]: "fop_at (logged l w) f = fop_at w f"
  by (simp add: logged_def)

text \<open>The items handed to Mero for sending, in order.\<close>

fun posted :: "call \<times> answer \<Rightarrow> fop_ref list" where
  "posted (Fop (M0_rpc_post f), ans) = [f]"
| "posted (Fop (M0_rpc_post_sync f s d), ans) = [f]"
| "posted _ = []"

definition posts :: "log \<Rightarrow> fop_ref list" where
  "posts l = concat (map posted l)"

lemma posts_simps [simp]:
  "posts [] = []" "posts (e # l) = posted e @ posts l" "posts (l @ k) = posts l @ posts k"
  "posts (size_log env f s l) = []"
  by (simp_all add: posts_def size_log_def Let_def)

lemma new_log_trans:
  "w_log w1 = w_log w @ k \<Longrightarrow> w_log w' = w_log w1 @ l \<Longrightarrow> new_log w w' = k @ l"
  by (simp add: new_log_def)

lemma wf_put_fop [simp]: "wf_world w \<Longrightarrow> wf_world (put_fop f y w)"
  by (auto simp: fop_place_defs wf_world_def split: fop_ref.splits option.splits obj.splits)

text \<open>Nothing but the log and the one given block has changed.\<close>

definition same_but :: "addr \<Rightarrow> world \<Rightarrow> world \<Rightarrow> bool" where
  "same_but p w w' \<longleftrightarrow> (\<forall>q. q \<noteq> p \<longrightarrow> w_heap w' q = w_heap w q) \<and> w_next w' = w_next w \<and>
     client_max_epoch w' = client_max_epoch w \<and> rpc_stat w' = rpc_stat w \<and>
     rpclite_listen_cbs w' = rpclite_listen_cbs w \<and> (wf_world w \<longrightarrow> wf_world w')"

text \<open>What a blocking send guarantees when it returns, and how it can stop.\<close>

definition send_fop_post :: "addr \<Rightarrow> addr \<Rightarrow> m0_fop \<Rightarrow> world \<Rightarrow> c_int \<Rightarrow> world \<Rightarrow> bool" where
  "send_fop_post c p x w rc w' \<longleftrightarrow>
    (let l = new_log w w' in
      w_log w' = w_log w @ l \<and> posts l = [Own_fop p] \<and>
      (\<exists>d. (Fop (M0_rpc_post_sync (Own_fop p) (rpc_get_session c) d), RInt rc) \<in> set l) \<and>
      (rc = 0 \<longrightarrow> (Fop (Read_ri_error (Own_fop p)), RInt 0) \<in> set l \<and>
         (\<exists>q. q \<noteq> NULL \<and> (Fop (Read_ri_reply (Own_fop p)), RAddr q) \<in> set l)) \<and>
      (\<forall>r. held (w_log w') r = held (w_log w) r - (if r = Fop_reference (Own_fop p) then 1 else 0)) \<and>
      (\<exists>t. fop_at w' (Own_fop p) = Some (x\<lparr>ri_nr_sent_max := 1, ri_resend_interval := t\<rparr>)) \<and>
      same_but p w w')"

definition send_fop_stop :: "env \<Rightarrow> addr \<Rightarrow> addr \<Rightarrow> world \<Rightarrow> stop_reason \<Rightarrow> world \<Rightarrow> bool" where
  "send_fop_stop env c p w r w' \<longleftrightarrow>
    (let l = new_log w w' in
      r = Exit 1 \<and> too_big env (Own_fop p) (rpc_get_session c) (w_log w) \<and> posts l = [] \<or>
      r = Assertion_failed \<and> posts l = [Own_fop p] \<and>
        (\<exists>d. (Fop (M0_rpc_post_sync (Own_fop p) (rpc_get_session c) d), RInt 0) \<in> set l) \<and>
        ((\<exists>e. e \<noteq> 0 \<and> (Fop (Read_ri_error (Own_fop p)), RInt e) \<in> set l) \<or>
         (Fop (Read_ri_reply (Own_fop p)), RAddr NULL) \<in> set l))"

lemma send_fop_wp:
  assumes "fop_at w (Own_fop p) = Some x"
  shows "wp (rpc_send_fop_blocking_and_release env c p t) (send_fop_post c p x w)
    (send_fop_stop env c p w) w"
proof -
  have "p \<noteq> NULL" using assms by (auto elim: fop_atE)
  then show ?thesis
    unfolding rpc_send_fop_blocking_and_release_def
    by (intro wp_rules)
      (use assms in \<open>auto simp: send_fop_post_def send_fop_stop_def new_log_def Let_def held_simps
        same_but_def fop_addr_def size_log_def\<close>)
qed

text \<open>Mero gives a fop of the rpclite type a payload of that type.\<close>

definition fops_typed :: "env \<Rightarrow> bool" where
  "fops_typed env \<longleftrightarrow>
    (\<forall>l s. \<exists>d. fop_data (ans_fop env l (Fop (M0_fop_alloc_at s Rpclite_fopt))) = Rpclite_data d) \<and>
    (\<forall>l p. \<exists>d. fop_data (ans_fop env l (Fop (M0_fop_data_alloc p))) = Rpclite_data d)"

lemma willing_fops_typed: "fops_typed willing_env"
  by (simp add: fops_typed_def willing_env_def willing_fop_def)

definition with_new_fop :: "env \<Rightarrow> rpc_session \<Rightarrow> fop_type \<Rightarrow> world \<Rightarrow> world" where
  "with_new_fop env s t w =
     log_call (Fop (M0_fop_alloc_at s t)) (RAddr (w_next w))
       (mem_put (w_next w) (Fop_obj (ans_fop env (w_log w) (Fop (M0_fop_alloc_at s t))))
         (w\<lparr>w_next := Suc (w_next w)\<rparr>))"

lemma with_new_fop_facts:
  assumes "wf_world w"
  shows "wf_world (with_new_fop env s t w)"
    and "fop_at (with_new_fop env s t w) (Own_fop (w_next w)) =
      Some (ans_fop env (w_log w) (Fop (M0_fop_alloc_at s t)))"
  using assms by (auto simp: with_new_fop_def fop_at_def fop_addr_def wf_world_def)

lemma wf_filled:
  assumes "wf_world w" and "fop_at w f = Some x"
  shows "wf_world (filled f ss w)"
proof -
  have "wf_world (mem_put (w_next w) ob (put_fop f y w\<lparr>w_next := Suc (w_next w)\<rparr>))" for ob y
    using wf_mem_put_fresh [OF wf_put_fop [OF assms(1)], of f y ob] by simp
  then show ?thesis
    by (simp add: filled_def data_put_def Let_def put_fop_log_call put_fop_next mem_put_log_call)
qed

text \<open>
  The fop that was allocated for a message and filled: what Mero is given to send.
\<close>

definition message_payload :: "world \<Rightarrow> fop_ref \<Rightarrow> u8 list \<Rightarrow> bool" where
  "message_payload w f bs \<longleftrightarrow> (\<exists>x q. fop_at w f = Some x \<and>
     fop_data x = Rpclite_data \<lparr>f_count = of_nat (length bs), f_fragments = q\<rparr> \<and>
     w_heap w q = Some (Bytes_obj bs))"

lemma filled_payload:
  assumes "wf_world w" and "fop_at w f = Some x" and "good_segments segs n"
    and "total_len (the_segments segs n) < 2 ^ 31"
  shows "message_payload (filled f (the_segments segs n) w) f
    (concat (map seg_bytes (the_segments segs n)))"
proof -
  let ?ss = "the_segments segs n"
  have "unat (len_sum ?ss) = total_len ?ss" using assms(4) by (simp add: unat_len_sum)
  then have "len_sum ?ss = of_nat (total_len ?ss)" by (metis of_nat_unat ucast_id)
  moreover have "length (concat (map seg_bytes ?ss)) = total_len ?ss"
    using assms(3) by (intro length_concat_seg_bytes) (simp add: good_segments_def)
  ultimately show ?thesis
    using fop_at_filled [OF assms(1,2)] by (simp add: message_payload_def)
qed

section \<open>Properties\<close>

text \<open>
  A blocking send of a fop, on every branch. If the payload with its cushion exceeds what the session
  takes, the process exits before anything is handed to Mero. Otherwise the fop is handed over exactly
  once, on the session of the connection; the call returns Mero's code, having given up its reference, and
  a code of zero means that the item had no error and got a reply; the only other end is the assertion
  that Mero's zero code is not accompanied by an item error or a missing reply.
\<close>

theorem send_fop_blocking_contract:
  assumes "fop_at w (Own_fop p) = Some x"
  shows "if too_big env (Own_fop p) (rpc_get_session c) (w_log w)
    then \<exists>w'. rpc_send_fop_blocking_and_release env c p t w = Stop (Exit 1) w' \<and> posts (new_log w w') = []
    else (\<exists>rc w'. rpc_send_fop_blocking_and_release env c p t w = Done rc w' \<and> send_fop_post c p x w rc w') \<or>
      (\<exists>w'. rpc_send_fop_blocking_and_release env c p t w = Stop Assertion_failed w' \<and>
        posts (new_log w w') = [Own_fop p])"
proof (cases "too_big env (Own_fop p) (rpc_get_session c) (w_log w)")
  case True
  moreover have "p \<noteq> NULL" using assms by (auto elim: fop_atE)
  ultimately show ?thesis
    by (simp add: rpc_send_fop_blocking_and_release_def prog_simps world_simps exit_too_big_def new_log_def
        logged_def)
next
  case False
  show ?thesis
  proof (cases "rpc_send_fop_blocking_and_release env c p t w")
    case (Done rc w')
    then show ?thesis using wp_DoneD [OF send_fop_wp [OF assms] Done] False by auto
  next
    case (Stop r w')
    then show ?thesis
      using wp_StopD [OF send_fop_wp [OF assms] Stop] False by (auto simp: send_fop_stop_def Let_def)
  qed
qed

text \<open>A Mero that succeeds and takes items of up to 64 KiB.\<close>

definition roomy_env :: env where
  "roomy_env = willing_env\<lparr>ans_u64 := (\<lambda>l c. case c of
     Conn (M0_rpc_session_get_max_item_size s) \<Rightarrow> 65536 | _ \<Rightarrow> 0)\<rparr>"

lemma roomy_simps:
  "ans_int roomy_env l c = 0" "ans_addr roomy_env = willing_addr" "ans_fop roomy_env = willing_fop"
  "ans_alloc roomy_env l n = willing_alloc n"
  "ans_u64 roomy_env l (Fop fc) = 0" "ans_u64 roomy_env l (Sys sc) = 0"
  "ans_u64 roomy_env l (Conn (M0_rpc_session_get_max_item_size s)) = 65536"
  by (simp_all add: roomy_env_def willing_env_def)

lemma roomy_not_too_big: "\<not> too_big roomy_env f s l"
  by (simp add: too_big_def roomy_simps ITEM_SIZE_CUSHION_def)

lemma roomy_fops_typed: "fops_typed roomy_env"
  by (simp add: fops_typed_def roomy_simps willing_fop_def)

text \<open>If a blocking send returns, it has allocated its fop, filled it and sent it.\<close>

lemma send_blocking_steps:
  assumes "wf_world w" and "fops_typed env" and "good_segments segs n"
    and "total_len (the_segments segs n) < 2 ^ 31"
    and "rpc_send_blocking env c segs n t w = Done rc w'"
  shows "rpc_send_fop_blocking_and_release env c (w_next w) t
    (filled (Own_fop (w_next w)) (the_segments segs n)
      (with_new_fop env (rpc_get_session c) Rpclite_fopt w)) = Done rc w'"
proof -
  let ?p = "w_next w" and ?ss = "the_segments segs n"
  let ?w1 = "with_new_fop env (rpc_get_session c) Rpclite_fopt w"
  have ok: "ans_addr env (w_log w) (Fop (M0_fop_alloc_at (rpc_get_session c) Rpclite_fopt)) \<noteq> NULL"
  proof
    assume "ans_addr env (w_log w) (Fop (M0_fop_alloc_at (rpc_get_session c) Rpclite_fopt)) = NULL"
    then show False
      using assms(5) by (simp add: rpc_send_blocking_def fop_alloc_at_def prog_simps Let_def)
  qed
  have run: "rpc_send_blocking env c segs n t w =
      cthen (fill_rpclite_fop env (Own_fop ?p) segs n)
        (rpc_send_fop_blocking_and_release env c ?p t) ?w1"
    using ok wf_world_next [OF assms(1)]
    by (simp add: rpc_send_blocking_def fop_alloc_at_def prog_simps Let_def with_new_fop_def)
  note w1 = with_new_fop_facts [OF assms(1), of env "rpc_get_session c" Rpclite_fopt]
  have at: "rpclite_fop_at ?w1 (Own_fop ?p)"
    using w1(2) assms(2) by (auto simp: rpclite_fop_at_def fops_typed_def)
  have "ans_alloc env (w_log ?w1) (Bytes (scast (len_sum ?ss)))"
    using fill_no_memory [OF w1(1) at assms(3), of env] assms(5) by (fastforce simp: run prog_simps)
  then show ?thesis
    using fill_run [OF w1(1) at assms(3,4)] assms(5) by (simp add: run prog_simps)
qed

lemma message_payload_same_but:
  assumes "message_payload w (Own_fop p) bs" and "send_fop_post c p x w rc w'"
    and "fop_at w (Own_fop p) = Some x"
  shows "message_payload w' (Own_fop p) bs"
proof -
  obtain q where q: "fop_data x = Rpclite_data \<lparr>f_count = of_nat (length bs), f_fragments = q\<rparr>"
      "w_heap w q = Some (Bytes_obj bs)"
    using assms(1,3) by (auto simp: message_payload_def)
  then have "q \<noteq> p" using assms(3) by (auto elim: fop_atE)
  then show ?thesis using assms(2) q by (auto simp: message_payload_def send_fop_post_def Let_def same_but_def)
qed

text \<open>
  C26. A blocking send delivers the caller's bytes. Whenever \<open>rpc_send_blocking\<close> returns, exactly one item
  has been handed to Mero; its payload is the concatenation of the segments, the code is Mero's code for
  it, every reference and resource has been given back, and no statistic has changed.
\<close>

theorem send_blocking_delivers:
  assumes "wf_world w" and "fops_typed env" and "good_segments segs n"
    and "total_len (the_segments segs n) < 2 ^ 31"
    and "rpc_send_blocking env c segs n t w = Done rc w'"
  shows "posts (new_log w w') = [Own_fop (w_next w)] \<and>
    (\<exists>d. (Fop (M0_rpc_post_sync (Own_fop (w_next w)) (rpc_get_session c) d), RInt rc)
      \<in> set (new_log w w')) \<and>
    message_payload w' (Own_fop (w_next w)) (concat (map seg_bytes (the_segments segs n))) \<and>
    held (w_log w') = held (w_log w) \<and> rpc_stat w' = rpc_stat w"
proof -
  let ?p = "w_next w" and ?ss = "the_segments segs n"
  let ?w1 = "with_new_fop env (rpc_get_session c) Rpclite_fopt w"
  let ?w2 = "filled (Own_fop ?p) ?ss ?w1"
  note w1 = with_new_fop_facts [OF assms(1), of env "rpc_get_session c" Rpclite_fopt]
  obtain x where x: "fop_at ?w2 (Own_fop ?p) = Some x"
    "message_payload ?w2 (Own_fop ?p) (concat (map seg_bytes ?ss))"
    using filled_payload [OF w1 assms(3,4)] by (auto simp: message_payload_def)
  have post: "send_fop_post c ?p x ?w2 rc w'"
    using wp_DoneD [OF send_fop_wp [OF x(1)] send_blocking_steps [OF assms]] .
  have log2: "w_log ?w2 = w_log w @
      [(Fop (M0_fop_alloc_at (rpc_get_session c) Rpclite_fopt), RAddr ?p),
       (Sys (Malloc (Bytes (scast (len_sum ?ss)))), RAddr (Suc ?p))]"
    by (simp add: with_new_fop_def)
  have "w_log w' = w_log ?w2 @ new_log ?w2 w'"
    using post by (simp add: send_fop_post_def Let_def)
  note log = new_log_trans [OF log2 this]
  have "held (w_log w') = held (w_log w)"
    using post log2 wf_world_next [OF assms(1)]
    by (auto simp: fun_eq_iff send_fop_post_def Let_def held_simps)
  moreover have "rpc_stat w' = rpc_stat w"
    using post by (simp add: send_fop_post_def Let_def same_but_def with_new_fop_def)
  ultimately show ?thesis
    using post log message_payload_same_but [OF x(2) post x(1)] by (auto simp: send_fop_post_def Let_def)
qed

theorem send_blocking_delivers_witness:
  "\<exists>w'. rpc_send_blocking roomy_env 5 sample_segments 3 10 initial_world = Done 0 w' \<and>
     posts (new_log initial_world w') = [Own_fop 1] \<and> message_payload w' (Own_fop 1) [1, 2, 4, 5]"
proof -
  let ?s = "rpc_get_session 5"
  let ?w1 = "with_new_fop roomy_env ?s Rpclite_fopt initial_world"
  note w1 = with_new_fop_facts [OF wf_initial_world, of roomy_env ?s Rpclite_fopt]
  have one: "w_next initial_world = 1" by (simp add: initial_world_def)
  have at: "rpclite_fop_at ?w1 (Own_fop 1)"
    using w1(2) roomy_fops_typed by (auto simp: rpclite_fop_at_def fops_typed_def one)
  have "unat (scast (len_sum sample_segments) :: u64) = 4"
    by (simp add: scast_small unat_len_sum sample_facts(5))
  then have fill: "fill_rpclite_fop roomy_env (Own_fop 1) sample_segments 3 ?w1 =
      Done () (filled (Own_fop 1) sample_segments ?w1)"
    using fill_run [OF w1(1) at sample_facts(4)]
    by (simp add: sample_the_segments sample_facts(5) roomy_simps)
  obtain x where "fop_at (filled (Own_fop 1) sample_segments ?w1) (Own_fop 1) = Some x"
    using fop_at_filled [OF w1] one by simp
  then obtain w' where w': "rpc_send_fop_blocking_and_release roomy_env 5 1 10
      (filled (Own_fop 1) sample_segments ?w1) = Done 0 w'"
    by (simp add: rpc_send_fop_blocking_and_release_def prog_simps world_simps roomy_not_too_big
        roomy_simps willing_addr_def)
  have "rpc_send_blocking roomy_env 5 sample_segments 3 10 initial_world = Done 0 w'"
    using fill w' one
    by (simp add: rpc_send_blocking_def fop_alloc_at_def prog_simps Let_def with_new_fop_def
        roomy_simps willing_addr_def)
  with send_blocking_delivers [OF wf_initial_world roomy_fops_typed sample_facts(4) _ this]
  show ?thesis by (simp add: sample_the_segments sample_facts(5,6) one)
qed

section \<open>The asynchronous call\<close>

lemma msg_fop_simps:
  "w_heap w p = Some (Message_obj m) \<Longrightarrow> p \<noteq> NULL \<Longrightarrow> fop_at w (Msg_fop p) = Some (msg_fop m)"
  "w_heap w p = Some (Message_obj m) \<Longrightarrow>
     put_fop (Msg_fop p) y w = mem_put p (Message_obj (m\<lparr>msg_fop := y\<rparr>)) w"
  by (simp_all add: fop_place_defs)

definition ready_message :: "addr \<Rightarrow> fptr \<Rightarrow> addr \<Rightarrow> rpclite_senderside_message \<Rightarrow> bool" where
  "ready_message c cb ctx m \<longleftrightarrow> msg_c m = c \<and> msg_ctx m = ctx \<and> msg_reply_callback m = cb \<and>
     ri_session (msg_fop m) = rpc_get_session c \<and> ri_ops (msg_fop m) = Rpclite_item_ops \<and>
     ri_prio (msg_fop m) = M0_RPC_ITEM_PRIO_MID \<and> ri_nr_sent_max (msg_fop m) = 1 \<and>
     (\<exists>d. fop_data (msg_fop m) = Rpclite_data d)"

definition init_message_post ::
  "addr \<Rightarrow> addr \<Rightarrow> fptr \<Rightarrow> addr \<Rightarrow> world \<Rightarrow> c_int \<Rightarrow> world \<Rightarrow> bool" where
  "init_message_post c p cb ctx w rc w' \<longleftrightarrow>
    (let l = new_log w w' in
      w_log w' = w_log w @ l \<and> posts l = [] \<and> same_but p w w' \<and>
      (\<forall>r. held (w_log w') r = held (w_log w) r + (if r = Fop_reference (Msg_fop p) then 1 else 0)) \<and>
      (if rc = 0 then \<exists>m. w_heap w' p = Some (Message_obj m) \<and> ready_message c cb ctx m
       else w_heap w' p = None))"

lemma init_message_wp:
  assumes "w_heap w p = Some (Message_obj m)" and "p \<noteq> NULL" and "fops_typed env"
  shows "wp (init_message env c p cb ctx t) (init_message_post c p cb ctx w) (\<lambda>_ _. False) w"
  unfolding init_message_def fop_init_def fop_data_alloc_def
  by (intro wp_rules)
    (use assms in \<open>auto simp: init_message_post_def ready_message_def new_log_def Let_def held_simps
      same_but_def msg_fop_simps wf_world_def fops_typed_def split: if_splits\<close>)

definition with_message :: "world \<Rightarrow> world" where
  "with_message w = log_call (Sys (Malloc Sizeof_message)) (RAddr (w_next w))
     (mem_put (w_next w) (Message_obj zero_message) (w\<lparr>w_next := Suc (w_next w)\<rparr>))"

lemma with_message_facts:
  assumes "wf_world w"
  shows "wf_world (with_message w)" "w_heap (with_message w) (w_next w) = Some (Message_obj zero_message)"
    "w_log (with_message w) = w_log w @ [(Sys (Malloc Sizeof_message), RAddr (w_next w))]"
    "q \<noteq> w_next w \<Longrightarrow> w_heap (with_message w) q = w_heap w q"
    "w_next (with_message w) = Suc (w_next w)" "rpc_stat (with_message w) = rpc_stat w"
  using assms by (auto simp: with_message_def wf_world_def)

text \<open>The part of \<open>rpc_send\<close> after the message has been set up.\<close>

definition send_rest :: "env \<Rightarrow> addr \<Rightarrow> addr \<Rightarrow> iovec list \<Rightarrow> c_int \<Rightarrow> c_int cprog" where
  "send_rest env c msg segs n =
     cthen (fill_rpclite_fop env (Msg_fop msg) segs n) (
     cbind (item_too_big env (Msg_fop msg) (rpc_get_session c)) (\<lambda>too_big.
     if too_big then exit_too_big env (Msg_fop msg) (rpc_get_session c) else
     ext_int env (Fop (M0_rpc_post (Msg_fop msg)))))"

lemma rpc_send_split:
  assumes "wf_world w" and "rpc_send env c segs n cb ctx t w = Done rc w'"
  obtains e w1 where
    "init_message env c (w_next w) cb ctx t (with_message w) = Done e w1"
    "if e \<noteq> 0 then rc = e \<and> w' = w1 else send_rest env c (w_next w) segs n w1 = Done rc w'"
proof -
  have ok: "ans_alloc env (w_log w) Sizeof_message"
    using assms(2) by (rule_tac ccontr) (simp add: rpc_send_def prog_simps world_simps)
  then have "cbind (init_message env c (w_next w) cb ctx t) (\<lambda>rc.
      if rc \<noteq> 0 then cret rc else cthen (cassert (w_next w \<noteq> NULL)) (send_rest env c (w_next w) segs n))
      (with_message w) = Done rc w'"
    using assms(2) wf_world_next [OF assms(1)] unfolding send_rest_def
    by (simp add: rpc_send_def prog_simps world_simps with_message_def)
  then show ?thesis
    using that wf_world_next [OF assms(1)]
    by (elim cbind_DoneE) (auto simp: prog_simps split: if_splits)
qed

text \<open>What has been posted once the message was set up.\<close>

definition send_rest_post ::
  "addr \<Rightarrow> rpclite_senderside_message \<Rightarrow> u8 list \<Rightarrow> world \<Rightarrow> c_int \<Rightarrow> world \<Rightarrow> bool" where
  "send_rest_post p m bs w rc w' \<longleftrightarrow>
    (let l = new_log w w' in
      w_log w' = w_log w @ l \<and> posts l = [Msg_fop p] \<and> (Fop (M0_rpc_post (Msg_fop p)), RInt rc) \<in> set l \<and>
      (\<forall>r. held l r = 0) \<and> rpc_stat w' = rpc_stat w \<and>
      (\<exists>k. w_heap w' p = Some (Message_obj (m\<lparr>msg_fop := (msg_fop m)\<lparr>fop_data := Rpclite_data k\<rparr>\<rparr>))) \<and>
      message_payload w' (Msg_fop p) bs \<and>
      (\<forall>q. q \<noteq> p \<and> q \<noteq> w_next w \<longrightarrow> w_heap w' q = w_heap w q))"

lemma filled_message:
  assumes "wf_world w" and "w_heap w p = Some (Message_obj m)"
  shows "w_heap (filled (Msg_fop p) ss w) p = Some (Message_obj (m\<lparr>msg_fop := (msg_fop m)\<lparr>fop_data :=
    Rpclite_data \<lparr>f_count = len_sum ss, f_fragments = w_next w\<rparr>\<rparr>\<rparr>))"
  using assms wf_world_live [OF assms]
  by (simp add: filled_def data_put_def Let_def msg_fop_simps)

lemma send_rest_Done:
  assumes "wf_world w" and "w_heap w p = Some (Message_obj m)" and "ready_message c cb ctx m"
    and "good_segments segs n" and "total_len (the_segments segs n) < 2 ^ 31"
    and "send_rest env c p segs n w = Done rc w'"
  shows "send_rest_post p m (concat (map seg_bytes (the_segments segs n))) w rc w'"
proof -
  let ?ss = "the_segments segs n"
  let ?w1 = "filled (Msg_fop p) ?ss w"
  have x: "fop_at w (Msg_fop p) = Some (msg_fop m)"
    using wf_world_live [OF assms(1,2)] assms(2) by (simp add: msg_fop_simps)
  then have at: "rpclite_fop_at w (Msg_fop p)"
    using assms(3) by (auto simp: rpclite_fop_at_def ready_message_def)
  have "ans_alloc env (w_log w) (Bytes (scast (len_sum ?ss)))"
    using fill_no_memory [OF assms(1) at assms(4), of env] assms(6)
    by (fastforce simp: send_rest_def prog_simps)
  then have "fill_rpclite_fop env (Msg_fop p) segs n w = Done () ?w1"
    using fill_run [OF assms(1) at assms(4,5)] by simp
  then have w': "w' = log_call (Fop (M0_rpc_post (Msg_fop p))) (RInt rc)
      (logged (size_log env (Msg_fop p) (rpc_get_session c) (w_log ?w1)) ?w1)"
    using assms(6)
    by (auto simp: send_rest_def prog_simps world_simps exit_too_big_def split: if_splits)
  have pay: "message_payload ?w1 (Msg_fop p) (concat (map seg_bytes ?ss))"
    using filled_payload [OF assms(1) x assms(4,5)] .
  have "fop_addr (Msg_fop p) = p" by (simp add: fop_addr_def)
  then show ?thesis
    using pay filled_message [OF assms(1,2), of ?ss] w'
    by (auto simp: send_rest_post_def Let_def new_log_def held_simps message_payload_def)
qed

text \<open>The two ways \<open>rpc_send\<close> returns.\<close>

definition send_failed :: "addr \<Rightarrow> world \<Rightarrow> c_int \<Rightarrow> world \<Rightarrow> bool" where
  "send_failed p w rc w' \<longleftrightarrow> rc \<noteq> 0 \<and> posts (new_log w w') = [] \<and> w_heap w' = w_heap w"

definition send_done :: "addr \<Rightarrow> addr \<Rightarrow> u8 list \<Rightarrow> fptr \<Rightarrow> addr \<Rightarrow> world \<Rightarrow> c_int \<Rightarrow> world \<Rightarrow> bool" where
  "send_done c p bs cb ctx w rc w' \<longleftrightarrow>
     posts (new_log w w') = [Msg_fop p] \<and>
     (Fop (M0_rpc_post (Msg_fop p)), RInt rc) \<in> set (new_log w w') \<and>
     message_payload w' (Msg_fop p) bs \<and>
     (\<exists>m. w_heap w' p = Some (Message_obj m) \<and> ready_message c cb ctx m) \<and>
     (\<forall>r. held (w_log w') r = held (w_log w) r + (if r = Fop_reference (Msg_fop p) then 1 else 0)) \<and>
     rpc_stat w' = rpc_stat w \<and> (\<forall>q. q \<noteq> p \<and> q \<noteq> Suc p \<longrightarrow> w_heap w' q = w_heap w q)"

lemma send_done_of_parts:
  assumes "wf_world w" and "init_message_post c p cb ctx (with_message w) 0 w1"
    and "send_rest_post p m bs w1 rc w'" and "ready_message c cb ctx m" and "p = w_next w"
  shows "send_done c p bs cb ctx w rc w'"
proof -
  note wm = with_message_facts [OF assms(1)]
  have w1: "w_log w1 = w_log w @ (Sys (Malloc Sizeof_message), RAddr p) # new_log (with_message w) w1"
    "posts (new_log (with_message w) w1) = []" "same_but p (with_message w) w1"
    "\<And>r. held (w_log w1) r = held (w_log w) r + (if r = Fop_reference (Msg_fop p) then 1 else 0)"
    using assms(2) by (auto simp: init_message_post_def Let_def wm(3) assms(5) held_simps)
  have w': "w_log w' = w_log w1 @ new_log w1 w'"
    using assms(3) by (simp add: send_rest_post_def Let_def)
  then have "new_log w w' = ((Sys (Malloc Sizeof_message), RAddr p) # new_log (with_message w) w1) @ new_log w1 w'"
    using w1(1) by (intro new_log_trans)
  moreover have "ready_message c cb ctx (m\<lparr>msg_fop := (msg_fop m)\<lparr>fop_data := Rpclite_data k\<rparr>\<rparr>)" for k
    using assms(4) by (simp add: ready_message_def)
  moreover have "held (w_log w') r = held (w_log w1) r" for r
    using assms(3) by (subst w') (simp add: held_append send_rest_post_def Let_def)
  ultimately show ?thesis
    using assms(3) w1(2-4) wm(4,5,6)
    by (auto simp: send_done_def send_rest_post_def Let_def same_but_def assms(5))
qed

lemma send_failed_of_init:
  assumes "wf_world w" and "init_message_post c p cb ctx (with_message w) rc w'" and "rc \<noteq> 0"
    and "p = w_next w"
  shows "send_failed p w rc w'"
proof -
  note wm = with_message_facts [OF assms(1)]
  have "w_heap w' q = w_heap w q" for q
    using assms(2,3,4) wf_world_fresh [OF assms(1)] wm(4) [of q]
    by (cases "q = p") (auto simp: init_message_post_def Let_def same_but_def)
  moreover have "new_log w w' = [(Sys (Malloc Sizeof_message), RAddr (w_next w))] @ new_log (with_message w) w'"
    using assms(2) by (intro new_log_trans [OF wm(3)]) (simp add: init_message_post_def Let_def)
  ultimately show ?thesis
    using assms(2,3) by (auto simp: send_failed_def init_message_post_def Let_def)
qed

lemma send_outcomes:
  assumes "wf_world w" and "fops_typed env" and "good_segments segs n"
    and "total_len (the_segments segs n) < 2 ^ 31"
    and "rpc_send env c segs n cb ctx t w = Done rc w'"
  shows "send_failed (w_next w) w rc w' \<or>
    send_done c (w_next w) (concat (map seg_bytes (the_segments segs n))) cb ctx w rc w'"
proof -
  let ?p = "w_next w"
  note wm = with_message_facts [OF assms(1)]
  have p: "?p \<noteq> NULL" using wf_world_next [OF assms(1)] by simp
  obtain e w1 where e: "init_message env c ?p cb ctx t (with_message w) = Done e w1"
    and rest: "if e \<noteq> 0 then rc = e \<and> w' = w1 else send_rest env c ?p segs n w1 = Done rc w'"
    by (rule rpc_send_split [OF assms(1,5)])
  have post: "init_message_post c ?p cb ctx (with_message w) e w1"
    using wp_DoneD [OF init_message_wp [OF wm(2) p assms(2)] e] .
  show ?thesis
  proof (cases "e = 0")
    case False
    then show ?thesis using rest send_failed_of_init [OF assms(1) post] by simp
  next
    case True
    with post obtain m where m: "w_heap w1 ?p = Some (Message_obj m)" "ready_message c cb ctx m"
        "wf_world w1"
      using wm(1) by (auto simp: init_message_post_def Let_def same_but_def)
    then show ?thesis
      using send_done_of_parts [OF assms(1) _ _ m(2) refl] post rest True
        send_rest_Done [OF m(3,1,2) assms(3,4)] by auto
  qed
qed


lemma roomy_send:
  "\<exists>w'. rpc_send roomy_env 5 sample_segments 3 9 6 10 initial_world = Done 0 w' \<and>
     send_done 5 1 [1, 2, 4, 5] 9 6 initial_world 0 w'"
proof -
  note wm = with_message_facts [OF wf_initial_world]
  have one: "w_next initial_world = 1" by (simp add: initial_world_def)
  have "wp (init_message roomy_env 5 1 9 6 10) (\<lambda>rc w'. rc = 0) (\<lambda>_ _. False) (with_message initial_world)"
    unfolding init_message_def fop_init_def fop_data_alloc_def
    by (intro wp_rules) (use wm(2) in \<open>auto simp: roomy_simps one msg_fop_simps\<close>)
  then obtain w1 where w1: "init_message roomy_env 5 1 9 6 10 (with_message initial_world) = Done 0 w1"
    by (auto dest: wp_returns)
  have post: "init_message_post 5 1 9 6 (with_message initial_world) 0 w1"
    using wp_DoneD [OF init_message_wp [OF wm(2) _ roomy_fops_typed] w1 [folded one]] by (simp add: one)
  then obtain m where m: "w_heap w1 1 = Some (Message_obj m)" "ready_message 5 9 6 m" "wf_world w1"
    using wm(1) by (auto simp: init_message_post_def Let_def same_but_def)
  have at: "rpclite_fop_at w1 (Msg_fop 1)"
    using m by (auto simp: rpclite_fop_at_def msg_fop_simps ready_message_def)
  have "unat (scast (len_sum sample_segments) :: u64) = 4"
    by (simp add: scast_small unat_len_sum sample_facts(5))
  then have "fill_rpclite_fop roomy_env (Msg_fop 1) sample_segments 3 w1 =
      Done () (filled (Msg_fop 1) sample_segments w1)"
    using fill_run [OF m(3) at sample_facts(4)]
    by (simp add: sample_the_segments sample_facts(5) roomy_simps)
  then obtain w' where "rpc_send roomy_env 5 sample_segments 3 9 6 10 initial_world = Done 0 w'"
    using w1 one
    by (simp add: rpc_send_def prog_simps world_simps roomy_simps roomy_not_too_big with_message_def)
  with send_outcomes [OF wf_initial_world roomy_fops_typed sample_facts(4) _ this] show ?thesis
    by (auto simp: sample_the_segments sample_facts(5,6) one send_failed_def)
qed


section \<open>Replies\<close>

fun called_back :: "call \<times> answer \<Rightarrow> (fptr \<times> addr \<times> addr \<times> rpc_status) list" where
  "called_back (Fop (User_reply_callback f c ctx st), ans) = [(f, c, ctx, st)]"
| "called_back _ = []"

definition callbacks :: "log \<Rightarrow> (fptr \<times> addr \<times> addr \<times> rpc_status) list" where
  "callbacks l = concat (map called_back l)"

text \<open>The status a caller is told, from the error Mero left in the item.\<close>

definition reply_status :: "c_int \<Rightarrow> rpc_status" where
  "reply_status e = (if - e = ETIMEDOUT then RPC_TIMEOUT else if e = 0 then RPC_OK else RPC_FAILED)"

definition replied_post :: "addr \<Rightarrow> rpclite_senderside_message \<Rightarrow> c_int \<Rightarrow> world \<Rightarrow> world \<Rightarrow> bool" where
  "replied_post p m e w w' \<longleftrightarrow>
    (let l = new_log w w' in
      w_log w' = w_log w @ l \<and> w_heap w' = w_heap w \<and> w_next w' = w_next w \<and>
      callbacks l = [(msg_reply_callback m, msg_c m, msg_ctx m, reply_status e)] \<and>
      last l = (Fop (M0_fop_put (Msg_fop p)), RVoid) \<and>
      (\<forall>r. held (w_log w') r = held (w_log w) r - (if r = Fop_reference (Msg_fop p) then 1 else 0)) \<and>
      (if e = 0 then one_more_sample RPC_STAT_SEND w w' else rpc_stat w' = rpc_stat w))"

lemma replied_wp:
  assumes "w_heap w p = Some (Message_obj m)" and "p \<noteq> NULL"
    and "length (rpc_stat w) = stat_index RPC_STAT_NR"
    and "unat (rs_num (rpc_stat w ! stat_index RPC_STAT_SEND)) < 2 ^ 32 - 1"
  shows "wp (rpclite_replied env p)
    (\<lambda>_. replied_post p m (ans_int env (w_log w) (Fop (Read_ri_error (Msg_fop p)))) w)
    (\<lambda>r _. r = Undefined Null_call \<and> msg_reply_callback m = NULL) w"
  unfolding rpclite_replied_def
  by (intro wp_rules)
    (use assms in \<open>auto simp: replied_post_def reply_status_def new_log_def Let_def held_simps
      callbacks_def one_more_sample_def stat_lock_log_def stat_update_None_iff u32_succ_zero_iff
      ETIMEDOUT_def\<close>)

text \<open>
  A reply reaches its caller exactly once. \<open>rpclite_replied\<close> calls the callback the sender gave,
  once, with the sender's connection and context, and with a status that is \<open>RPC_TIMEOUT\<close> for the error
  \<open>-ETIMEDOUT\<close>, \<open>RPC_OK\<close> for no error and \<open>RPC_FAILED\<close> otherwise; only then does it drop the reference to
  the message. The sending statistic counts exactly the messages without an error.
\<close>

theorem replied_calls_back_once:
  assumes "w_heap w p = Some (Message_obj m)" and "p \<noteq> NULL" and "msg_reply_callback m \<noteq> NULL"
    and "length (rpc_stat w) = stat_index RPC_STAT_NR"
    and "unat (rs_num (rpc_stat w ! stat_index RPC_STAT_SEND)) < 2 ^ 32 - 1"
  shows "\<exists>w'. rpclite_replied env p w = Done () w' \<and>
    replied_post p m (ans_int env (w_log w) (Fop (Read_ri_error (Msg_fop p)))) w w'"
  using replied_wp [OF assms(1,2,4,5), of env] assms(3)
  by (cases "rpclite_replied env p w") (auto simp: wp_def)

definition sample_message :: rpclite_senderside_message where
  "sample_message = zero_message\<lparr>msg_c := 5, msg_ctx := 6, msg_reply_callback := 9\<rparr>"

definition sample_message_world :: world where
  "sample_message_world = initial_world\<lparr>w_heap := [1 \<mapsto> Message_obj sample_message], w_next := 2\<rparr>"

definition late_env :: env where
  "late_env = willing_env\<lparr>ans_int := (\<lambda>l c. - ETIMEDOUT)\<rparr>"

lemma sample_message_facts:
  "w_heap sample_message_world 1 = Some (Message_obj sample_message)"
  "length (rpc_stat sample_message_world) = stat_index RPC_STAT_NR"
  "unat (rs_num (rpc_stat sample_message_world ! stat_index RPC_STAT_SEND)) < 2 ^ 32 - 1"
  by (simp_all add: sample_message_world_def rpc_stat_initial zero_statistic_def)

text \<open>
  A message without a callback cannot be answered: although \<open>NULL\<close> is documented to mean that no
  callback is needed, \<open>rpclite_replied\<close> then calls through the \<open>NULL\<close> pointer, for every reply.
\<close>

theorem replied_null_callback:
  assumes "w_heap w p = Some (Message_obj m)" and "p \<noteq> NULL" and "msg_reply_callback m = NULL"
    and "length (rpc_stat w) = stat_index RPC_STAT_NR"
    and "unat (rs_num (rpc_stat w ! stat_index RPC_STAT_SEND)) < 2 ^ 32 - 1"
  shows "\<exists>w'. rpclite_replied env p w = Stop (Undefined Null_call) w'"
proof -
  have "wp (rpclite_replied env p) (\<lambda>_ _. False) (\<lambda>r _. r = Undefined Null_call) w"
    unfolding rpclite_replied_def
    by (intro wp_rules)
      (use assms in \<open>auto simp: stat_update_None_iff u32_succ_zero_iff\<close>)
  then show ?thesis by (cases "rpclite_replied env p w") (auto simp: wp_def)
qed

lemma release_run:
  assumes "w_heap w p = Some ob" and "p \<noteq> NULL" and "w_log w = w_log w0 @ l"
  shows "\<exists>w'. rpclite_senderside_free_nonuser_memory p w = Done () w' \<and>
    w_heap w' = (w_heap w)(p := None) \<and> held (w_log w') = held (w_log w) \<and>
    callbacks (new_log w0 w') = callbacks (new_log w0 w)"
  using assms
  by (simp add: rpclite_senderside_free_nonuser_memory_def prog_simps world_simps new_log_def
      callbacks_def held_simps fun_eq_iff)



end
