(* ===== verification/Rpclite_Fom.thy ===== *)
theory Rpclite_Fom
  imports Rpclite_Send
begin

text \<open>
  The receiving side (\<^verbatim>\<open>rpclite_fom.c\<close>): Mero creates a fom (an operation to be executed) for every
  arriving fop, ticks it once, which runs the callback the listener registered and replies, and
  finalises it.
\<close>

datatype fom_state_outcome = M0_FSO_AGAIN | M0_FSO_WAIT

definition ENOMEM :: c_int where
  "ENOMEM = 12"

definition load_fom :: "addr \<Rightarrow> m0_fom cprog" where
  "load_fom p = cbind (load p) (\<lambda>ob.
     case ob of Fom_obj x \<Rightarrow> cret x | _ \<Rightarrow> cstop (Undefined Dangling_pointer))"

definition m0_fom_rpclite_home_locality :: "env \<Rightarrow> addr \<Rightarrow> u64 cprog" where
  "m0_fom_rpclite_home_locality env fom =
     cthen (cassert (fom \<noteq> NULL)) (
     cbind (load_fom fom) (\<lambda>x.
     ext_u64 env (Fom (M0_fop_opcode (fo_fop x)))))"

text \<open>\<open>ast->sa_datum\<close> is the link the request was posted for.\<close>

definition load_ast :: "addr \<Rightarrow> addr cprog" where
  "load_ast p = cbind (load p) (\<lambda>ob.
     case ob of Ast_obj link \<Rightarrow> cret link | _ \<Rightarrow> cstop (Undefined Dangling_pointer))"

definition disconnected_ast :: "addr \<Rightarrow> unit cprog" where
  "disconnected_ast ast =
     cbind (load_ast ast) (\<lambda>link.
     cthen (ext_void (Fom (M0_clink_del link))) (
     cthen (ext_void (Fom (M0_clink_fini link))) (
     cthen (free link) (
     free ast))))"

text \<open>The state of the session decides only whether a line is printed.\<close>

definition disconnected_cb :: "env \<Rightarrow> addr \<Rightarrow> bool cprog" where
  "disconnected_cb env link =
     cbind (ext_int env (Fom (Read_sm_state link))) (\<lambda>sm_state. cret True)"

text \<open>\<open>m0_fop_reply_alloc\<close> gives \<open>NULL\<close> or a new fop, whose contents are Mero's choice.\<close>

definition fop_reply_alloc :: "env \<Rightarrow> addr \<Rightarrow> fop_type \<Rightarrow> addr cprog" where
  "fop_reply_alloc env fop t = (\<lambda>w.
     let c = Fom (M0_fop_reply_alloc fop t) in
     if ans_addr env (w_log w) c = NULL then Done NULL (log_call c (RAddr NULL) w)
     else Done (w_next w)
            (log_call c (RAddr (w_next w))
              (mem_put (w_next w) (Fop_obj (ans_fop env (w_log w) c)) (w\<lparr>w_next := Suc (w_next w)\<rparr>))))"

definition set_f_seq :: "fop_ref \<Rightarrow> u32 \<Rightarrow> unit cprog" where
  "set_f_seq f v = cbind (load_fop f) (\<lambda>x.
     case fop_data x of
       Rpclite_rep_data _ \<Rightarrow> store_fop f (x\<lparr>fop_data := Rpclite_rep_data v\<rparr>)
     | _ \<Rightarrow> cstop (Undefined Dangling_pointer))"

text \<open>The condition of the \<open>if\<close>: no callback, or the callback wants a reply. Its context is \<open>NULL\<close>.\<close>

definition wants_reply :: "env \<Rightarrow> addr \<Rightarrow> bool cprog" where
  "wants_reply env fom =
     cbind (cgets (\<lambda>w. receive_callback (rpclite_listen_cbs w))) (\<lambda>cb.
     if cb = NULL then cret True else
     cbind (load_fom fom) (\<lambda>x.
     cbind (ext_int env (Fom (User_receive_callback cb (fo_fop x) NULL))) (\<lambda>r.
     cret (r = 0))))"

definition post_reply :: "env \<Rightarrow> addr \<Rightarrow> unit cprog" where
  "post_reply env fom =
     cbind (load_fom fom) (\<lambda>x.
     cbind (fop_reply_alloc env (fo_fop x) Rpclite_rep_fopt) (\<lambda>fop.
     cthen (cassert (fop \<noteq> NULL)) (
     cthen (set_f_seq (Own_fop fop) 1) (
     cbind (ext_addr env (Fom (M0_fop_to_rpc_item fop))) (\<lambda>item.
     ext_void (Fom (M0_rpc_reply_post (fo_fop x) item)))))))"

definition m0_fom_rpclite_state :: "env \<Rightarrow> addr \<Rightarrow> fom_state_outcome cprog" where
  "m0_fom_rpclite_state env fom =
     cbind (wants_reply env fom) (\<lambda>reply.
     cthen (cwhen reply (post_reply env fom)) (
     cthen (ext_void (Fom (M0_fom_phase_set_finish fom))) (
     cret M0_FSO_WAIT)))"

text \<open>\<open>m0_fom_init\<close> writes the fom; which fop it then refers to is Mero's answer.\<close>

definition fom_init :: "env \<Rightarrow> addr \<Rightarrow> addr \<Rightarrow> addr \<Rightarrow> unit cprog" where
  "fom_init env fom fop reqh =
     cbind (ext_addr env (Fom (M0_fom_init fom fop reqh))) (\<lambda>q.
     cbind (load_fom fom) (\<lambda>x.
     store fom (Fom_obj (x\<lparr>fo_fop := q\<rparr>))))"

definition rpclite_fop_fom_create :: "env \<Rightarrow> addr \<Rightarrow> addr \<Rightarrow> addr \<Rightarrow> (c_int \<times> addr option) cprog" where
  "rpclite_fop_fom_create env fop m reqh =
     cthen (cassert (fop \<noteq> NULL)) (
     cthen (cassert (m \<noteq> NULL)) (
     cbind (alloc env Sizeof_fom (Fom_obj \<lparr>fo_fop = NULL\<rparr>)) (\<lambda>fom.
     if fom = NULL then cret (- ENOMEM, None) else
     cthen (fom_init env fom fop reqh) (
     cret (0, Some fom)))))"

definition m0_fop_rpclite_fom_fini :: "addr \<Rightarrow> unit cprog" where
  "m0_fop_rpclite_fom_fini fom = cseq
     [ext_void (Fom (M0_fom_fini fom)),
      free fom]"

section \<open>How it runs\<close>

lemma wp_load_fom [wp_rules]:
  "(\<And>x. p \<noteq> NULL \<Longrightarrow> w_heap w p = Some (Fom_obj x) \<Longrightarrow> Q x w) \<Longrightarrow>
   (\<And>u. p = NULL \<or> (\<nexists>x. w_heap w p = Some (Fom_obj x)) \<Longrightarrow> E (Undefined u) w) \<Longrightarrow>
   wp (load_fom p) Q E w"
  unfolding load_fom_def
  by (intro wp_rules) (auto simp: wp_def cret_def cstop_def split: obj.splits)

lemma wp_load_ast [wp_rules]:
  "(\<And>l. p \<noteq> NULL \<Longrightarrow> w_heap w p = Some (Ast_obj l) \<Longrightarrow> Q l w) \<Longrightarrow>
   (\<And>u. p = NULL \<or> (\<nexists>l. w_heap w p = Some (Ast_obj l)) \<Longrightarrow> E (Undefined u) w) \<Longrightarrow>
   wp (load_ast p) Q E w"
  unfolding load_ast_def
  by (intro wp_rules) (auto simp: wp_def cret_def cstop_def split: obj.splits)

lemma wp_fop_reply_alloc [wp_rules]:
  "(ans_addr env (w_log w) (Fom (M0_fop_reply_alloc f t)) \<noteq> NULL \<Longrightarrow>
      Q (w_next w) (log_call (Fom (M0_fop_reply_alloc f t)) (RAddr (w_next w))
        (mem_put (w_next w) (Fop_obj (ans_fop env (w_log w) (Fom (M0_fop_reply_alloc f t))))
          (w\<lparr>w_next := Suc (w_next w)\<rparr>)))) \<Longrightarrow>
   (ans_addr env (w_log w) (Fom (M0_fop_reply_alloc f t)) = NULL \<Longrightarrow>
      Q NULL (log_call (Fom (M0_fop_reply_alloc f t)) (RAddr NULL) w)) \<Longrightarrow>
   wp (fop_reply_alloc env f t) Q E w"
  by (simp add: wp_def fop_reply_alloc_def Let_def)

lemma wp_set_f_seq [wp_rules]:
  "(\<And>x a. fop_at w f = Some x \<Longrightarrow> fop_data x = Rpclite_rep_data a \<Longrightarrow>
      Q () (put_fop f (x\<lparr>fop_data := Rpclite_rep_data v\<rparr>) w)) \<Longrightarrow>
   (\<And>u. (\<nexists>x a. fop_at w f = Some x \<and> fop_data x = Rpclite_rep_data a) \<Longrightarrow> E (Undefined u) w) \<Longrightarrow>
   wp (set_f_seq f v) Q E w"
  unfolding set_f_seq_def
  by (intro wp_rules) (auto simp: wp_def prog_simps world_simps split: fop_data.splits)

text \<open>The deliveries to the listener and the replies posted, in order.\<close>

fun received_by :: "call \<times> answer \<Rightarrow> (fptr \<times> addr \<times> addr) list" where
  "received_by (Fom (User_receive_callback f fop ctx), ans) = [(f, fop, ctx)]"
| "received_by _ = []"

fun replied_to :: "call \<times> answer \<Rightarrow> addr list" where
  "replied_to (Fom (M0_rpc_reply_post fop item), ans) = [fop]"
| "replied_to _ = []"

definition deliveries :: "log \<Rightarrow> (fptr \<times> addr \<times> addr) list" where
  "deliveries l = concat (map received_by l)"

definition replies :: "log \<Rightarrow> addr list" where
  "replies l = concat (map replied_to l)"

text \<open>Mero gives a reply fop a payload of the reply type.\<close>

definition replies_typed :: "env \<Rightarrow> bool" where
  "replies_typed env \<longleftrightarrow>
    (\<forall>l f. \<exists>a. fop_data (ans_fop env l (Fom (M0_fop_reply_alloc f Rpclite_rep_fopt))) = Rpclite_rep_data a)"

definition should_reply :: "env \<Rightarrow> m0_fom \<Rightarrow> world \<Rightarrow> bool" where
  "should_reply env x w \<longleftrightarrow>
    (let cb = receive_callback (rpclite_listen_cbs w) in
     cb = NULL \<or> ans_int env (w_log w) (Fom (User_receive_callback cb (fo_fop x) NULL)) = 0)"

definition fom_state_post :: "env \<Rightarrow> addr \<Rightarrow> m0_fom \<Rightarrow> world \<Rightarrow> fom_state_outcome \<Rightarrow> world \<Rightarrow> bool" where
  "fom_state_post env p x w res w' \<longleftrightarrow>
    (let l = new_log w w'; cb = receive_callback (rpclite_listen_cbs w) in
      res = M0_FSO_WAIT \<and>
      deliveries l = (if cb = NULL then [] else [(cb, fo_fop x, NULL)]) \<and>
      replies l = (if should_reply env x w then [fo_fop x] else []) \<and>
      last l = (Fom (M0_fom_phase_set_finish p), RVoid) \<and>
      (\<forall>q. q \<noteq> w_next w \<longrightarrow> w_heap w' q = w_heap w q) \<and>
      (should_reply env x w \<longrightarrow> (\<exists>y. fop_at w' (Own_fop (w_next w)) = Some y \<and>
         fop_data y = Rpclite_rep_data 1)))"

lemma fom_state_wp:
  assumes "wf_world w" and "w_heap w p = Some (Fom_obj x)" and "replies_typed env"
  shows "wp (m0_fom_rpclite_state env p) (fom_state_post env p x w)
    (\<lambda>r w'. r = Assertion_failed \<and> should_reply env x w \<and> replies (new_log w w') = []) w"
proof -
  have p: "p \<noteq> NULL" "p \<noteq> w_next w" "w_next w \<noteq> NULL"
    using wf_world_live [OF assms(1,2)] by auto
  show ?thesis
    unfolding m0_fom_rpclite_state_def wants_reply_def post_reply_def
    by (intro wp_rules)
      (use assms(2,3) p in \<open>auto simp: fom_state_post_def should_reply_def Let_def new_log_def
        deliveries_def replies_def replies_typed_def fop_at_def fop_addr_def put_fop_def
        split: if_splits\<close>)
qed

section \<open>Properties\<close>

text \<open>
  C33. One tick of a fom. The listener's callback, if there is one, is called exactly once with the arrived
  fop (and a \<open>NULL\<close> context); a reply to that fop is posted exactly if there is no callback or it
  returned zero, and carries \<open>f_seq = true\<close>; the fom ends in its final phase. The only other end is the
  assertion that the reply could be allocated, before anything was replied; without a reply to post, the
  tick always returns.
\<close>

theorem fom_state_contract:
  assumes "wf_world w" and "w_heap w p = Some (Fom_obj x)" and "replies_typed env"
  shows "(\<exists>res w'. m0_fom_rpclite_state env p w = Done res w' \<and> fom_state_post env p x w res w') \<or>
    (\<exists>w'. m0_fom_rpclite_state env p w = Stop Assertion_failed w' \<and> should_reply env x w \<and>
      replies (new_log w w') = [])"
  using fom_state_wp [OF assms] by (cases "m0_fom_rpclite_state env p w") (auto simp: wp_def)

definition sample_fom_world :: world where
  "sample_fom_world = initial_world\<lparr>w_heap := [1 \<mapsto> Fom_obj \<lparr>fo_fop = 8\<rparr>], w_next := 2,
     rpclite_listen_cbs := no_listen_callbacks\<lparr>receive_callback := 3\<rparr>\<rparr>"

lemma sample_fom_facts:
  "wf_world sample_fom_world" "w_heap sample_fom_world 1 = Some (Fom_obj \<lparr>fo_fop = 8\<rparr>)"
  "replies_typed willing_env"
  by (simp_all add: sample_fom_world_def wf_world_def replies_typed_def willing_env_def willing_fop_def)

theorem fom_state_contract_witness:
  "\<exists>w'. m0_fom_rpclite_state willing_env 1 sample_fom_world = Done M0_FSO_WAIT w' \<and>
     deliveries (new_log sample_fom_world w') = [(3, 8, NULL)] \<and> replies (new_log sample_fom_world w') = [8]"
proof -
  have "\<exists>res w'. m0_fom_rpclite_state willing_env 1 sample_fom_world = Done res w'"
    by (simp add: m0_fom_rpclite_state_def wants_reply_def post_reply_def load_fom_def prog_simps
        world_simps sample_fom_world_def willing_env_def fop_reply_alloc_def willing_addr_def
        willing_fop_def set_f_seq_def Let_def fop_at_def fop_addr_def)
  moreover have "should_reply willing_env \<lparr>fo_fop = 8\<rparr> sample_fom_world"
    by (simp add: should_reply_def willing_env_def)
  moreover have "receive_callback (rpclite_listen_cbs sample_fom_world) = 3"
    by (simp add: sample_fom_world_def)
  ultimately show ?thesis
    using fom_state_contract [OF sample_fom_facts] by (auto simp: fom_state_post_def Let_def)
qed

text \<open>Mero's fom refers to the fop it was made for.\<close>

definition fom_keeps_fop :: "env \<Rightarrow> bool" where
  "fom_keeps_fop env \<longleftrightarrow> (\<forall>l p f r. ans_addr env l (Fom (M0_fom_init p f r)) = f)"

definition fom_create_post :: "env \<Rightarrow> addr \<Rightarrow> world \<Rightarrow> c_int \<times> addr option \<Rightarrow> world \<Rightarrow> bool" where
  "fom_create_post env fop w res w' \<longleftrightarrow> wf_world w' \<and>
    (if ans_alloc env (w_log w) Sizeof_fom
     then res = (0, Some (w_next w)) \<and>
       (\<exists>q. w_heap w' = (w_heap w)(w_next w \<mapsto> Fom_obj \<lparr>fo_fop = q\<rparr>) \<and> (fom_keeps_fop env \<longrightarrow> q = fop)) \<and>
       (\<forall>r. held (w_log w') r = held (w_log w) r + (if r = Fom_init (w_next w) then 1 else 0))
     else res = (- ENOMEM, None) \<and> w_heap w' = w_heap w \<and> held (w_log w') = held (w_log w))"

lemma fom_create_wp:
  assumes "wf_world w" and "fop \<noteq> NULL" and "m \<noteq> NULL"
  shows "wp (rpclite_fop_fom_create env fop m reqh) (fom_create_post env fop w) (\<lambda>_ _. False) w"
  unfolding rpclite_fop_fom_create_def fom_init_def
  by (intro wp_rules)
    (use assms wf_world_next [OF assms(1)] in
      \<open>auto simp: fom_create_post_def wf_world_def held_simps fun_eq_iff fom_keeps_fop_def
        split: if_splits intro: less_SucI\<close>)

lemma fom_fini_run:
  assumes "wf_world w" and "w_heap w p = Some ob"
  shows "\<exists>w'. m0_fop_rpclite_fom_fini p w = Done () w' \<and> w_heap w' = (w_heap w)(p := None) \<and>
    wf_world w' \<and> (\<forall>r. held (w_log w') r = held (w_log w) r - (if r = Fom_init p then 1 else 0))"
  using assms wf_world_live [OF assms]
  by (simp add: m0_fop_rpclite_fom_fini_def prog_simps world_simps held_simps wf_mem_del)

lemma fom_clean_open_close:
  assumes "fop \<noteq> NULL" and "m \<noteq> NULL"
  shows "clean_open_close (rpclite_fop_fom_create env fop m reqh) (\<lambda>(rc, fom). rc = 0)
    (\<lambda>(rc, fom). m0_fop_rpclite_fom_fini (the fom)) wf_world endpoint_obs"
proof
  fix w
  assume w: "wf_world w"
  note post = wp_returns [OF fom_create_wp [OF w assms, of env reqh]]
  show "\<exists>a t. rpclite_fop_fom_create env fop m reqh w = Done a t" using post by blast
  fix a w'
  assume a: "rpclite_fop_fom_create env fop m reqh w = Done a w'"
  then have p: "fom_create_post env fop w a w'" using post by simp
  show "endpoint_obs w' = endpoint_obs w \<and> wf_world w'" if "\<not> (case a of (rc, fom) \<Rightarrow> rc = 0)"
    using p that by (auto simp: fom_create_post_def endpoint_obs_def split: if_splits)
  assume ok: "case a of (rc, fom) \<Rightarrow> rc = 0"
  have "(0 :: c_int) \<noteq> - ENOMEM" by (simp add: ENOMEM_def)
  then obtain q where q: "a = (0, Some (w_next w))" "wf_world w'"
      "w_heap w' = (w_heap w)(w_next w \<mapsto> Fom_obj \<lparr>fo_fop = q\<rparr>)"
      "\<And>r. held (w_log w') r = held (w_log w) r + (if r = Fom_init (w_next w) then 1 else 0)"
    using p ok by (auto simp: fom_create_post_def split: if_splits)
  have "(w_heap w)(w_next w := None) = w_heap w"
    using wf_world_fresh [OF w] by (simp add: fun_upd_idem)
  then show "\<exists>b u. (case a of (rc, fom) \<Rightarrow> m0_fop_rpclite_fom_fini (the fom)) w' = Done b u \<and>
      endpoint_obs u = endpoint_obs w \<and> wf_world u"
    using fom_fini_run [OF q(2), of "w_next w"] q by (auto simp: endpoint_obs_def fun_eq_iff)
qed

text \<open>
  Creating and finalising foms never leaks: whatever Mero and the allocator answer, any number of
  rounds of \<open>rpclite_fop_fom_create\<close> and, when it succeeded, \<open>m0_fop_rpclite_fom_fini\<close> runs to its end and leaves
  the heap and the resources as they were.
\<close>

theorem fom_create_fini_rounds:
  assumes "wf_world w" and "fop \<noteq> NULL" and "m \<noteq> NULL"
  shows "\<exists>k w'. rounds (rpclite_fop_fom_create env fop m reqh) (\<lambda>(rc, fom). rc = 0)
      (\<lambda>(rc, fom). m0_fop_rpclite_fom_fini (the fom)) n w = Done k w' \<and>
    k \<le> n \<and> w_heap w' = w_heap w \<and> held (w_log w') = held (w_log w)"
  using clean_open_close.all_rounds [OF fom_clean_open_close [OF assms(2,3), of env reqh] assms(1), of n]
  by (auto simp: endpoint_obs_def)

text \<open>Tearing down a disconnection notice frees both of its blocks.\<close>

lemma disconnected_ast_run:
  assumes "wf_world w" and "w_heap w ast = Some (Ast_obj link)" and "w_heap w link = Some Clink_obj"
  shows "\<exists>w'. disconnected_ast ast w = Done () w' \<and> w_heap w' = (w_heap w)(ast := None, link := None)"
proof -
  have "0 < ast" "0 < link" "ast \<noteq> link"
    using wf_world_live [OF assms(1,2)] wf_world_live [OF assms(1,3)] assms(2,3) by auto
  then have "wp (disconnected_ast ast) (\<lambda>_ w'. w_heap w' = (w_heap w)(ast := None, link := None))
      (\<lambda>_ _. False) w"
    unfolding disconnected_ast_def
    by (intro wp_rules) (use assms in \<open>auto simp: fun_eq_iff\<close>)
  then show ?thesis by (auto dest: wp_returns)
qed

end
