(* ===== verification/M0_Init.thy ===== *)
theory M0_Init
  imports Rpclite_Endpoint
begin

text \<open>
  Process-wide set-up (\<^verbatim>\<open>m0init.c\<close>) and Mero threads that run an action of the Haskell side
  (\<^verbatim>\<open>forkm0os.c\<close>).
\<close>

text \<open>\<open>m0_halon_interface_init\<close> writes the pointer it is given, to whatever Mero decides.\<close>

definition m0_init_wrapper :: "env \<Rightarrow> c_int cprog" where
  "m0_init_wrapper env =
     cbind (cgets m0init_hi) (\<lambda>hi.
     cthen (cassert (hi = NULL)) (
     cbind (ext_addr env (Sys (Getenv ''HALON_INTERFACE_DEBUG_OPTIONS''))) (\<lambda>opts.
     cbind (ext_out env (Hi (M0_halon_interface_init opts))) (\<lambda>(rc, p).
     cthen (cmodify (\<lambda>w. w\<lparr>m0init_hi := p\<rparr>)) (
     cret rc)))))"

definition m0_fini_wrapper :: "unit cprog" where
  "m0_fini_wrapper =
     cbind (cgets m0init_hi) (\<lambda>hi.
     cthen (ext_void (Hi (M0_halon_interface_fini hi))) (
     cmodify (\<lambda>w. w\<lparr>m0init_hi := NULL\<rparr>)))"

text \<open>A thread runs \<open>worker\<close> on the action it was created with.\<close>

definition worker :: "fptr \<Rightarrow> unit cprog" where
  "worker action = cseq
     [ext_void (Sys (Hs_action action)),
      ext_void (Sys (Hs_free_fun_ptr action))]"

definition forkM0OS_createThread :: "env \<Rightarrow> addr \<Rightarrow> fptr \<Rightarrow> c_int cprog" where
  "forkM0OS_createThread env t action =
     cthen (ext_void (Sys (M0_SET0 t)))
           (ext_int env (Sys (M0_thread_init t action)))"

definition forkM0OS_joinThread :: "env \<Rightarrow> addr \<Rightarrow> c_int cprog" where
  "forkM0OS_joinThread env t =
     cbind (ext_int env (Sys (M0_thread_join t))) (\<lambda>rc.
     cthen (cwhen (rc = 0) (ext_void (Sys (M0_thread_fini t)))) (
     cret rc))"

section \<open>The process-wide interface\<close>

definition interface_obs :: "world \<Rightarrow> addr \<times> (resource \<Rightarrow> int) \<times> (addr \<Rightarrow> obj option)" where
  "interface_obs w = (m0init_hi w, held (w_log w), w_heap w)"

lemma m0_init_run:
  assumes "m0init_hi w = NULL"
  shows "\<exists>rc w'. m0_init_wrapper env w = Done rc w' \<and> w_heap w' = w_heap w \<and>
    (\<forall>r. held (w_log w') r = held (w_log w) r +
       (if rc = 0 \<and> r = Halon_interface (m0init_hi w') then 1 else 0))"
proof -
  have "wp (m0_init_wrapper env) (\<lambda>rc w'. w_heap w' = w_heap w \<and>
      (\<forall>r. held (w_log w') r = held (w_log w) r +
         (if rc = 0 \<and> r = Halon_interface (m0init_hi w') then 1 else 0))) (\<lambda>_ _. False) w"
    unfolding m0_init_wrapper_def
    by (intro wp_rules) (use assms in \<open>auto simp: held_simps\<close>)
  then show ?thesis by (auto dest: wp_returns)
qed

lemma m0_fini_run [world_simps]:
  "m0_fini_wrapper w = Done ()
     ((log_call (Hi (M0_halon_interface_fini (m0init_hi w))) RVoid w)\<lparr>m0init_hi := NULL\<rparr>)"
  by (simp add: m0_fini_wrapper_def prog_simps world_simps)

interpretation halon_interface: open_close "m0_init_wrapper env" "\<lambda>rc. rc = 0" "\<lambda>rc. m0_fini_wrapper"
  "\<lambda>w. m0init_hi w = NULL" interface_obs for env
proof
  fix w rc w'
  assume w: "m0init_hi w = NULL" "m0_init_wrapper env w = Done rc w'" "rc = 0"
  then have "w_heap w' = w_heap w" and
      "\<And>r. held (w_log w') r = held (w_log w) r + (if r = Halon_interface (m0init_hi w') then 1 else 0)"
    using m0_init_run [OF w(1), of env] by auto
  then show "\<exists>b u. m0_fini_wrapper w' = Done b u \<and> interface_obs u = interface_obs w \<and> m0init_hi u = NULL"
    using w(1) by (auto simp: m0_fini_run interface_obs_def held_simps fun_eq_iff)
qed

section \<open>Properties\<close>

text \<open>
  The interface to Mero can be set up and torn down again and again: after any number of rounds of
  \<open>m0_init_wrapper\<close> and \<open>m0_fini_wrapper\<close> no interface is held and the pointer is \<open>NULL\<close>, so that the
  precondition of the next round holds.
\<close>

theorem m0_init_fini_rounds:
  assumes "m0init_hi w = NULL"
    and "rounds (m0_init_wrapper env) (\<lambda>rc. rc = 0) (\<lambda>rc. m0_fini_wrapper) n w = Done n w'"
  shows "m0init_hi w' = NULL \<and> held (w_log w') = held (w_log w) \<and> w_heap w' = w_heap w"
  using halon_interface.complete_rounds [OF assms(2,1)] by (auto simp: interface_obs_def)

text \<open>A second set-up without tearing down fails its precondition before Mero is called.\<close>

lemma m0_init_twice: "m0init_hi w \<noteq> NULL \<Longrightarrow> m0_init_wrapper env w = Stop Assertion_failed w"
  by (simp add: m0_init_wrapper_def prog_simps)

text \<open>
  A Mero thread is finalised exactly when it has been joined: after creating and joining, when both
  succeed nothing is held any more, when creation fails nothing was acquired, and when joining fails the
  thread is still there to be joined again.
\<close>

theorem fork_join_balanced:
  "\<exists>rc rc' w1 w2. forkM0OS_createThread env t action w = Done rc w1 \<and>
    forkM0OS_joinThread env t w1 = Done rc' w2 \<and>
    (rc \<noteq> 0 \<longrightarrow> held (w_log w1) = held (w_log w)) \<and>
    (rc = 0 \<and> rc' = 0 \<longrightarrow> held (w_log w2) = held (w_log w)) \<and>
    (rc = 0 \<and> rc' \<noteq> 0 \<longrightarrow> held (w_log w2) (Thread t) = held (w_log w) (Thread t) + 1)"
  by (simp add: forkM0OS_createThread_def forkM0OS_joinThread_def prog_simps world_simps held_simps
      fun_eq_iff)

text \<open>The action is run once, and its pointer released once, afterwards.\<close>

lemma worker_run:
  "worker action w = Done () (log_call (Sys (Hs_free_fun_ptr action)) RVoid
     (log_call (Sys (Hs_action action)) RVoid w))"
  by (simp add: worker_def prog_simps world_simps)

end
