(* ===== verification/Ha_State.thy ===== *)
theory Ha_State
  imports M0_Init
begin

text \<open>
  The HA state interface (\<^verbatim>\<open>hastate.c\<close>): the functions Mero calls when something happens on a link, which
  pass it on to the callbacks registered by \<open>ha_state_init\<close>, and the functions the Haskell side calls to send
  messages to Mero.
\<close>

section \<open>Events from Mero\<close>

definition user_callback :: "(ha_state_callbacks \<Rightarrow> fptr) \<Rightarrow> ha_callback_args \<Rightarrow> unit cprog" where
  "user_callback sel args = cbind (cgets (\<lambda>w. sel (ha_state_cbs w))) (\<lambda>f.
     call_fptr f (ext_void (Hi (User_ha_callback f args))))"

definition entrypoint_request_cb ::
  "addr \<Rightarrow> m0_uint128 \<Rightarrow> string \<Rightarrow> m0_fid \<Rightarrow> string \<Rightarrow> u64 \<Rightarrow> bool \<Rightarrow> unit cprog" where
  "entrypoint_request_cb hi req_id remote_rpc_endpoint proc_fid git_rev_id pid first_request =
     user_callback ha_state_entrypoint (Entrypoint_args req_id proc_fid)"

definition msg_received_cb :: "addr \<Rightarrow> addr \<Rightarrow> m0_ha_msg \<Rightarrow> u64 \<Rightarrow> unit cprog" where
  "msg_received_cb hi hl msg tag = user_callback ha_message_callback (Msg_args hl msg)"

definition msg_is_delivered_cb :: "addr \<Rightarrow> addr \<Rightarrow> u64 \<Rightarrow> unit cprog" where
  "msg_is_delivered_cb hi hl tag = user_callback ha_state_is_delivered (Tag_args hl tag)"

definition msg_is_not_delivered_cb :: "addr \<Rightarrow> addr \<Rightarrow> u64 \<Rightarrow> unit cprog" where
  "msg_is_not_delivered_cb hi hl tag = user_callback ha_state_is_cancelled (Tag_args hl tag)"

definition link_connected_cb :: "addr \<Rightarrow> m0_uint128 \<Rightarrow> addr \<Rightarrow> unit cprog" where
  "link_connected_cb hi req_id link = user_callback ha_state_link_connected (Link_req_args req_id link)"

definition link_reused_cb :: "addr \<Rightarrow> m0_uint128 \<Rightarrow> addr \<Rightarrow> unit cprog" where
  "link_reused_cb hi req_id link = user_callback ha_state_link_reused (Link_req_args req_id link)"

definition link_absent_cb :: "addr \<Rightarrow> m0_uint128 \<Rightarrow> unit cprog" where
  "link_absent_cb hi req_id = user_callback ha_state_link_absent (Req_args req_id)"

definition link_is_disconnecting_cb :: "addr \<Rightarrow> addr \<Rightarrow> unit cprog" where
  "link_is_disconnecting_cb hi link = user_callback ha_state_link_disconnecting (Link_args link)"

definition link_disconnected_cb :: "addr \<Rightarrow> addr \<Rightarrow> unit cprog" where
  "link_disconnected_cb hi link = user_callback ha_state_link_disconnected (Link_args link)"

section \<open>Start and stop\<close>

definition ha_state_init ::
  "env \<Rightarrow> string \<Rightarrow> m0_fid \<Rightarrow> m0_fid \<Rightarrow> m0_fid \<Rightarrow> ha_state_callbacks \<Rightarrow> c_int cprog" where
  "ha_state_init env local_rpc_endpoint proc_fid ha_service_fid rm_service_fid cbs =
     cthen (cmodify (\<lambda>w. w\<lparr>ha_state_cbs := cbs\<rparr>)) (
     cbind (cgets m0init_hi) (\<lambda>hi.
     ext_int env (Hi (M0_halon_interface_start hi local_rpc_endpoint proc_fid ha_service_fid rm_service_fid
       [Entrypoint_request_cb, Msg_received_cb, Msg_is_delivered_cb, Msg_is_not_delivered_cb,
        Link_connected_cb, Link_reused_cb, Link_absent_cb, Link_is_disconnecting_cb,
        Link_disconnected_cb]))))"

definition ha_state_fini :: "unit cprog" where
  "ha_state_fini = cbind (cgets m0init_hi) (\<lambda>hi. ext_void (Hi (M0_halon_interface_stop hi)))"

section \<open>Messages to Mero\<close>

text \<open>\<open>m0_halon_interface_send\<close> writes the tag of the message.\<close>

definition interface_send :: "env \<Rightarrow> addr \<Rightarrow> m0_ha_msg \<Rightarrow> u64 cprog" where
  "interface_send env hl msg =
     cbind (cgets m0init_hi) (\<lambda>hi. ext_u64 env (Hi (M0_halon_interface_send hi hl msg)))"

definition ha_state_notify :: "env \<Rightarrow> addr \<Rightarrow> m0_ha_msg_nvec \<Rightarrow> m0_fid \<Rightarrow> m0_fid \<Rightarrow> u64 \<Rightarrow> u64 cprog" where
  "ha_state_notify env hl note src_process_fid src_service_fid epoch =
     cbind (ext_u64 env (Sys M0_time_now)) (\<lambda>now.
     interface_send env hl
       \<lparr>hm_fid = M0_FID_INIT 0 0, hm_source_process = src_process_fid,
        hm_source_service = src_service_fid, hm_time = now, hm_epoch = epoch,
        hm_data = M0_HA_MSG_NVEC note\<rparr>)"

text \<open>The dummy epochs are the characters \<open>f\<close> and \<open>p\<close>.\<close>

definition ha_state_failure_vec_reply ::
  "env \<Rightarrow> addr \<Rightarrow> m0_ha_msg_failure_vec_rep \<Rightarrow> m0_fid \<Rightarrow> m0_fid \<Rightarrow> u64 cprog" where
  "ha_state_failure_vec_reply env hl fvec src_process_fid src_service_fid =
     cbind (ext_u64 env (Sys M0_time_now)) (\<lambda>now.
     interface_send env hl
       \<lparr>hm_fid = mfp_pool fvec, hm_source_process = src_process_fid,
        hm_source_service = src_service_fid, hm_time = now, hm_epoch = of_char (CHR ''f''),
        hm_data = M0_HA_MSG_FAILURE_VEC_REP fvec\<rparr>)"

definition ha_state_ping_process ::
  "env \<Rightarrow> addr \<Rightarrow> m0_uint128 \<Rightarrow> m0_fid \<Rightarrow> m0_fid \<Rightarrow> m0_fid \<Rightarrow> u64 cprog" where
  "ha_state_ping_process env hl req_id proc_fid src_process_fid src_service_fid =
     cbind (ext_u64 env (Sys M0_time_now)) (\<lambda>now.
     interface_send env hl
       \<lparr>hm_fid = proc_fid, hm_source_process = src_process_fid,
        hm_source_service = src_service_fid, hm_time = now, hm_epoch = of_char (CHR ''p''),
        hm_data = M0_HA_MSG_KEEPALIVE_REQ req_id\<rparr>)"

definition ha_state_disconnect :: "addr \<Rightarrow> unit cprog" where
  "ha_state_disconnect hl =
     cbind (cgets m0init_hi) (\<lambda>hi. ext_void (Hi (M0_halon_interface_disconnect hi hl)))"

text \<open>The two arrays of the entrypoint reply are read by Mero, not here.\<close>

definition ha_entrypoint_reply ::
  "m0_uint128 \<Rightarrow> c_int \<Rightarrow> u32 \<Rightarrow> m0_fid list \<Rightarrow> string list \<Rightarrow> u32 \<Rightarrow> m0_fid \<Rightarrow> string \<Rightarrow> unit cprog" where
  "ha_entrypoint_reply req_id rc confd_fid_size confd_fid_data confd_eps_data confd_quorum rm_fid rm_eps =
     cbind (cgets m0init_hi) (\<lambda>hi. ext_void (Hi (M0_halon_interface_entrypoint_reply hi req_id rc
       confd_fid_size confd_fid_data confd_eps_data confd_quorum rm_fid rm_eps)))"

definition ha_state_delivered :: "addr \<Rightarrow> m0_ha_msg \<Rightarrow> unit cprog" where
  "ha_state_delivered hl msg =
     cbind (cgets m0init_hi) (\<lambda>hi. ext_void (Hi (M0_halon_interface_delivered hi hl msg)))"

definition ha_state_rpc_machine :: "env \<Rightarrow> rpc_machine cprog" where
  "ha_state_rpc_machine env = cbind (cgets m0init_hi) (\<lambda>hi.
     cbind (ext_addr env (Hi (M0_halon_interface_rpc_machine hi))) (\<lambda>p. cret (Foreign_machine p)))"

section \<open>Dispatch\<close>

text \<open>What Mero can report, and the function among those given to \<open>m0_halon_interface_start\<close> that it calls.\<close>

datatype hi_event =
    Entrypoint_request m0_uint128 string m0_fid string u64 bool
  | Msg_received addr m0_ha_msg u64
  | Msg_is_delivered addr u64
  | Msg_is_not_delivered addr u64
  | Link_connected m0_uint128 addr
  | Link_reused m0_uint128 addr
  | Link_absent m0_uint128
  | Link_is_disconnecting addr
  | Link_disconnected addr

fun handle_event :: "addr \<Rightarrow> hi_event \<Rightarrow> unit cprog" where
  "handle_event hi (Entrypoint_request i a f g p b) = entrypoint_request_cb hi i a f g p b"
| "handle_event hi (Msg_received l m t) = msg_received_cb hi l m t"
| "handle_event hi (Msg_is_delivered l t) = msg_is_delivered_cb hi l t"
| "handle_event hi (Msg_is_not_delivered l t) = msg_is_not_delivered_cb hi l t"
| "handle_event hi (Link_connected i l) = link_connected_cb hi i l"
| "handle_event hi (Link_reused i l) = link_reused_cb hi i l"
| "handle_event hi (Link_absent i) = link_absent_cb hi i"
| "handle_event hi (Link_is_disconnecting l) = link_is_disconnecting_cb hi l"
| "handle_event hi (Link_disconnected l) = link_disconnected_cb hi l"

text \<open>
  The contract of the header, stated apart from the code: which callback an event is for, and with what.
\<close>

fun expected_callback :: "hi_event \<Rightarrow> (ha_state_callbacks \<Rightarrow> fptr) \<times> ha_callback_args" where
  "expected_callback (Entrypoint_request i a f g p b) = (ha_state_entrypoint, Entrypoint_args i f)"
| "expected_callback (Msg_received l m t) = (ha_message_callback, Msg_args l m)"
| "expected_callback (Msg_is_delivered l t) = (ha_state_is_delivered, Tag_args l t)"
| "expected_callback (Msg_is_not_delivered l t) = (ha_state_is_cancelled, Tag_args l t)"
| "expected_callback (Link_connected i l) = (ha_state_link_connected, Link_req_args i l)"
| "expected_callback (Link_reused i l) = (ha_state_link_reused, Link_req_args i l)"
| "expected_callback (Link_absent i) = (ha_state_link_absent, Req_args i)"
| "expected_callback (Link_is_disconnecting l) = (ha_state_link_disconnecting, Link_args l)"
| "expected_callback (Link_disconnected l) = (ha_state_link_disconnected, Link_args l)"

definition all_set :: "ha_state_callbacks \<Rightarrow> bool" where
  "all_set cbs \<longleftrightarrow> (\<forall>e. fst (expected_callback e) cbs \<noteq> NULL)"

definition callback_entry :: "ha_state_callbacks \<Rightarrow> hi_event \<Rightarrow> call \<times> answer" where
  "callback_entry cbs e =
     (Hi (User_ha_callback (fst (expected_callback e) cbs) (snd (expected_callback e))), RVoid)"

lemmas event_cb_defs = entrypoint_request_cb_def msg_received_cb_def msg_is_delivered_cb_def
  msg_is_not_delivered_cb_def link_connected_cb_def link_reused_cb_def link_absent_cb_def
  link_is_disconnecting_cb_def link_disconnected_cb_def

lemma handle_event_run:
  assumes "fst (expected_callback e) (ha_state_cbs w) \<noteq> NULL"
  shows "handle_event hi e w = Done () (logged [callback_entry (ha_state_cbs w) e] w)"
  using assms
  by (cases e) (simp_all add: event_cb_defs user_callback_def callback_entry_def prog_simps world_simps
      log_call_logged)

lemma handle_event_null:
  "fst (expected_callback e) (ha_state_cbs w) = NULL \<Longrightarrow> handle_event hi e w = Stop (Undefined Null_call) w"
  by (cases e) (simp_all add: event_cb_defs user_callback_def prog_simps world_simps)

lemma handle_events_run:
  "all_set (ha_state_cbs w) \<Longrightarrow>
   cseq (map (handle_event hi) es) w = Done () (logged (map (callback_entry (ha_state_cbs w)) es) w)"
  by (induction es arbitrary: w) (auto simp: prog_simps handle_event_run all_set_def logged_def)

section \<open>A whole session\<close>

text \<open>What the Haskell side and Mero can do between start and stop, in any order.\<close>

datatype ha_op =
    Notify addr m0_ha_msg_nvec m0_fid m0_fid u64
  | Failure_vec_reply addr m0_ha_msg_failure_vec_rep m0_fid m0_fid
  | Ping_process addr m0_uint128 m0_fid m0_fid m0_fid
  | Disconnect addr
  | Entrypoint_reply m0_uint128 c_int u32 "m0_fid list" "string list" u32 m0_fid string
  | Delivered addr m0_ha_msg
  | Get_rpc_machine
  | Event hi_event

fun run_op :: "env \<Rightarrow> ha_op \<Rightarrow> unit cprog" where
  "run_op env (Notify l n p s e) = cthen (ha_state_notify env l n p s e) (cret ())"
| "run_op env (Failure_vec_reply l v p s) = cthen (ha_state_failure_vec_reply env l v p s) (cret ())"
| "run_op env (Ping_process l i f p s) = cthen (ha_state_ping_process env l i f p s) (cret ())"
| "run_op env (Disconnect l) = ha_state_disconnect l"
| "run_op env (Entrypoint_reply i rc n fs es q f e) = ha_entrypoint_reply i rc n fs es q f e"
| "run_op env (Delivered l m) = ha_state_delivered l m"
| "run_op env Get_rpc_machine = cthen (ha_state_rpc_machine env) (cret ())"
| "run_op env (Event e) = cbind (cgets m0init_hi) (\<lambda>hi. handle_event hi e)"

definition ha_session ::
  "env \<Rightarrow> string \<Rightarrow> m0_fid \<Rightarrow> m0_fid \<Rightarrow> m0_fid \<Rightarrow> ha_state_callbacks \<Rightarrow> ha_op list \<Rightarrow> c_int cprog" where
  "ha_session env ep proc ha rm cbs ops =
     cbind (m0_init_wrapper env) (\<lambda>rc.
     if rc \<noteq> 0 then cret rc else
     cbind (ha_state_init env ep proc ha rm cbs) (\<lambda>rc.
     if rc \<noteq> 0 then cthen m0_fini_wrapper (cret rc) else
     cthen (cseq (map (run_op env) ops)) (
     cthen (ha_state_fini) (
     cthen (m0_fini_wrapper) (
     cret 0)))))"

text \<open>The interface pointers handed to Mero, and the callbacks made to the Haskell side.\<close>

fun hi_used :: "call \<times> answer \<Rightarrow> addr list" where
  "hi_used (Hi (M0_halon_interface_fini hi), a) = [hi]"
| "hi_used (Hi (M0_halon_interface_start hi ep f g h cbs), a) = [hi]"
| "hi_used (Hi (M0_halon_interface_stop hi), a) = [hi]"
| "hi_used (Hi (M0_halon_interface_send hi l m), a) = [hi]"
| "hi_used (Hi (M0_halon_interface_disconnect hi l), a) = [hi]"
| "hi_used (Hi (M0_halon_interface_delivered hi l m), a) = [hi]"
| "hi_used (Hi (M0_halon_interface_entrypoint_reply hi i rc n fs es q f e), a) = [hi]"
| "hi_used (Hi (M0_halon_interface_rpc_machine hi), a) = [hi]"
| "hi_used (Hi (M0_halon_interface_spiel hi), a) = [hi]"
| "hi_used _ = []"

fun user_call :: "call \<times> answer \<Rightarrow> (fptr \<times> ha_callback_args) list" where
  "user_call (Hi (User_ha_callback f args), a) = [(f, args)]"
| "user_call _ = []"

definition interfaces :: "log \<Rightarrow> addr set" where
  "interfaces l = set (concat (map hi_used l))"

definition user_calls :: "log \<Rightarrow> (fptr \<times> ha_callback_args) list" where
  "user_calls l = concat (map user_call l)"

fun op_calls :: "ha_state_callbacks \<Rightarrow> ha_op \<Rightarrow> (fptr \<times> ha_callback_args) list" where
  "op_calls cbs (Event e) = [(fst (expected_callback e) cbs, snd (expected_callback e))]"
| "op_calls cbs _ = []"

text \<open>What the operations leave in the log: nothing acquired or released, one interface, the right callbacks.\<close>

definition op_log :: "addr \<Rightarrow> (fptr \<times> ha_callback_args) list \<Rightarrow> log \<Rightarrow> bool" where
  "op_log hi cs l \<longleftrightarrow> (\<forall>r. held l r = 0) \<and> interfaces l \<subseteq> {hi} \<and> user_calls l = cs"

lemma op_log_append: "op_log hi cs l \<Longrightarrow> op_log hi ds k \<Longrightarrow> op_log hi (cs @ ds) (l @ k)"
  by (auto simp: op_log_def held_append interfaces_def user_calls_def)

definition op_step :: "addr \<Rightarrow> (fptr \<times> ha_callback_args) list \<Rightarrow> world \<Rightarrow> world \<Rightarrow> bool" where
  "op_step hi cs w w' \<longleftrightarrow> w' = logged (new_log w w') w \<and> op_log hi cs (new_log w w')"

lemma op_step_trans: "op_step hi cs w w1 \<Longrightarrow> op_step hi ds w1 w2 \<Longrightarrow> op_step hi (cs @ ds) w w2"
  unfolding op_step_def by (metis logged_logged new_log_logged op_log_append)

lemma run_op_step:
  assumes "all_set (ha_state_cbs w)"
  shows "\<exists>w'. run_op env op w = Done () w' \<and> op_step (m0init_hi w) (op_calls (ha_state_cbs w) op) w w'"
proof (cases op)
  case (Event e)
  then show ?thesis
    using assms
    by (auto simp: prog_simps handle_event_run all_set_def callback_entry_def op_step_def op_log_def
        held_simps interfaces_def user_calls_def)
qed (simp_all add: ha_state_notify_def ha_state_failure_vec_reply_def ha_state_ping_process_def
    interface_send_def ha_state_disconnect_def ha_entrypoint_reply_def ha_state_delivered_def
    ha_state_rpc_machine_def prog_simps world_simps log_call_logged op_step_def op_log_def held_simps
    interfaces_def user_calls_def)

lemma run_ops_step:
  assumes "all_set (ha_state_cbs w)"
  shows "\<exists>w'. cseq (map (run_op env) ops) w = Done () w' \<and>
    op_step (m0init_hi w) (concat (map (op_calls (ha_state_cbs w)) ops)) w w'"
  using assms
proof (induction ops arbitrary: w)
  case Nil
  then show ?case
    by (simp add: prog_simps op_step_def op_log_def new_log_def logged_def held_simps interfaces_def
        user_calls_def)
next
  case (Cons op ops)
  obtain w1 where w1: "run_op env op w = Done () w1"
      "op_step (m0init_hi w) (op_calls (ha_state_cbs w) op) w w1"
    using run_op_step [OF Cons.prems] by blast
  then have same: "m0init_hi w1 = m0init_hi w" "ha_state_cbs w1 = ha_state_cbs w"
    unfolding op_step_def by (metis logged_sel)+
  with Cons obtain w2 where "cseq (map (run_op env) ops) w1 = Done () w2"
      "op_step (m0init_hi w) (concat (map (op_calls (ha_state_cbs w)) ops)) w1 w2"
    by metis
  with w1 show ?case using op_step_trans by (auto simp: prog_simps)
qed

lemma interfaces_simps [simp]:
  "interfaces [] = {}" "interfaces (e # l) = set (hi_used e) \<union> interfaces l"
  "interfaces (l @ k) = interfaces l \<union> interfaces k"
  by (simp_all add: interfaces_def)

lemma user_calls_simps [simp]:
  "user_calls [] = []" "user_calls (e # l) = user_call e @ user_calls l"
  "user_calls (l @ k) = user_calls l @ user_calls k"
  by (simp_all add: user_calls_def)

lemma ha_state_init_run:
  "\<exists>rc. ha_state_init env ep f g h cbs w = Done rc
     ((logged [(Hi (M0_halon_interface_start (m0init_hi w) ep f g h
        [Entrypoint_request_cb, Msg_received_cb, Msg_is_delivered_cb, Msg_is_not_delivered_cb,
         Link_connected_cb, Link_reused_cb, Link_absent_cb, Link_is_disconnecting_cb,
         Link_disconnected_cb]), RInt rc)] w)\<lparr>ha_state_cbs := cbs\<rparr>)"
  by (simp add: ha_state_init_def prog_simps world_simps log_call_def logged_def)

section \<open>Properties\<close>


definition sample_callbacks :: ha_state_callbacks where
  "sample_callbacks = \<lparr>ha_state_entrypoint = 11, ha_state_link_connected = 12, ha_state_link_reused = 13,
     ha_state_link_absent = 14, ha_state_link_disconnecting = 15, ha_state_link_disconnected = 16,
     ha_state_is_delivered = 17, ha_state_is_cancelled = 18, ha_message_callback = 19\<rparr>"

lemma sample_all_set: "all_set sample_callbacks"
proof -
  have "fst (expected_callback e) sample_callbacks \<noteq> NULL" for e
    by (cases e) (simp_all add: sample_callbacks_def)
  then show ?thesis by (simp add: all_set_def)
qed


text \<open>The set-up as one step: what is logged, and the pointer kept.\<close>

lemma m0_init_steps:
  "m0init_hi w = NULL \<Longrightarrow> \<exists>rc q p. m0_init_wrapper env w = Done rc
     ((logged [(Sys (Getenv ''HALON_INTERFACE_DEBUG_OPTIONS''), RAddr q),
        (Hi (M0_halon_interface_init q), ROut rc p)] w)\<lparr>m0init_hi := p\<rparr>)"
  by (simp add: m0_init_wrapper_def prog_simps world_simps log_call_def logged_def) blast

lemma ha_state_fini_run:
  "ha_state_fini w = Done () (logged [(Hi (M0_halon_interface_stop (m0init_hi w)), RVoid)] w)"
  by (simp add: ha_state_fini_def prog_simps world_simps log_call_logged)

lemma new_log_eq: "w_log w' = w_log w @ l \<Longrightarrow> new_log w w' = l"
  by (simp add: new_log_def)

text \<open>
  C34. A session with Mero is balanced, whatever happens in it. Set up the interface, start it, let the Haskell
  side and Mero do anything in any order, stop it and tear it down: this always returns; if one of the
  first two steps fails, its code is the result. In every case all that was acquired has been given back
  and Mero was only ever given the one interface pointer it had returned; on success the callbacks made
  are exactly those of the events that occurred.
\<close>

theorem ha_session_balanced:
  assumes "m0init_hi w = NULL" and "all_set cbs"
  shows "\<exists>rc w' hi. ha_session env ep proc ha rm cbs ops w = Done rc w' \<and>
    held (w_log w') = held (w_log w) \<and> interfaces (new_log w w') \<subseteq> {hi} \<and>
    (rc = 0 \<longrightarrow> m0init_hi w' = NULL \<and> user_calls (new_log w w') = concat (map (op_calls cbs) ops))"
proof -
  obtain rc q p where ini: "m0_init_wrapper env w = Done rc
     ((logged [(Sys (Getenv ''HALON_INTERFACE_DEBUG_OPTIONS''), RAddr q),
        (Hi (M0_halon_interface_init q), ROut rc p)] w)\<lparr>m0init_hi := p\<rparr>)"
    (is "_ = Done rc ?w1")
    using m0_init_steps [OF assms(1)] by blast
  obtain rc' where start: "ha_state_init env ep proc ha rm cbs ?w1 = Done rc'
     ((logged [(Hi (M0_halon_interface_start p ep proc ha rm
        [Entrypoint_request_cb, Msg_received_cb, Msg_is_delivered_cb, Msg_is_not_delivered_cb,
         Link_connected_cb, Link_reused_cb, Link_absent_cb, Link_is_disconnecting_cb,
         Link_disconnected_cb]), RInt rc')] ?w1)\<lparr>ha_state_cbs := cbs\<rparr>)"
    (is "_ = Done rc' ?w2")
    using ha_state_init_run [of env ep proc ha rm cbs ?w1] by auto
  obtain l where ops: "cseq (map (run_op env) ops) ?w2 = Done () (logged l ?w2)"
      "op_log p (concat (map (op_calls cbs) ops)) l"
    using run_ops_step [of ?w2 env ops] assms(2) by (auto simp: op_step_def)
  consider "rc \<noteq> 0" | "rc = 0" "rc' \<noteq> 0" | "rc = 0" "rc' = 0" by blast
  then show ?thesis
  proof cases
    case 1
    with ini show ?thesis
      by (auto simp: ha_session_def prog_simps new_log_eq held_simps fun_eq_iff)
  next
    case 2
    with ini start show ?thesis
      by (auto simp: ha_session_def prog_simps m0_fini_run new_log_eq held_simps fun_eq_iff)
  next
    case 3
    with ini start ops show ?thesis
      by (auto simp: ha_session_def prog_simps m0_fini_run ha_state_fini_run new_log_eq held_simps
          fun_eq_iff op_log_def)
  qed
qed

theorem ha_session_balanced_witness:
  "\<exists>rc w'. ha_session willing_env ''ep'' (M0_FID_INIT 1 2) (M0_FID_INIT 3 4) (M0_FID_INIT 5 6)
       sample_callbacks [Disconnect 8, Event (Link_disconnected 8)] initial_world = Done rc w' \<and>
     held (w_log w') = held []"
proof -
  have "m0init_hi initial_world = NULL" "w_log initial_world = []"
    by (simp_all add: initial_world_def)
  then show ?thesis
    using ha_session_balanced [OF _ sample_all_set, of initial_world willing_env "''ep''" "M0_FID_INIT 1 2"
        "M0_FID_INIT 3 4" "M0_FID_INIT 5 6" "[Disconnect 8, Event (Link_disconnected 8)]"] by auto
qed

end
