(* ===== verification/Confc_Helpers.thy ===== *)
theory Confc_Helpers
  imports Rpclite_Endpoint
begin

text \<open>
  Helpers for the configuration client (\<^verbatim>\<open>confc_helpers.c\<close>): validating a configuration transaction into a
  buffer the caller frees, and access to the command interface.
\<close>

definition confc_validate_cache_of_tx :: "env \<Rightarrow> addr \<Rightarrow> u64 \<Rightarrow> addr cprog" where
  "confc_validate_cache_of_tx env tx buflen =
     cbind (alloc env (Bytes buflen) (Buffer_obj (unat buflen))) (\<lambda>buf.
     if buf = NULL then cret NULL else
     cbind (ext_addr env (Hi (M0_conf_validation_error tx buf buflen))) (\<lambda>err.
     if err = NULL then cthen (free buf) (cret NULL) else
     cret buf))"

definition halon_interface_spiel :: "env \<Rightarrow> addr cprog" where
  "halon_interface_spiel env = cbind (cgets m0init_hi) (\<lambda>hi. ext_addr env (Hi (M0_halon_interface_spiel hi)))"

text \<open>Mero's verdict on the transaction, if there is a buffer to write it to.\<close>

definition validation_verdict :: "env \<Rightarrow> addr \<Rightarrow> u64 \<Rightarrow> world \<Rightarrow> addr" where
  "validation_verdict env tx buflen w =
     ans_addr env (w_log w @ [(Sys (Malloc (Bytes buflen)), RAddr (w_next w))])
       (Hi (M0_conf_validation_error tx (w_next w) buflen))"

text \<open>
  \<open>confc_validate_cache_of_tx\<close> always returns. Its result is a fresh buffer exactly if the buffer could
  be allocated and Mero found the configuration invalid; then this buffer is the only memory left behind,
  for the caller to free. Otherwise it is \<open>NULL\<close> and no memory is left behind; so a configuration that
  was never checked because memory ran out is reported in the same way as a valid one.
\<close>

theorem validate_contract:
  assumes "wf_world w"
  shows "\<exists>r w'. confc_validate_cache_of_tx env tx buflen w = Done r w' \<and>
    (if ans_alloc env (w_log w) (Bytes buflen) \<and> validation_verdict env tx buflen w \<noteq> NULL
     then r = w_next w \<and> r \<noteq> NULL \<and> w_heap w' = (w_heap w)(r \<mapsto> Buffer_obj (unat buflen))
     else r = NULL \<and> w_heap w' = w_heap w)"
  using wf_world_next [OF assms] wf_world_fresh [OF assms]
  by (auto simp: confc_validate_cache_of_tx_def validation_verdict_def prog_simps world_simps fun_eq_iff)

end
