(* ===== verification/Rpclite_Epoch.thy ===== *)
theory Rpclite_Epoch
  imports Rpclite_Send
begin

text \<open>
  Sending an epoch (\<open>rpc_send_epoch_blocking\<close> of \<^verbatim>\<open>rpclite.c\<close>): the client remembers the greatest epoch it
  has sent, refuses to send a smaller one, and learns the epoch of its peer from the reply. The
  out-parameter \<open>theirEpoch\<close> is an option beside the code, \<open>None\<close> where the code does not write it.
\<close>

text \<open>The two fields of \<open>struct m0_rpc_fop_session_terminate\<close>.\<close>

definition set_terminate_data :: "fop_ref \<Rightarrow> u64 \<Rightarrow> u64 \<Rightarrow> unit cprog" where
  "set_terminate_data f sender_id session_id = cbind (load_fop f) (\<lambda>x.
     case fop_data x of
       Terminate_data a b \<Rightarrow> store_fop f (x\<lparr>fop_data := Terminate_data sender_id session_id\<rparr>)
     | _ \<Rightarrow> cstop (Undefined Dangling_pointer))"

definition rpc_send_epoch_blocking ::
  "env \<Rightarrow> addr \<Rightarrow> u64 \<Rightarrow> c_int \<Rightarrow> (c_int \<times> u64 option) cprog" where
  "rpc_send_epoch_blocking env c ourEpoch timeout_s =
     cbind (cgets client_max_epoch) (\<lambda>m.
     if m > ourEpoch then cret (0, Some m) else
     cthen (cmodify (\<lambda>w. w\<lparr>client_max_epoch := ourEpoch\<rparr>)) (
     cbind (fop_alloc_at env (rpc_get_session c) Session_terminate_fopt) (\<lambda>fop.
     cthen (cassert (fop \<noteq> NULL)) (
     cbind (ext_u64 env (Conn (Read_session_id c))) (\<lambda>s_session_id.
     cthen (set_terminate_data (Own_fop fop) s_session_id (- 1)) (
     cbind (ext_u64 env (Dom M0_ha_domain_get_write)) (\<lambda>_.
     cthen (ext_void (Dom (M0_ha_domain_put_write ourEpoch))) (
     cbind (rpc_send_fop_blocking_and_release env c fop timeout_s) (\<lambda>rc.
     if rc \<noteq> 0 then cret (rc, None) else
     cbind (ext_u64 env (Dom M0_ha_domain_get_write)) (\<lambda>e.
     cthen (ext_void (Dom (M0_ha_domain_put_write e))) (
     cret (rc, Some e))))))))))))"

section \<open>How it runs\<close>

lemma wp_set_terminate_data [wp_rules]:
  "(\<And>x a b. fop_at w f = Some x \<Longrightarrow> fop_data x = Terminate_data a b \<Longrightarrow>
      Q () (put_fop f (x\<lparr>fop_data := Terminate_data i j\<rparr>) w)) \<Longrightarrow>
   (\<And>u. E (Undefined u) w) \<Longrightarrow> wp (set_terminate_data f i j) Q E w"
  unfolding set_terminate_data_def
  by (intro wp_rules) (auto simp: wp_def prog_simps world_simps split: fop_data.splits)

lemma wp_send_fop:
  "(\<And>x rc w' l d. fop_at w (Own_fop p) = Some x \<Longrightarrow> w_log w' = w_log w @ l \<Longrightarrow>
      posts l = [Own_fop p] \<Longrightarrow>
      (Fop (M0_rpc_post_sync (Own_fop p) (rpc_get_session c) d), RInt rc) \<in> set l \<Longrightarrow>
      (\<And>r. held l r = - (if r = Fop_reference (Own_fop p) then 1 else 0)) \<Longrightarrow>
      same_but p w w' \<Longrightarrow> Q rc w') \<Longrightarrow>
   fop_at w (Own_fop p) = Some y \<Longrightarrow> (\<And>r w'. E r w') \<Longrightarrow>
   wp (rpc_send_fop_blocking_and_release env c p t) Q E w"
proof (rule wp_mono [OF send_fop_wp], assumption)
  fix rc w'
  assume Q: "\<And>x rc w' l d. fop_at w (Own_fop p) = Some x \<Longrightarrow> w_log w' = w_log w @ l \<Longrightarrow>
      posts l = [Own_fop p] \<Longrightarrow>
      (Fop (M0_rpc_post_sync (Own_fop p) (rpc_get_session c) d), RInt rc) \<in> set l \<Longrightarrow>
      (\<And>r. held l r = - (if r = Fop_reference (Own_fop p) then 1 else 0)) \<Longrightarrow>
      same_but p w w' \<Longrightarrow> Q rc w'"
    and y: "fop_at w (Own_fop p) = Some y" and post: "send_fop_post c p y w rc w'"
  define l where "l = new_log w w'"
  from post obtain d where l: "w_log w' = w_log w @ l" "posts l = [Own_fop p]" "same_but p w w'"
      "(Fop (M0_rpc_post_sync (Own_fop p) (rpc_get_session c) d), RInt rc) \<in> set l"
      "\<And>r. held (w_log w') r = held (w_log w) r - (if r = Fop_reference (Own_fop p) then 1 else 0)"
    unfolding send_fop_post_def Let_def l_def by blast
  have "held l r = - (if r = Fop_reference (Own_fop p) then 1 else 0)" for r
    using l(5) [of r] by (simp add: l(1) held_append)
  with Q y l show "Q rc w'" by blast
qed

lemma fop_at_Own_put [simp]: "p \<noteq> NULL \<Longrightarrow> fop_at (mem_put p (Fop_obj x) w) (Own_fop p) = Some x"
  by (simp add: fop_at_def fop_addr_def)

text \<open>
  The result of a call that is not refused: one item posted, the code is Mero's, the peer's epoch is known
  exactly on success, and every resource, the write lock of the epoch domain included, has been given
  back.
\<close>

definition epoch_post :: "addr \<Rightarrow> u64 \<Rightarrow> world \<Rightarrow> c_int \<times> u64 option \<Rightarrow> world \<Rightarrow> bool" where
  "epoch_post c e w res w' \<longleftrightarrow>
    (let l = new_log w w' in
      w_log w' = w_log w @ l \<and> client_max_epoch w' = e \<and> posts l = [Own_fop (w_next w)] \<and>
      (\<exists>d. (Fop (M0_rpc_post_sync (Own_fop (w_next w)) (rpc_get_session c) d), RInt (fst res)) \<in> set l) \<and>
      (Dom (M0_ha_domain_put_write e), RVoid) \<in> set l \<and>
      (snd res = None \<longleftrightarrow> fst res \<noteq> 0) \<and>
      (\<forall>e'. snd res = Some e' \<longrightarrow> (Dom M0_ha_domain_get_write, RU64 e') \<in> set l \<and>
         last l = (Dom (M0_ha_domain_put_write e'), RVoid)) \<and>
      held (w_log w') = held (w_log w) \<and> wf_world w')"

lemma epoch_wp:
  assumes "wf_world w" and "client_max_epoch w \<le> e"
  shows "wp (rpc_send_epoch_blocking env c e t) (epoch_post c e w) (\<lambda>_ _. True) w"
proof -
  have p: "w_next w \<noteq> NULL" using wf_world_next [OF assms(1)] by simp
  have wf: "wf_world (mem_put (w_next w) ob (w\<lparr>client_max_epoch := e, w_next := Suc (w_next w)\<rparr>))" for ob
    using assms(1) by (auto simp: wf_world_def)
  show ?thesis
    unfolding rpc_send_epoch_blocking_def
    by (intro wp_rules wp_send_fop)
      (use assms p wf in \<open>auto simp: epoch_post_def new_log_def Let_def held_simps fun_eq_iff
        same_but_def not_less\<close>)
qed

text \<open>A client that sends one epoch after the other.\<close>

fun send_epochs :: "env \<Rightarrow> addr \<Rightarrow> c_int \<Rightarrow> u64 list \<Rightarrow> (c_int \<times> u64 option) list cprog" where
  "send_epochs env c t [] = cret []"
| "send_epochs env c t (e # es) =
     cbind (rpc_send_epoch_blocking env c e t) (\<lambda>r.
     cbind (send_epochs env c t es) (\<lambda>rs. cret (r # rs)))"

lemma epoch_refused:
  "client_max_epoch w > e \<Longrightarrow>
   rpc_send_epoch_blocking env c e t w = Done (0, Some (client_max_epoch w)) w"
  by (simp add: rpc_send_epoch_blocking_def prog_simps)

lemma epoch_Done:
  assumes "wf_world w" and "rpc_send_epoch_blocking env c e t w = Done r w'"
  shows "client_max_epoch w' = max (client_max_epoch w) e \<and> wf_world w' \<and>
    held (w_log w') = held (w_log w)"
proof (cases "client_max_epoch w > e")
  case True
  then show ?thesis using assms epoch_refused by simp
next
  case False
  then have "epoch_post c e w r w'"
    using wp_DoneD [OF epoch_wp [OF assms(1)] assms(2)] by simp
  then show ?thesis using False by (auto simp: epoch_post_def Let_def max_def)
qed

text \<open>As long as calls follow one another, the remembered epoch never goes back.\<close>

definition epoch_call :: "world \<Rightarrow> world \<Rightarrow> bool" where
  "epoch_call w w' \<longleftrightarrow> (\<exists>env c e t r. rpc_send_epoch_blocking env c e t w = Done r w')"

interpretation client_epoch: invariant_system
  "\<lambda>w. wf_world w \<and> client_max_epoch w = m" epoch_call
  "\<lambda>w. wf_world w \<and> m \<le> client_max_epoch w" for m
proof
  fix w w'
  assume "wf_world w \<and> m \<le> client_max_epoch w" and "epoch_call w w'"
  then obtain env c e t r where "wf_world w" "m \<le> client_max_epoch w"
      and "rpc_send_epoch_blocking env c e t w = Done r w'"
    by (auto simp: epoch_call_def)
  then show "wf_world w' \<and> m \<le> client_max_epoch w'"
    using epoch_Done [of w env c e t r w'] by (auto simp: max_def)
qed auto

section \<open>Properties\<close>

text \<open>
  The remembered epoch never goes back: whatever the peers and Mero answer, over any sequence of calls
  that return, on any connections, \<open>client_max_epoch\<close> only grows.
\<close>

theorem client_max_epoch_monotone:
  assumes "wf_world w" and "epoch_call\<^sup>*\<^sup>* w w'"
  shows "client_max_epoch w \<le> client_max_epoch w'"
  using client_epoch.reachable_inv [OF _ assms(2), of "client_max_epoch w"] assms(1) by simp

lemma willing_alloc_at_terminate:
  "ans_addr roomy_env l (Fop (M0_fop_alloc_at s Session_terminate_fopt)) \<noteq> NULL"
  by (simp add: roomy_simps willing_addr_def)

lemma roomy_epoch:
  assumes "wf_world w" and "client_max_epoch w \<le> e"
  shows "\<exists>r w'. rpc_send_epoch_blocking roomy_env c e t w = Done r w'"
proof -
  have "0 < w_next w" using wf_world_next [OF assms(1)] .
  then show ?thesis
    using assms(2) willing_alloc_at_terminate
    by (simp add: rpc_send_epoch_blocking_def prog_simps world_simps fop_alloc_at_def Let_def not_less
        set_terminate_data_def rpc_send_fop_blocking_and_release_def roomy_simps roomy_not_too_big
        willing_fop_def willing_addr_def logged_def)
qed

lemma roomy_epoch_initial: "\<exists>r w'. rpc_send_epoch_blocking roomy_env 5 7 10 initial_world = Done r w'"
  by (rule roomy_epoch [OF wf_initial_world]) (simp add: initial_world_def)

text \<open>
  After a sequence of sends that all returned, the remembered epoch is the maximum of the epochs sent
  and of the one remembered before, and every lock and reference has been given back.
\<close>

theorem send_epochs_maximum:
  assumes "wf_world w" and "send_epochs env c t es w = Done rs w'"
  shows "client_max_epoch w' = Max (insert (client_max_epoch w) (set es)) \<and>
    held (w_log w') = held (w_log w) \<and> length rs = length es"
  using assms
proof (induction es arbitrary: w rs)
  case Nil
  then show ?case by (simp add: prog_simps)
next
  case (Cons e es)
  obtain r w1 rs' where w1: "rpc_send_epoch_blocking env c e t w = Done r w1"
      "send_epochs env c t es w1 = Done rs' w'" "rs = r # rs'"
    using Cons.prems(2) by (auto simp: prog_simps split: outcome.splits)
  have "Max (insert (max m e) A) = Max (insert m (insert e A))" if "finite A" for m and A :: "u64 set"
    using that by (cases "A = {}") (auto simp: Max_insert max.assoc)
  then show ?case
    using Cons.IH [OF _ w1(2)] epoch_Done [OF Cons.prems(1) w1(1)] w1(3) by simp
qed

text \<open>
  C30. One call, on both branches. An epoch smaller than the remembered one is answered from memory: no call
  leaves the process, and the result is success with the remembered epoch. Otherwise, when the call
  returns, the epoch has been remembered and put into the epoch domain, one item was posted, the code is
  Mero's, and the peer's epoch is reported exactly on success, as read back from the epoch domain, whose
  write lock is free again.
\<close>

theorem send_epoch_contract:
  assumes "wf_world w"
  shows "if ourEpoch < client_max_epoch w
    then rpc_send_epoch_blocking env c ourEpoch t w = Done (0, Some (client_max_epoch w)) w
    else \<forall>r w'. rpc_send_epoch_blocking env c ourEpoch t w = Done r w' \<longrightarrow> epoch_post c ourEpoch w r w'"
  using epoch_refused wp_DoneD [OF epoch_wp [OF assms]] by auto

theorem send_epoch_contract_witness:
  "\<exists>r w'. rpc_send_epoch_blocking roomy_env 5 7 10 initial_world = Done r w' \<and>
     epoch_post 5 7 initial_world r w'"
proof -
  obtain r w' where "rpc_send_epoch_blocking roomy_env 5 7 10 initial_world = Done r w'"
    using roomy_epoch_initial by blast
  moreover have "\<not> 7 < client_max_epoch initial_world" by (simp add: initial_world_def)
  ultimately show ?thesis
    using send_epoch_contract [OF wf_initial_world, of 7 roomy_env 5 10] by (simp only: if_False) blast
qed

section \<open>Calls from several threads\<close>

text \<open>
  Nothing protects \<open>client_max_epoch\<close>: the comparison and the assignment are two steps between which another
  thread can run. A thread is at the comparison, at the assignment, or past both.
\<close>

datatype epoch_pc = Comparing u64 | Assigning u64 | Refused u64 | Sending u64

record epoch_threads =
  shared_epoch :: u64
  epoch_pcs :: "nat \<Rightarrow> epoch_pc"

definition move_to :: "nat \<Rightarrow> epoch_pc \<Rightarrow> epoch_threads \<Rightarrow> epoch_threads" where
  "move_to i p s = s\<lparr>epoch_pcs := (epoch_pcs s)(i := p)\<rparr>"

inductive epoch_thread_step :: "epoch_threads \<Rightarrow> epoch_threads \<Rightarrow> bool" where
  refuse: "epoch_pcs s i = Comparing e \<Longrightarrow> shared_epoch s > e \<Longrightarrow>
    epoch_thread_step s (move_to i (Refused (shared_epoch s)) s)"
| pass: "epoch_pcs s i = Comparing e \<Longrightarrow> \<not> shared_epoch s > e \<Longrightarrow>
    epoch_thread_step s (move_to i (Assigning e) s)"
| assign: "epoch_pcs s i = Assigning e \<Longrightarrow>
    epoch_thread_step s (move_to i (Sending e) (s\<lparr>shared_epoch := e\<rparr>))"

text \<open>
  With two threads the remembered epoch can go back: if neither epoch is smaller than the remembered one,
  there is an interleaving in which both threads pass the comparison, the greater epoch is remembered
  first and the smaller one last, so that both are sent and the smaller one stays.
\<close>

theorem epoch_race:
  assumes "epoch_pcs s i = Comparing e" and "epoch_pcs s j = Comparing e'" and "i \<noteq> j"
    and "shared_epoch s \<le> e'" and "e' < e"
  shows "\<exists>s'. epoch_thread_step\<^sup>*\<^sup>* s s' \<and> epoch_pcs s' i = Sending e \<and> epoch_pcs s' j = Sending e' \<and>
    shared_epoch s' = e'"
proof -
  let ?s1 = "move_to i (Assigning e) s"
  let ?s2 = "move_to j (Assigning e') ?s1"
  let ?s3 = "move_to i (Sending e) (?s2\<lparr>shared_epoch := e\<rparr>)"
  let ?s4 = "move_to j (Sending e') (?s3\<lparr>shared_epoch := e'\<rparr>)"
  have "epoch_thread_step s ?s1" using assms by (intro pass) auto
  moreover have "epoch_thread_step ?s1 ?s2" using assms by (intro pass) (auto simp: move_to_def)
  moreover have "epoch_thread_step ?s2 ?s3" using assms by (intro assign) (auto simp: move_to_def)
  moreover have "epoch_thread_step ?s3 ?s4" using assms by (intro assign) (auto simp: move_to_def)
  ultimately have "epoch_thread_step\<^sup>*\<^sup>* s ?s4" by (meson converse_rtranclp_into_rtranclp rtranclp.rtrancl_refl)
  moreover have "epoch_pcs ?s4 i = Sending e \<and> epoch_pcs ?s4 j = Sending e' \<and> shared_epoch ?s4 = e'"
    using assms(3) by (simp add: move_to_def)
  ultimately show ?thesis by blast
qed

definition two_epochs :: epoch_threads where
  "two_epochs = \<lparr>shared_epoch = 0, epoch_pcs = (\<lambda>i. if i = 0 then Comparing 7 else Comparing 3)\<rparr>"

end
