(* ===== verification/Rpclite_Frame.thy ===== *)
theory Rpclite_Frame
  imports Rpclite_Epoch M0_Init
begin

text \<open>
  \<open>keeps f m\<close>: running \<open>m\<close> does not change what \<open>f\<close> reads of the state, and \<open>m\<close> does not leave the program
  with \<open>exit(0)\<close>. For an \<open>f\<close> that reads neither log nor heap this follows from the shape of the program.
\<close>

named_theorems keeps_rules

definition keeps :: "(world \<Rightarrow> 'b) \<Rightarrow> 'a cprog \<Rightarrow> bool" where
  "keeps f m \<longleftrightarrow> (\<forall>w. wp m (\<lambda>_ w'. f w' = f w) (\<lambda>r _. r \<noteq> Exit 0) w)"

lemma keeps_Done: "keeps f m \<Longrightarrow> m w = Done a w' \<Longrightarrow> f w' = f w"
  unfolding keeps_def by (blast dest: wp_DoneD)

lemma keeps_Stop: "keeps f m \<Longrightarrow> m w = Stop r w' \<Longrightarrow> r \<noteq> Exit 0"
  unfolding keeps_def by (blast dest: wp_StopD)

lemma keepsI:
  "(\<And>w a w'. m w = Done a w' \<Longrightarrow> f w' = f w) \<Longrightarrow> (\<And>w r w'. m w = Stop r w' \<Longrightarrow> r \<noteq> Exit 0) \<Longrightarrow> keeps f m"
  by (simp add: keeps_def wp_def split: outcome.splits)

lemma keeps_ret [keeps_rules]: "keeps f (cret a)"
  by (simp add: keeps_def wp_def cret_def)

lemma keeps_stop [keeps_rules]: "r \<noteq> Exit 0 \<Longrightarrow> keeps f (cstop r)"
  by (simp add: keeps_def wp_def cstop_def)

lemma keeps_bind [keeps_rules]: "keeps f m \<Longrightarrow> (\<And>a. keeps f (g a)) \<Longrightarrow> keeps f (cbind m g)"
  by (rule keepsI)
    (auto simp: cbind_def dest: keeps_Stop split: outcome.splits, metis keeps_Done)

lemma keeps_then [keeps_rules]: "keeps f m \<Longrightarrow> keeps f n \<Longrightarrow> keeps f (cthen m n)"
  by (simp add: cthen_def keeps_bind)

lemma keeps_seq: "(\<And>m. m \<in> set ms \<Longrightarrow> keeps f m) \<Longrightarrow> keeps f (cseq ms)"
  by (induction ms) (auto intro: keeps_rules)

lemma keeps_gets [keeps_rules]: "keeps f (cgets g)"
  by (simp add: keeps_def wp_def cgets_def)

lemma keeps_modify [keeps_rules]: "(\<And>w. f (g w) = f w) \<Longrightarrow> keeps f (cmodify g)"
  by (simp add: keeps_def wp_def cmodify_def)

lemma keeps_assert [keeps_rules]: "keeps f (cassert b)"
  by (simp add: cassert_def keeps_ret keeps_stop)

lemma keeps_if [keeps_rules]: "(b \<Longrightarrow> keeps f m) \<Longrightarrow> (\<not> b \<Longrightarrow> keeps f n) \<Longrightarrow> keeps f (if b then m else n)"
  by simp

lemma keeps_when [keeps_rules]: "keeps f m \<Longrightarrow> keeps f (cwhen b m)"
  by (simp add: cwhen_def keeps_ret)

lemma keeps_prod [keeps_rules]: "(\<And>a b. keeps f (g a b)) \<Longrightarrow> keeps f (case x of (a, b) \<Rightarrow> g a b)"
  by (cases x) simp

lemma keeps_let [keeps_rules]: "keeps f (g x) \<Longrightarrow> keeps f (Let x g)"
  by simp

lemma keeps_read_field [keeps_rules]: "keeps f (read_field x)"
  by (cases x) (simp_all add: read_field_def keeps_ret keeps_stop)

lemma keeps_load [keeps_rules]: "keeps f (load p)"
  by (rule keepsI) (auto simp: load_def split: if_splits option.splits)

text \<open>Operations that read the heap and stop on an object of the wrong kind.\<close>

lemma keeps_loads [keeps_rules]:
  "keeps f (load_endpoint p)" "keeps f (load_connection p)" "keeps f (load_bytes p)"
  "keeps f (load_message p)" "keeps f (load_fop x)"
  unfolding load_endpoint_def load_connection_def load_bytes_def load_message_def load_fop_def
  by (auto intro!: keeps_bind keeps_load split: obj.splits fop_ref.splits
      simp: keeps_ret keeps_stop)

locale observation =
  fixes f :: "world \<Rightarrow> 'b"
  assumes not_log: "f (log_call c a w) = f w"
    and not_heap: "f (mem_put p ob w) = f w" "f (mem_del p w) = f w"
    and not_next: "f (w\<lparr>w_next := n\<rparr>) = f w"
    and not_globals: "f (w\<lparr>rpclite_listen_cbs := cbs\<rparr>) = f w" "f (w\<lparr>m0init_hi := hi\<rparr>) = f w"
begin

lemma keeps_ext [keeps_rules]:
  "keeps f (ext_void c)" "keeps f (ext_int env c)" "keeps f (ext_u64 env c)" "keeps f (ext_addr env c)"
  "keeps f (ext_out env c)"
  by (auto intro!: keepsI simp: ext_void_run ext_int_run ext_u64_run ext_addr_run ext_out_run not_log)

lemma keeps_alloc [keeps_rules]: "keeps f (alloc env n ob)"
  by (rule keepsI) (auto simp: alloc_def not_log not_heap not_next split: if_splits)

lemma keeps_free [keeps_rules]: "keeps f (free p)"
  by (rule keepsI) (auto simp: free_def not_log not_heap split: if_splits option.splits)

lemma keeps_store [keeps_rules]: "keeps f (store p ob)"
  by (rule keepsI) (auto simp: store_def not_heap split: if_splits option.splits)

lemma keeps_store_fop [keeps_rules]: "keeps f (store_fop x y)"
  unfolding store_fop_def
  by (auto intro!: keeps_bind keeps_load keeps_store split: obj.splits fop_ref.splits simp: keeps_stop)

lemma keeps_modify_fop [keeps_rules]: "keeps f (modify_fop x g)"
  unfolding modify_fop_def by (intro keeps_rules keeps_store_fop)

lemma keeps_modify_message [keeps_rules]: "keeps f (modify_message x g)"
  unfolding modify_message_def by (intro keeps_rules keeps_store)

lemma keeps_fop_alloc_at [keeps_rules]: "keeps f (fop_alloc_at env s t)"
  by (rule keepsI) (auto simp: fop_alloc_at_def Let_def not_log not_heap not_next split: if_splits)

text \<open>The functions of rpclite that record no statistic.\<close>

lemma keeps_memcpy [keeps_rules]: "keeps f (memcpy p k s)"
  unfolding memcpy_def Let_def by (intro keeps_rules keeps_store) simp

lemma keeps_sum_segments [keeps_rules]: "keeps f (sum_segments segs is a)"
  by (induction "is" arbitrary: a) (auto intro!: keeps_rules)

lemma keeps_copy_segments [keeps_rules]: "keeps f (copy_segments p segs is k)"
  by (induction "is" arbitrary: k) (auto intro!: keeps_rules keeps_memcpy)

lemma keeps_rpclite_data [keeps_rules]: "keeps f (rpclite_data x)" "keeps f (set_rpclite_data x d)"
  unfolding rpclite_data_def set_rpclite_data_def
  by (auto intro!: keeps_rules keeps_modify_fop split: fop_data.splits)

lemma keeps_fill_rpclite_fop [keeps_rules]: "keeps f (fill_rpclite_fop env x segs n)"
  unfolding fill_rpclite_fop_def
  by (intro keeps_rules keeps_sum_segments keeps_rpclite_data keeps_alloc keeps_copy_segments)

lemma keeps_size_check [keeps_rules]: "keeps f (item_too_big env x s)" "keeps f (exit_too_big env x s)"
  unfolding item_too_big_def exit_too_big_def by (intro keeps_rules keeps_ext; simp)+

lemma keeps_send_fop [keeps_rules]: "keeps f (rpc_send_fop_blocking_and_release env c p t)"
  unfolding rpc_send_fop_blocking_and_release_def
  by (intro keeps_rules keeps_ext keeps_size_check keeps_modify_fop)

lemma keeps_send_blocking [keeps_rules]: "keeps f (rpc_send_blocking env c segs n t)"
  unfolding rpc_send_blocking_def
  by (intro keeps_rules keeps_fop_alloc_at keeps_fill_rpclite_fop keeps_send_fop)

lemma keeps_send [keeps_rules]: "keeps f (rpc_send env c segs n cb ctx t)"
  unfolding rpc_send_def init_message_def fop_init_def fop_data_alloc_def
  by (intro keeps_rules keeps_ext keeps_alloc keeps_free keeps_modify_fop keeps_modify_message
      keeps_fill_rpclite_fop keeps_size_check)

lemma keeps_disconnect [keeps_rules]: "keeps f (rpc_disconnect env c t)"
  unfolding rpc_disconnect_def by (intro keeps_rules keeps_ext keeps_free)

lemma keeps_create_endpoint [keeps_rules]: "keeps f (rpc_create_endpoint env s e)"
  unfolding rpc_create_endpoint_def strcpy_local_address_def strcpy_check_def pool_fini_def
  by (intro keeps_rules keeps_ext keeps_alloc keeps_store) simp_all

lemma keeps_listen [keeps_rules]: "keeps f (rpc_listen env s cbs e)"
  unfolding rpc_listen_def by (intro keeps_rules keeps_create_endpoint) (simp add: not_globals)

lemma keeps_m0_init [keeps_rules]: "keeps f (m0_init_wrapper env)"
  unfolding m0_init_wrapper_def by (intro keeps_rules keeps_ext) (simp add: not_globals)

text \<open>Connecting records a time; an observation of something else does not see it.\<close>

lemma keeps_connect:
  assumes "\<And>t. keeps f (add_rpc_stat_record RPC_STAT_CONN t)"
  shows "keeps f (rpc_connect env e s t c)"
  unfolding rpc_connect_def rpc_connect_rpc_machine_def strcpy_remote_address_def strcpy_check_def
  by (intro keeps_rules keeps_ext keeps_alloc keeps_store assms) simp_all

end


section \<open>Three observations\<close>

definition send_stat :: "world \<Rightarrow> rpc_statistic" where
  "send_stat w = rpc_stat w ! stat_index RPC_STAT_SEND"

interpretation send_stat: observation send_stat
  by unfold_locales (simp_all add: send_stat_def)

definition stat_slots :: "world \<Rightarrow> nat" where
  "stat_slots w = length (rpc_stat w)"

interpretation stat_slots: observation stat_slots
  by unfold_locales (simp_all add: stat_slots_def)

interpretation remembered: observation client_max_epoch
  by unfold_locales simp_all

lemma add_rpc_stat_record_wp:
  "wp (add_rpc_stat_record type t)
     (\<lambda>_ w'. \<exists>l rs. w' = logged l (w\<lparr>rpc_stat := (rpc_stat w)[stat_index type := rs]\<rparr>))
     (\<lambda>r _. r \<noteq> Exit 0) w"
  by (intro wp_rules) auto

lemma keeps_conn_stat [keeps_rules]:
  "keeps send_stat (add_rpc_stat_record RPC_STAT_CONN t)"
  "keeps client_max_epoch (add_rpc_stat_record type t)"
  "keeps stat_slots (add_rpc_stat_record type t)"
  unfolding keeps_def
  by (auto intro!: wp_mono [OF add_rpc_stat_record_wp] simp: send_stat_def stat_slots_def)

lemmas keeps_connects [keeps_rules] =
  send_stat.keeps_connect [OF keeps_conn_stat(1)] remembered.keeps_connect [OF keeps_conn_stat(2)]
  stat_slots.keeps_connect [OF keeps_conn_stat(3)]

lemma keeps_rpc_init [keeps_rules]: "keeps send_stat (rpc_init env)" "keeps stat_slots (rpc_init env)"
  by (rule keepsI; auto simp: rpc_init_run send_stat_def stat_slots_def split: if_splits)+

lemma keeps_send_epoch: "keeps send_stat (rpc_send_epoch_blocking env c e t)"
  unfolding rpc_send_epoch_blocking_def set_terminate_data_def
  by (intro keeps_rules) (auto intro!: keeps_rules split: fop_data.splits simp: send_stat_def)

text \<open>The epoch a send remembers, whatever the state of the heap.\<close>

lemma keeps_wp:
  assumes "keeps f m" and "\<And>a w'. f w' = f w \<Longrightarrow> Q a w'"
  shows "wp m Q (\<lambda>_ _. True) w"
proof -
  have "wp m (\<lambda>_ w'. f w' = f w) (\<lambda>r _. r \<noteq> Exit 0) w"
    using assms(1) by (simp add: keeps_def)
  then show ?thesis by (rule wp_mono) (use assms(2) in auto)
qed

lemma epoch_remembered:
  "wp (rpc_send_epoch_blocking env c e t)
     (\<lambda>_ w'. client_max_epoch w' = max (client_max_epoch w) e) (\<lambda>_ _. True) w"
  unfolding rpc_send_epoch_blocking_def set_terminate_data_def
  by (rule wp_bind, rule wp_gets, rule wp_if, rule wp_ret, simp, rule wp_then, rule wp_modify,
      rule keeps_wp [where f = client_max_epoch], intro keeps_rules)
    (auto intro!: keeps_rules split: fop_data.splits)

end
