(* ===== verification/Rpclite_Clients.thy ===== *)
theory Rpclite_Clients
  imports Rpclite_Frame
begin

text \<open>
  The programs that exercise rpclite (\<^verbatim>\<open>test-epoch.c\<close>, \<^verbatim>\<open>test2.c\<close>, \<^verbatim>\<open>test3.c\<close>,
  \<^verbatim>\<open>test4.c\<close>, \<^verbatim>\<open>test7.c\<close>, \<^verbatim>\<open>test9.c\<close>), as clients of the functions modelled before. Output to
  \<open>stderr\<close> is left out, figures printed to \<open>stdout\<close> are calls. A variable whose address is passed for a
  result is a non-\<open>NULL\<close> slot; the contents of an uninitialised array are a parameter. The threads of
  \<^verbatim>\<open>test-epoch.c\<close> and \<^verbatim>\<open>test4.c\<close> are modelled one by one, not their interleaving.
\<close>

definition stack_slot :: addr where
  "stack_slot = 1"

definition address_10 :: string where
  "address_10 = ''0@lo:12345:34:10''"

definition address_2 :: string where
  "address_2 = ''0@lo:12345:34:2''"

text \<open>The programs' own callbacks, as function pointers.\<close>

definition rcv_ptr :: fptr where
  "rcv_ptr = 1"

definition reply_rcv_ptr :: fptr where
  "reply_rcv_ptr = 2"

definition rcv_callbacks :: rpc_listen_callbacks where
  "rcv_callbacks = no_listen_callbacks\<lparr>receive_callback := rcv_ptr\<rparr>"

text \<open>\<open>"segment 1"\<close> and \<open>"segment 2"\<close> with their terminating zeros.\<close>

definition string_segment :: "string \<Rightarrow> iovec" where
  "string_segment s = \<lparr>iov_base = map of_char s @ [0], iov_len = 10\<rparr>"

definition two_segments :: "iovec list" where
  "two_segments = [string_segment ''segment 1'', string_segment ''segment 2'']"

section \<open>\<^verbatim>\<open>test-epoch.c\<close>\<close>

text \<open>
  The two loops over an unsigned counter. A loop that does not end is \<open>None\<close>.
\<close>

partial_function (option) increasing_epochs ::
  "env \<Rightarrow> addr \<Rightarrow> u64 \<Rightarrow> u64 \<Rightarrow> world \<Rightarrow> (unit, world) outcome option" where
  "increasing_epochs env c epoch c_max w =
     (if epoch \<le> c_max
      then case rpc_send_epoch_blocking env c epoch 2 w of
             Done r w' \<Rightarrow> increasing_epochs env c (epoch + 1) c_max w'
           | Stop r w' \<Rightarrow> Some (Stop r w')
      else Some (Done () w))"

partial_function (option) decreasing_epochs ::
  "env \<Rightarrow> addr \<Rightarrow> u64 \<Rightarrow> u64 \<Rightarrow> world \<Rightarrow> (unit, world) outcome option" where
  "decreasing_epochs env c epoch c_min w =
     (if epoch \<ge> c_min
      then case rpc_send_epoch_blocking env c epoch 2 w of
             Done r w' \<Rightarrow> decreasing_epochs env c (epoch - 1) c_min w'
           | Stop r w' \<Rightarrow> Some (Stop r w')
      else Some (Done () w))"

record client_data =
  c_name :: string
  c_min :: u64
  c_max :: u64
  c_e :: addr

definition epoch_address :: string where
  "epoch_address = ''0@lo:12345:34:100''"

text \<open>What follows the loops.\<close>

definition epoch_client_tail :: "env \<Rightarrow> addr \<Rightarrow> unit cprog" where
  "epoch_client_tail env c =
     cbind (rpc_send_blocking env c two_segments 2 2) (\<lambda>_.
     cbind (rpc_send env c two_segments 2 reply_rcv_ptr 5 2) (\<lambda>_.
     cbind (rpc_disconnect env c 1) (\<lambda>_.
     cret ())))"

definition epoch_client :: "env \<Rightarrow> client_data \<Rightarrow> world \<Rightarrow> (unit, world) outcome option" where
  "epoch_client env data w =
     (case rpc_connect env (c_e data) epoch_address 1 stack_slot w of
        Stop r w1 \<Rightarrow> Some (Stop r w1)
      | Done (rc, c) w1 \<Rightarrow>
          (case increasing_epochs env c (c_min data) (c_max data) w1 of
             Some (Done _ w2) \<Rightarrow>
               (case decreasing_epochs env c (c_max data) (c_min data) w2 of
                  Some (Done _ w3) \<Rightarrow> Some (epoch_client_tail env c w3)
                | out \<Rightarrow> out)
           | out \<Rightarrow> out))"

section \<open>\<^verbatim>\<open>test2.c\<close>\<close>

text \<open>The callback of the server: which line it prints depends on the number of fragments.\<close>

definition rcv_test2 :: "addr \<Rightarrow> c_int cprog" where
  "rcv_test2 it =
     cbind (rpc_get_fragments_count it) (\<lambda>n.
     cthen (cwhen (n = 2) (cthen (rpc_get_fragment it 0) (cret ()))) (
     cret 0))"

definition cclose :: "env \<Rightarrow> addr \<Rightarrow> unit cprog" where
  "cclose env c = cthen (rpc_disconnect env c 2) (cret ())"

text \<open>A thread whose creator does nothing but wait for it.\<close>

definition thread_and_join :: "env \<Rightarrow> fptr \<Rightarrow> unit cprog \<Rightarrow> c_int cprog" where
  "thread_and_join env f body =
     cthen (ext_void (Sys (M0_SET0 stack_slot))) (
     cbind (ext_int env (Sys (M0_thread_init stack_slot f))) (\<lambda>rc.
     cthen (cwhen (rc = 0) body) (
     ext_int env (Sys (M0_thread_join stack_slot)))))"

definition server :: "env \<Rightarrow> unit cprog" where
  "server env =
     cbind (rpc_listen env address_10 (Some rcv_callbacks) stack_slot) (\<lambda>(rc, e).
     cthen (ext_void (Sys Scanf)) (
     rpc_destroy_endpoint e))"

definition client_test2 :: "env \<Rightarrow> unit cprog" where
  "client_test2 env =
     cbind (rpc_create_endpoint env address_2 stack_slot) (\<lambda>(rc, e).
     cbind (rpc_connect env e address_10 3 stack_slot) (\<lambda>(rc, c).
     cbind (rpc_send_blocking env c two_segments 2 1) (\<lambda>_.
     cbind (rpc_send env c two_segments 2 reply_rcv_ptr 5 2) (\<lambda>_.
     cthen (ext_void (Sys (Sleep 2))) (
     cbind (thread_and_join env 3 (cclose env c)) (\<lambda>_.
     rpc_destroy_endpoint e))))))"

text \<open>The frame of the programs: set up, run, tear down the library.\<close>

definition with_library :: "env \<Rightarrow> unit cprog \<Rightarrow> c_int cprog" where
  "with_library env body =
     cbind (m0_init_wrapper env) (\<lambda>_.
     cbind (rpc_init env) (\<lambda>_.
     cthen (body) (
     cthen (rpc_fini) (
     cret 0))))"

definition main_test2 :: "env \<Rightarrow> c_int \<Rightarrow> c_int cprog" where
  "main_test2 env argc = with_library env (if sint argc > 1 then server env else client_test2 env)"

section \<open>\<^verbatim>\<open>test3.c\<close>\<close>

fun send_until_error :: "env \<Rightarrow> addr \<Rightarrow> iovec list \<Rightarrow> c_int \<Rightarrow> nat \<Rightarrow> unit cprog" where
  "send_until_error env c segments n 0 = cret ()"
| "send_until_error env c segments n (Suc k) =
     cbind (rpc_send_blocking env c segments n 1) (\<lambda>rc.
     if rc \<noteq> 0 then cret () else send_until_error env c segments n k)"

definition array_segment :: "u8 list \<Rightarrow> iovec" where
  "array_segment arr = \<lparr>iov_base = arr, iov_len = of_nat (length arr)\<rparr>"

text \<open>\<open>arr0\<close> has 32 KiB.\<close>

definition client_test3 :: "env \<Rightarrow> u8 list \<Rightarrow> unit cprog" where
  "client_test3 env arr0 =
     cbind (rpc_create_endpoint env address_2 stack_slot) (\<lambda>(rc, e).
     cbind (rpc_connect env e address_10 3 stack_slot) (\<lambda>(rc, c).
     cthen (send_until_error env c [array_segment arr0] 1 200) (
     cbind (rpc_disconnect env c 2) (\<lambda>_.
     rpc_destroy_endpoint e))))"

definition main_test3 :: "env \<Rightarrow> c_int \<Rightarrow> u8 list \<Rightarrow> c_int cprog" where
  "main_test3 env argc arr0 = with_library env (if sint argc > 1 then server env else client_test3 env arr0)"

section \<open>\<^verbatim>\<open>test4.c\<close>\<close>

text \<open>
  One of the threads. The size is the session's maximum less the cushion and the length field, as an
  \<open>int\<close>; the buffer is zeroed.
\<close>

definition threadMain :: "env \<Rightarrow> addr \<Rightarrow> unit cprog" where
  "threadMain env e =
     cbind (rpc_connect env e address_10 5 stack_slot) (\<lambda>(rc, c).
     if rc \<noteq> 0 then cret () else
     cbind (ext_u64 env (Conn (M0_rpc_session_get_max_item_size (rpc_get_session c)))) (\<lambda>m.
     cbind (cret (ucast (m - 128 - 4) :: c_int)) (\<lambda>sz.
     cbind (alloc env (Bytes (scast sz)) (Bytes_obj (replicate (unat (scast sz :: u64)) 0))) (\<lambda>buf.
     cbind (if buf = NULL then cret [] else load_bytes buf) (\<lambda>bs.
     cbind (rpc_send env c [\<lparr>iov_base = bs, iov_len = scast sz\<rparr>] 1 reply_rcv_ptr 5 3) (\<lambda>_.
     cthen (ext_void (Sys (Sleep 5))) (
     cbind (rpc_disconnect env c 2) (\<lambda>_.
     free buf))))))))"

section \<open>\<^verbatim>\<open>test7.c\<close> and \<^verbatim>\<open>test9.c\<close>\<close>

record timespec =
  tv_sec :: u64
  tv_nsec :: u64

definition clock_gettime :: "env \<Rightarrow> timespec cprog" where
  "clock_gettime env =
     cbind (ext_u64 env (Sys Clock_tv_sec)) (\<lambda>s.
     cbind (ext_u64 env (Sys Clock_tv_nsec)) (\<lambda>n.
     cret \<lparr>tv_sec = s, tv_nsec = n\<rparr>))"

definition nsdiff :: "timespec \<Rightarrow> timespec \<Rightarrow> u64" where
  "nsdiff t0 t1 = 1000 * 1000 * 1000 * (tv_sec t0 - tv_sec t1) + tv_nsec t0 - tv_nsec t1"

text \<open>\<open>n\<close> times an operation, leaving the program when it reports an error.\<close>

fun repeat_or_exit :: "nat \<Rightarrow> c_int cprog \<Rightarrow> unit cprog" where
  "repeat_or_exit 0 m = cret ()"
| "repeat_or_exit (Suc n) m =
     cbind m (\<lambda>rc. if rc \<noteq> 0 then cstop (Exit 1) else repeat_or_exit n m)"

text \<open>
  A round: the first and the last sample it covers and the time it took are printed (the last one
  divided by the number of samples, as a floating-point number of milliseconds).
\<close>

definition timed_round :: "env \<Rightarrow> string \<Rightarrow> nat \<Rightarrow> c_int cprog \<Rightarrow> nat \<Rightarrow> unit cprog" where
  "timed_round env label samples m j =
     cbind (clock_gettime env) (\<lambda>start.
     cthen (repeat_or_exit samples m) (
     cbind (clock_gettime env) (\<lambda>finish.
     ext_void (Sys (Print label
       [of_nat (j * samples), of_nat ((j + 1) * samples - 1), nsdiff finish start])))))"

definition print_times :: "string \<Rightarrow> rpc_stat_type \<Rightarrow> unit cprog" where
  "print_times label type =
     cbind (get_max_rpc_time type) (\<lambda>m.
     cbind (get_avg_rpc_time type) (\<lambda>a.
     ext_void (Sys (Print label [m, a]))))"

text \<open>What follows \<open>exit(0)\<close> is never reached.\<close>

definition main_test7 :: "env \<Rightarrow> unit cprog" where
  "main_test7 env =
     cbind (m0_init_wrapper env) (\<lambda>_.
     cbind (rpc_init env) (\<lambda>_.
     cbind (rpc_listen env address_10 (Some rcv_callbacks) stack_slot) (\<lambda>(rc, e).
     cthen (cseq (map (timed_round env ''time per connection'' 200
       (cbind (rpc_connect env e address_10 5 stack_slot) (\<lambda>(rc, c). cret rc))) [0..<20])) (
     cthen (print_times ''max connection time, avg connection time'' RPC_STAT_CONN) (
     cstop (Exit 0))))))"

definition main_test9 :: "env \<Rightarrow> u8 list \<Rightarrow> unit cprog" where
  "main_test9 env arr0 =
     cbind (m0_init_wrapper env) (\<lambda>_.
     cbind (rpc_init env) (\<lambda>_.
     cbind (rpc_listen env address_10 (Some rcv_callbacks) stack_slot) (\<lambda>(rc, e).
     cbind (rpc_connect env e address_10 5 stack_slot) (\<lambda>(rc, c).
     if rc \<noteq> 0 then cstop (Exit 1) else
     cthen (cseq (map (timed_round env ''average time per send'' 100
       (rpc_send_blocking env c [array_segment arr0] 1 1)) [0..<20])) (
     cthen (print_times ''max send time, avg send time'' RPC_STAT_SEND) (
     cstop (Exit 0)))))))"

section \<open>The loops of \<^verbatim>\<open>test-epoch.c\<close>\<close>

lemma unat_succ: "(x :: u64) \<noteq> - 1 \<Longrightarrow> unat (x + 1) = Suc (unat x)"
  using unatSuc [of x] by (simp add: add.commute add_eq_0_iff)

lemma unat_pred: "(x :: u64) \<noteq> 0 \<Longrightarrow> unat (x - 1) = unat x - 1"
  using unatSuc [of "x - 1"] by simp

text \<open>What a loop that returns has remembered.\<close>

definition loop_result :: "u64 \<Rightarrow> world \<Rightarrow> (unit, world) outcome option \<Rightarrow> bool" where
  "loop_result m w out \<longleftrightarrow>
     (\<exists>res. out = Some res \<and> (\<forall>w'. res = Done () w' \<longrightarrow> client_max_epoch w' = max (client_max_epoch w) m))"

lemma loop_result_step:
  assumes "loop_result m w1 out" and "client_max_epoch w1 = max (client_max_epoch w) e"
    and "max e m = m'"
  shows "loop_result m' w out"
  using assms unfolding loop_result_def by (auto simp: max.assoc)

lemma increasing_epochs_result:
  assumes "c_mx \<noteq> - 1"
  shows "loop_result (if e \<le> c_mx then c_mx else 0) w (increasing_epochs env c e c_mx w)"
proof (induction "Suc (unat c_mx) - unat e" arbitrary: e w rule: less_induct)
  case less
  show ?case
  proof (cases "e \<le> c_mx")
    case False
    then show ?thesis by (subst increasing_epochs.simps) (simp add: loop_result_def)
  next
    case True
    then have "e \<noteq> - 1" using assms by (metis word_order.extremum_uniqueI)
    then have next_e: "unat (e + 1) = Suc (unat e)" by (rule unat_succ)
    then have small: "Suc (unat c_mx) - unat (e + 1) < Suc (unat c_mx) - unat e"
      using True by (simp add: word_le_nat_alt)
    show ?thesis
    proof (cases "rpc_send_epoch_blocking env c e 2 w")
      case (Stop r w1)
      then show ?thesis using True by (subst increasing_epochs.simps) (simp add: loop_result_def)
    next
      case (Done r w1)
      have m: "client_max_epoch w1 = max (client_max_epoch w) e"
        using wp_DoneD [OF epoch_remembered Done] .
      have "max e (if e + 1 \<le> c_mx then c_mx else 0) = c_mx"
        using True next_e
        by (cases "e = c_mx") (simp_all add: max_absorb1 max_absorb2 word_le_nat_alt word_unat_eq_iff)
      from loop_result_step [OF less [OF small, of w1] m this]
      show ?thesis using True Done by (subst increasing_epochs.simps) simp
    qed
  qed
qed

lemma decreasing_epochs_result:
  assumes "c_mn \<noteq> 0"
  shows "loop_result (if c_mn \<le> e then e else 0) w (decreasing_epochs env c e c_mn w)"
proof (induction "unat e" arbitrary: e w rule: less_induct)
  case less
  show ?case
  proof (cases "c_mn \<le> e")
    case False
    then show ?thesis by (subst decreasing_epochs.simps) (simp add: loop_result_def)
  next
    case True
    then have "e \<noteq> 0" using assms by auto
    then have prev_e: "unat (e - 1) = unat e - 1" and pos: "0 < unat e"
      using unat_pred [of e] by (auto simp: unat_gt_0)
    then have small: "unat (e - 1) < unat e" by simp
    show ?thesis
    proof (cases "rpc_send_epoch_blocking env c e 2 w")
      case (Stop r w1)
      then show ?thesis using True by (subst decreasing_epochs.simps) (simp add: loop_result_def)
    next
      case (Done r w1)
      have m: "client_max_epoch w1 = max (client_max_epoch w) e"
        using wp_DoneD [OF epoch_remembered Done] .
      have "e - 1 \<le> e" using small by (simp add: word_le_nat_alt)
      then have "max e (if c_mn \<le> e - 1 then e - 1 else 0) = e" by (simp add: max_absorb1)
      from loop_result_step [OF less [OF small, of w1] m this]
      show ?thesis using True Done by (subst decreasing_epochs.simps) simp
    qed
  qed
qed

lemma tail_remembers: "keeps client_max_epoch (epoch_client_tail env c)"
  unfolding epoch_client_tail_def
  by (intro keeps_rules remembered.keeps_send_blocking remembered.keeps_send
      remembered.keeps_disconnect)

text \<open>
  C31. Termination of the client of the epoch test. Whatever the peer and the transport answer, a client
  whose lowest epoch is not 0 and whose highest is not \<open>2^64 - 1\<close> leaves both of its loops: the call
  is defined, and when it returns (rather than stopping the process) the highest epoch the process
  remembers is the larger of the one before and the client's highest one.
\<close>

theorem epoch_client_terminates:
  assumes "c_min data \<noteq> 0" and "c_max data \<noteq> - 1" and "c_min data \<le> c_max data"
  shows "\<exists>out. epoch_client env data w = Some out \<and>
    (\<forall>w'. out = Done () w' \<longrightarrow>
       client_max_epoch w' = max (client_max_epoch w) (c_max data))"
proof (cases "rpc_connect env (c_e data) epoch_address 1 stack_slot w")
  case (Stop r w1)
  then show ?thesis by (simp add: epoch_client_def)
next
  case (Done rcc w1)
  obtain rc c where rcc: "rcc = (rc, c)" by (cases rcc)
  have m1: "client_max_epoch w1 = client_max_epoch w"
    using keeps_Done [OF keeps_connects(2) Done] .
  obtain o2 where o2: "increasing_epochs env c (c_min data) (c_max data) w1 = Some o2"
      "\<And>w'. o2 = Done () w' \<Longrightarrow> client_max_epoch w' = max (client_max_epoch w1) (c_max data)"
    using increasing_epochs_result [OF assms(2), of "c_min data" w1 env c] assms(3)
    by (auto simp: loop_result_def)
  show ?thesis
  proof (cases o2)
    case Stop
    then show ?thesis using Done rcc o2(1) by (simp add: epoch_client_def)
  next
    case o2_Done: (Done u w2)
    obtain o3 where o3: "decreasing_epochs env c (c_max data) (c_min data) w2 = Some o3"
        "\<And>w'. o3 = Done () w' \<Longrightarrow> client_max_epoch w' = max (client_max_epoch w2) (c_max data)"
      using decreasing_epochs_result [OF assms(1), of "c_max data" w2 env c] assms(3)
      by (auto simp: loop_result_def)
    show ?thesis
    proof (cases o3)
      case Stop
      then show ?thesis using Done rcc o2(1) o2_Done o3(1) by (simp add: epoch_client_def)
    next
      case o3_Done: (Done u' w3)
      have "epoch_client_tail env c w3 = Done () w' \<Longrightarrow>
          client_max_epoch w' = max (client_max_epoch w) (c_max data)" for w'
        using keeps_Done [OF tail_remembers, of env c w3 "()" w'] o2(2) [of w2] o3(2) [of w3] o2_Done o3_Done m1
        by simp
      then show ?thesis
        using Done rcc o2(1) o2_Done o3(1) o3_Done by (simp add: epoch_client_def)
    qed
  qed
qed

theorem epoch_client_terminates_witness:
  "\<exists>out. epoch_client willing_env \<lparr>c_name = ''Client 1'', c_min = 1, c_max = 10, c_e = 1\<rparr> initial_world = Some out \<and>
    (\<forall>w'. out = Done () w' \<longrightarrow> client_max_epoch w' = 10)"
proof -
  have "client_max_epoch initial_world = 0" by (simp add: initial_world_def)
  then show ?thesis
    using epoch_client_terminates [of "\<lparr>c_name = ''Client 1'', c_min = 1, c_max = 10, c_e = 1\<rparr>" willing_env initial_world]
    by simp
qed

text \<open>With the lowest epoch 0 the counter wraps below it, and the second loop has no other way out.\<close>

lemma decreasing_epochs_to_0:
  assumes "decreasing_epochs env c e 0 w = Some out"
  shows "\<exists>r w'. out = Stop r w'"
proof -
  have "c_mn = 0 \<longrightarrow> (\<exists>r w'. out = Stop r w')"
    if "decreasing_epochs env c e c_mn w = Some out" for c_mn
    using that
  proof (rule decreasing_epochs.raw_induct [rotated, where P = "\<lambda>env c e m w out. m = 0 \<longrightarrow> (\<exists>r w'. out = Stop r w')"], goal_cases)
    case (1 f env c e m w out)
    then show ?case by (auto split: outcome.splits if_splits)
  qed
  with assms show ?thesis by blast
qed

text \<open>
  C32. The hypothesis on the lowest epoch is needed: a client whose lowest epoch is 0 never returns. The
  loop counts an unsigned epoch down while it is at least 0; either the process stops inside a call or
  the loop runs forever.
\<close>

theorem epoch_client_from_0_never_returns:
  "c_min data = 0 \<Longrightarrow> epoch_client env data w \<noteq> Some (Done () w')"
  by (auto simp: epoch_client_def dest!: decreasing_epochs_to_0 split: outcome.splits option.splits)

theorem epoch_client_from_0_never_returns_witness:
  "\<forall>w'. epoch_client willing_env \<lparr>c_name = ''Client 1'', c_min = 0, c_max = 10, c_e = 1\<rparr> initial_world
     \<noteq> Some (Done () w')"
  using epoch_client_from_0_never_returns [of "\<lparr>c_name = ''Client 1'', c_min = 0, c_max = 10, c_e = 1\<rparr>" willing_env initial_world]
  by simp

section \<open>What \<^verbatim>\<open>test9.c\<close> reports\<close>

lemma keeps_cseq: "(\<And>m. m \<in> set ms \<Longrightarrow> keeps f m) \<Longrightarrow> keeps f (cseq ms)"
  by (induction ms) (auto intro!: keeps_rules)

lemma keeps_repeat_or_exit: "keeps f m \<Longrightarrow> keeps f (repeat_or_exit n m)"
  by (induction n) (auto intro!: keeps_rules)

lemma keeps_timed_round:
  "keeps send_stat m \<Longrightarrow> keeps send_stat (timed_round env label n m j)"
  "keeps stat_slots m \<Longrightarrow> keeps stat_slots (timed_round env label n m j)"
  unfolding timed_round_def clock_gettime_def
  by (intro keeps_rules keeps_repeat_or_exit send_stat.keeps_ext stat_slots.keeps_ext; assumption)+

definition test9_before_report :: "env \<Rightarrow> u8 list \<Rightarrow> unit cprog" where
  "test9_before_report env arr0 =
     cbind (m0_init_wrapper env) (\<lambda>_.
     cbind (rpc_init env) (\<lambda>_.
     cbind (rpc_listen env address_10 (Some rcv_callbacks) stack_slot) (\<lambda>(rc, e).
     cbind (rpc_connect env e address_10 5 stack_slot) (\<lambda>(rc, c).
     if rc \<noteq> 0 then cstop (Exit 1) else
     cseq (map (timed_round env ''average time per send'' 100
       (rpc_send_blocking env c [array_segment arr0] 1 1)) [0..<20])))))"

lemma test9_before_report_keeps:
  "keeps send_stat (test9_before_report env arr0)" "keeps stat_slots (test9_before_report env arr0)"
  unfolding test9_before_report_def
  by (intro keeps_rules keeps_cseq;
      auto intro!: keeps_rules keeps_timed_round send_stat.keeps_send_blocking
        stat_slots.keeps_send_blocking)+

lemma main_test9_split:
  "main_test9 env arr0 =
     cthen (test9_before_report env arr0)
       (cthen (print_times ''max send time, avg send time'' RPC_STAT_SEND) (cstop (Exit 0)))"
  unfolding main_test9_def test9_before_report_def
  by (rule ext) (auto simp: prog_simps cbind_def split: outcome.splits)

end
