(* ===== verification/Client_Runs.thy ===== *)
theory Client_Runs
  imports Rpclite_Clients
begin

text \<open>
  Complete runs of two client programs (\<^verbatim>\<open>test3.c\<close> and \<^verbatim>\<open>test9.c\<close>): the contracts of the
  operations composed from \<open>m0_init\<close> to the end of \<open>main\<close>, when every call of Mero succeeds.
\<close>

section \<open>A run in which every call of Mero succeeds\<close>

definition mero_up :: "env \<Rightarrow> bool" where
  "mero_up env \<longleftrightarrow> machine_keeps_reqh env \<and> fops_typed env \<and>
     (\<forall>l c. ans_int env l c = 0) \<and>
     (\<forall>l c. (\<nexists>p a q m n. c = Ep (M0_rpc_machine_init p a q m n)) \<longrightarrow> ans_addr env l c \<noteq> NULL) \<and>
     (\<forall>l n. (\<forall>b. n = Bytes b \<longrightarrow> unat b < 2 ^ 31) \<longrightarrow> ans_alloc env l n) \<and>
     (\<forall>f s l. \<not> too_big env f s l)"

lemma mero_upD:
  assumes "mero_up env"
  shows "machine_keeps_reqh env" "fops_typed env" "ans_int env l c = 0"
    "ans_addr env l (Fop fc) \<noteq> NULL" "ans_addr env l (Hi hc) \<noteq> NULL" "ans_addr env l (Conn cc) \<noteq> NULL"
    "ans_alloc env l Sizeof_endpoint" "ans_alloc env l Sizeof_reqh" "ans_alloc env l Sizeof_connection"
    "unat b < 2 ^ 31 \<Longrightarrow> ans_alloc env l (Bytes b)" "\<not> too_big env f s l"
  using assms by (auto simp: mero_up_def)

lemma willing_alloc_small: "(\<And>b. n = Bytes b \<Longrightarrow> unat b < 2 ^ 31) \<Longrightarrow> willing_alloc n"
  by (cases n) fastforce+

lemma roomy_up: "mero_up roomy_env"
  by (auto intro!: willing_alloc_small simp: mero_up_def roomy_simps roomy_not_too_big roomy_fops_typed machine_keeps_reqh_def
      willing_addr_def split: call.splits ep_call.splits alloc_size.splits)

lemma wp_both: "wp m Q E w \<Longrightarrow> wp m Q' E' w \<Longrightarrow> wp m (\<lambda>a t. Q a t \<and> Q' a t) E' w"
  by (simp add: wp_def split: outcome.splits)

lemma create_endpoint_up:
  assumes "wf_world w" and "mero_up env" and "length s < 80" and "e \<noteq> NULL"
  shows "wp (rpc_create_endpoint env s e)
    (\<lambda>res w'. create_post s w res w' \<and> fst res = 0 \<and> w_next w' = Suc (Suc (w_next w)) \<and>
       posts (w_log w') = posts (w_log w) \<and> rpc_stat w' = rpc_stat w) (\<lambda>_ _. False) w"
proof (rule wp_both [OF create_endpoint_wp [OF assms(1) mero_upD(1) [OF assms(2)]]])
  show "wp (rpc_create_endpoint env s e)
    (\<lambda>res w'. fst res = 0 \<and> w_next w' = Suc (Suc (w_next w)) \<and>
       posts (w_log w') = posts (w_log w) \<and> rpc_stat w' = rpc_stat w) (\<lambda>_ _. False) w"
    unfolding rpc_create_endpoint_def
    by (intro wp_rules)
      (use assms wf_world_next [OF assms(1)] in
        \<open>auto simp: fresh_endpoint_def address_size_def mero_upD split: if_splits\<close>)
qed

definition room_for_a_sample :: "world \<Rightarrow> bool" where
  "room_for_a_sample w \<longleftrightarrow> length (rpc_stat w) = stat_index RPC_STAT_NR \<and>
     unat (rs_num (rpc_stat w ! stat_index RPC_STAT_CONN)) < 2 ^ 32 - 1"

lemma connect_up:
  assumes "wf_world w" and "mero_up env" and "length s < 80" and "c \<noteq> NULL" and "room_for_a_sample w"
  shows "wp (rpc_connect env e s t c)
    (\<lambda>res w'. connect_post s w res w' \<and> fst res = 0 \<and> w_next w' = Suc (w_next w) \<and>
       posts (w_log w') = posts (w_log w)) (\<lambda>_ _. False) w"
  unfolding rpc_connect_def
proof (rule wp_both [OF connect_wp [OF assms(1)]])
  show "wp (rpc_connect_rpc_machine env (rpc_get_rpc_machine e) s t c)
    (\<lambda>res w'. fst res = 0 \<and> w_next w' = Suc (w_next w) \<and>
       posts (w_log w') = posts (w_log w)) (\<lambda>_ _. False) w"
    unfolding rpc_connect_rpc_machine_def
    by (intro wp_rules)
      (use assms wf_world_next [OF assms(1)] in
        \<open>auto simp: fresh_connection_def address_size_def mero_upD stat_update_None_iff u32_succ_zero_iff
          room_for_a_sample_def stat_lock_log_def split: if_splits\<close>)
qed

text \<open>What a send keeps: the blocks that existed before it, and the resources held.\<close>

definition older_kept :: "world \<Rightarrow> world \<Rightarrow> bool" where
  "older_kept w w' \<longleftrightarrow> w_next w \<le> w_next w' \<and> (\<forall>q < w_next w. w_heap w' q = w_heap w q) \<and>
     held (w_log w') = held (w_log w) \<and> wf_world w'"

lemma older_kept_trans: "older_kept w w1 \<Longrightarrow> older_kept w1 w2 \<Longrightarrow> older_kept w w2"
  by (auto simp: older_kept_def)

lemma send_blocking_up:
  assumes "wf_world w" and "mero_up env" and "good_segments segs n"
    and "total_len (the_segments segs n) < 2 ^ 31"
  shows "\<exists>w'. rpc_send_blocking env c segs n t w = Done 0 w' \<and> older_kept w w' \<and>
    posts (w_log w') = posts (w_log w) @ [Own_fop (w_next w)]"
proof -
  let ?p = "w_next w" and ?ss = "the_segments segs n"
  let ?w1 = "with_new_fop env (rpc_get_session c) Rpclite_fopt w"
  let ?w2 = "filled (Own_fop ?p) ?ss ?w1"
  note w1 = with_new_fop_facts [OF assms(1), of env "rpc_get_session c" Rpclite_fopt]
  have at: "rpclite_fop_at ?w1 (Own_fop ?p)"
    using w1(2) mero_upD(2) [OF assms(2)] by (auto simp: rpclite_fop_at_def fops_typed_def)
  have "unat (scast (len_sum ?ss) :: u64) = total_len ?ss"
    using assms(4) by (simp add: scast_small unat_len_sum)
  then have fill: "fill_rpclite_fop env (Own_fop ?p) segs n ?w1 = Done () ?w2"
    using fill_run [OF w1(1) at assms(3,4)] mero_upD(10) [OF assms(2)] assms(4) by simp
  obtain x where x: "fop_at ?w2 (Own_fop ?p) = Some x"
    using fop_at_filled [OF w1] by auto
  have np: "?p \<noteq> NULL" using wf_world_next [OF assms(1)] by simp
  have "wp (rpc_send_fop_blocking_and_release env c ?p t) (\<lambda>rc w'. rc = 0) (\<lambda>_ _. False) ?w2"
    unfolding rpc_send_fop_blocking_and_release_def
    by (intro wp_rules) (use x np in \<open>auto simp: mero_upD [OF assms(2)]\<close>)
  then obtain w' where send: "rpc_send_fop_blocking_and_release env c ?p t ?w2 = Done 0 w'"
    by (auto dest: wp_returns)
  have post: "send_fop_post c ?p x ?w2 0 w'"
    using wp_DoneD [OF send_fop_wp [OF x] send] .
  have run: "rpc_send_blocking env c segs n t w = Done 0 w'"
    using mero_upD(4) [OF assms(2)] np fill send
    by (simp add: rpc_send_blocking_def fop_alloc_at_def prog_simps Let_def with_new_fop_def)
  have log2: "w_log ?w2 = w_log w @
      [(Fop (M0_fop_alloc_at (rpc_get_session c) Rpclite_fopt), RAddr ?p),
       (Sys (Malloc (Bytes (scast (len_sum ?ss)))), RAddr (Suc ?p))]"
    by (simp add: with_new_fop_def)
  have "held (w_log w') = held (w_log w)"
    using post log2 np by (auto simp: fun_eq_iff send_fop_post_def Let_def held_simps)
  moreover have "posts (w_log w') = posts (w_log w) @ [Own_fop ?p]"
  proof -
    have log: "w_log w' = w_log ?w2 @ new_log ?w2 w'" and
        posted: "posts (new_log ?w2 w') = [Own_fop ?p]"
      using post by (simp_all add: send_fop_post_def Let_def)
    have "posts (w_log w') = posts (w_log ?w2 @ new_log ?w2 w')" by (rule arg_cong [OF log])
    also have "\<dots> = posts (w_log w) @ [Own_fop ?p]"
      unfolding log2 posts_simps posted by simp
    finally show ?thesis .
  qed
  moreover have "\<forall>q < ?p. w_heap w' q = w_heap w q"
    using post
    by (simp add: send_fop_post_def Let_def same_but_def fop_addr_def with_new_fop_def)
  moreover have "wf_world w'" "w_next w' = Suc (Suc ?p)"
    using post wf_filled [OF w1]
    by (simp_all add: send_fop_post_def Let_def same_but_def with_new_fop_def)
  ultimately show ?thesis using run by (auto simp: older_kept_def)
qed

lemma send_until_error_up:
  assumes "mero_up env" and "good_segments segs n" and "total_len (the_segments segs n) < 2 ^ 31"
    and "wf_world w"
  shows "\<exists>w'. send_until_error env c segs n k w = Done () w' \<and> older_kept w w' \<and>
    length (posts (w_log w')) = length (posts (w_log w)) + k"
  using assms(4)
proof (induction k arbitrary: w)
  case 0
  then show ?case by (simp add: prog_simps older_kept_def)
next
  case (Suc k)
  obtain w1 where w1: "rpc_send_blocking env c segs n 1 w = Done 0 w1" "older_kept w w1"
      "posts (w_log w1) = posts (w_log w) @ [Own_fop (w_next w)]"
    using send_blocking_up [OF Suc.prems assms(1-3), of c 1] by blast
  moreover obtain w' where "send_until_error env c segs n k w1 = Done () w'" "older_kept w1 w'"
      "length (posts (w_log w')) = length (posts (w_log w1)) + k"
    using Suc.IH [of w1] w1(2) by (auto simp: older_kept_def)
  ultimately show ?case using older_kept_trans by (fastforce simp: prog_simps)
qed

lemma array_segment_good:
  assumes "length arr0 < 2 ^ 31"
  shows "good_segments [array_segment arr0] 1" "total_len (the_segments [array_segment arr0] 1) < 2 ^ 31"
  using assms
  by (simp_all add: good_segments_def array_segment_def the_segments_def readable_def
      unat_of_nat_bounded)

lemma teardown_posts:
  "wp (rpc_disconnect env c t) (\<lambda>_ w'. posts (w_log w') = posts (w_log w) \<and> w_next w' = w_next w)
     (\<lambda>_ _. True) w"
  "wp (rpc_destroy_endpoint e) (\<lambda>_ w'. posts (w_log w') = posts (w_log w) \<and> w_next w' = w_next w)
     (\<lambda>_ _. True) w"
  unfolding rpc_disconnect_def rpc_destroy_endpoint_def by (intro wp_rules; simp)+

lemma client_test3_up:
  assumes "wf_world w" and "mero_up env" and "length arr0 < 2 ^ 31" and "room_for_a_sample w"
  shows "\<exists>w'. client_test3 env arr0 w = Done () w' \<and> older_kept w w' \<and>
    length (posts (w_log w')) = length (posts (w_log w)) + 200"
proof -
  let ?p = "w_next w" let ?q = "Suc ?p" let ?c = "Suc ?q"
  obtain w1 where w1: "rpc_create_endpoint env address_2 stack_slot w = Done (0, ?p) w1"
      "wf_world w1" "w_next w1 = ?c" "posts (w_log w1) = posts (w_log w)" "rpc_stat w1 = rpc_stat w"
      "w_heap w1 = (w_heap w)(?p \<mapsto> made_endpoint address_2 (Some ?q), ?q \<mapsto> Reqh_obj)"
      "\<And>r. held (w_log w1) r =
         held (w_log w) r + (if r \<in> set (endpoint_resources ?p ?q) then 1 else 0)"
    using wp_returns [OF create_endpoint_up [OF assms(1,2), of address_2 stack_slot]]
    by (auto simp: create_post_def Let_def address_2_def stack_slot_def)
  have "room_for_a_sample w1" using assms(4) w1(5) by (simp add: room_for_a_sample_def)
  then obtain w2 ob where w2: "rpc_connect env ?p address_10 3 stack_slot w1 = Done (0, ?c) w2"
      "wf_world w2" "w_next w2 = Suc ?c" "posts (w_log w2) = posts (w_log w1)"
      "w_heap w2 = (w_heap w1)(?c \<mapsto> ob)"
      "\<And>r. held (w_log w2) r = held (w_log w1) r + (if r \<in> set (connection_resources ?c) then 1 else 0)"
    using wp_returns [OF connect_up [OF w1(2) assms(2), of address_10 stack_slot ?p 3]] w1(3)
    by (auto simp: connect_post_def Let_def address_10_def stack_slot_def)
  obtain w3 where w3: "send_until_error env ?c [array_segment arr0] 1 200 w2 = Done () w3"
      "older_kept w2 w3" "length (posts (w_log w3)) = length (posts (w_log w2)) + 200"
    using send_until_error_up [OF assms(2) array_segment_good [OF assms(3)] w2(2)] by blast
  have heap3: "w_heap w3 x = w_heap w2 x" if "x < Suc ?c" for x
    using w3(2) w2(3) that by (simp add: older_kept_def)
  obtain rc w4 where w4: "rpc_disconnect env ?c 2 w3 = Done rc w4" "wf_world w4"
      "w_heap w4 = (w_heap w3)(?c := None)"
      "held (w_log w4) = (\<lambda>r. held (w_log w3) r - (if r \<in> set (connection_resources ?c) then 1 else 0))"
    using disconnect_run [of ?c w3 ob env 2] heap3 [of ?c] w2(5) w3(2)
    by (auto simp: older_kept_def)
  obtain w5 where w5: "rpc_destroy_endpoint ?p w4 = Done () w5" "wf_world w5"
      "w_heap w5 = (w_heap w4)(?p := None, ?q := None)"
      "held (w_log w5) = (\<lambda>r. held (w_log w4) r - (if r \<in> set (endpoint_resources ?p ?q) then 1 else 0))"
    using destroy_endpoint_run [OF w4(2), of ?p address_2 ?q] heap3 w1(6) w2(5) w4(3) by auto
  have "client_test3 env arr0 w = Done () w5"
    using w1(1) w2(1) w3(1) w4(1) w5(1) by (simp add: client_test3_def prog_simps)
  moreover have "posts (w_log w5) = posts (w_log w3)" "w_next w5 = w_next w3"
    using wp_DoneD [OF teardown_posts(1) w4(1)] wp_DoneD [OF teardown_posts(2) w5(1)] by simp_all
  moreover have "\<forall>x < ?p. w_heap w5 x = w_heap w x"
    using w5(3) w4(3) heap3 w2(5) w1(6) by simp
  moreover have "held (w_log w5) = held (w_log w)"
    using w1(7) w2(6) w3(2) w4(4) w5(4) by (simp add: fun_eq_iff older_kept_def)
  ultimately show ?thesis
    using w1(3,4) w2(3,4) w3(2,3) w5(2) by (auto simp: older_kept_def)
qed

lemma m0_init_up:
  assumes "m0init_hi w = NULL" and "mero_up env"
  shows "\<exists>w'. m0_init_wrapper env w = Done 0 w' \<and> w_heap w' = w_heap w \<and> w_next w' = w_next w \<and>
    rpc_stat w' = rpc_stat w \<and> posts (w_log w') = posts (w_log w) \<and>
    (\<forall>r. held (w_log w') r = held (w_log w) r + (if r = Halon_interface (m0init_hi w') then 1 else 0))"
proof -
  have "wp (m0_init_wrapper env) (\<lambda>rc w'. rc = 0 \<and> w_heap w' = w_heap w \<and> w_next w' = w_next w \<and>
      rpc_stat w' = rpc_stat w \<and> posts (w_log w') = posts (w_log w) \<and>
      (\<forall>r. held (w_log w') r = held (w_log w) r +
         (if r = Halon_interface (m0init_hi w') then 1 else 0))) (\<lambda>_ _. False) w"
    unfolding m0_init_wrapper_def
    by (intro wp_rules) (use assms in \<open>auto simp: held_simps mero_upD\<close>)
  then show ?thesis by (auto dest: wp_returns)
qed

lemma rpc_init_up:
  assumes "mero_up env"
  shows "\<exists>w'. rpc_init env w = Done 0 w' \<and> w_heap w' = w_heap w \<and> w_next w' = w_next w \<and>
    rpc_stat w' = rpc_stat w \<and> posts (w_log w') = posts (w_log w) \<and> m0init_hi w' = m0init_hi w \<and>
    (\<forall>r. held (w_log w') r = held (w_log w) r + (if r \<in> set rpclite_resources then 1 else 0))"
  by (simp add: rpc_init_run net_domain_rc_def mero_upD [OF assms] held_simps init_logs
      rpclite_resources_def)

lemma rpc_fini_frame:
  "\<exists>w'. rpc_fini w = Done () w' \<and> w_heap w' = w_heap w \<and> m0init_hi w' = m0init_hi w \<and>
    posts (w_log w') = posts (w_log w) \<and>
    (\<forall>r. held (w_log w') r = held (w_log w) r - (if r \<in> set rpclite_resources then 1 else 0))"
  by (simp add: rpc_fini_run held_simps init_logs rpclite_resources_def)



section \<open>\<^verbatim>\<open>test9.c\<close> when every call of Mero succeeds\<close>

text \<open>A piece of the run that sends \<open>k\<close> items.\<close>

definition sends :: "nat \<Rightarrow> unit cprog \<Rightarrow> bool" where
  "sends k m \<longleftrightarrow> (\<forall>w. wf_world w \<longrightarrow> (\<exists>w'. m w = Done () w' \<and> wf_world w' \<and>
     length (posts (w_log w')) = length (posts (w_log w)) + k))"

lemma sendsD:
  assumes "sends k m" and "wf_world w"
  obtains w' where "m w = Done () w'" "wf_world w'" "length (posts (w_log w')) = length (posts (w_log w)) + k"
  using assms by (auto simp: sends_def)

lemma sends_round:
  assumes "mero_up env" and "good_segments segs n" and "total_len (the_segments segs n) < 2 ^ 31"
  shows "sends k (repeat_or_exit k (rpc_send_blocking env c segs n t))"
proof (induction k)
  case 0
  then show ?case by (simp add: sends_def prog_simps)
next
  case (Suc k)
  show ?case
    unfolding sends_def
  proof (intro allI impI)
    fix w assume "wf_world w"
    then obtain w1 where w1: "rpc_send_blocking env c segs n t w = Done 0 w1" "older_kept w w1"
        "posts (w_log w1) = posts (w_log w) @ [Own_fop (w_next w)]"
      using send_blocking_up [OF _ assms] by blast
    then have "wf_world w1" by (simp add: older_kept_def)
    with Suc obtain w' where "repeat_or_exit k (rpc_send_blocking env c segs n t) w1 = Done () w'"
        "wf_world w'" "length (posts (w_log w')) = length (posts (w_log w1)) + k"
      by (rule sendsD)
    with w1(1,3) show "\<exists>w'. repeat_or_exit (Suc k) (rpc_send_blocking env c segs n t) w = Done () w' \<and>
        wf_world w' \<and> length (posts (w_log w')) = length (posts (w_log w)) + Suc k"
      by (simp add: prog_simps)
  qed
qed

lemma sends_timed_round:
  assumes "sends k (repeat_or_exit k m)"
  shows "sends k (timed_round env label k m j)"
  unfolding sends_def
proof (intro allI impI)
  fix w assume w: "wf_world w"
  define w0 where "w0 = logged [(Sys Clock_tv_sec, RU64 (ans_u64 env (w_log w) (Sys Clock_tv_sec))),
    (Sys Clock_tv_nsec, RU64 (ans_u64 env (w_log w @ [(Sys Clock_tv_sec,
       RU64 (ans_u64 env (w_log w) (Sys Clock_tv_sec)))]) (Sys Clock_tv_nsec)))] w"
  then have "wf_world w0" using w by simp
  with assms obtain w1 where "repeat_or_exit k m w0 = Done () w1" "wf_world w1"
      "length (posts (w_log w1)) = length (posts (w_log w0)) + k" by (rule sendsD)
  then show "\<exists>w'. timed_round env label k m j w = Done () w' \<and> wf_world w' \<and>
      length (posts (w_log w')) = length (posts (w_log w)) + k"
    by (simp add: timed_round_def clock_gettime_def prog_simps world_simps w0_def log_call_logged)
qed

lemma sends_cseq:
  assumes "\<And>m. m \<in> set ms \<Longrightarrow> sends k m"
  shows "sends (length ms * k) (cseq ms)"
  using assms
proof (induction ms)
  case Nil
  then show ?case by (simp add: sends_def prog_simps)
next
  case (Cons m ms)
  then have m: "sends k m" and ms: "sends (length ms * k) (cseq ms)" by simp_all
  show ?case
    unfolding sends_def
  proof (intro allI impI)
    fix w assume "wf_world w"
    with m obtain w1 where w1: "m w = Done () w1" "wf_world w1"
        "length (posts (w_log w1)) = length (posts (w_log w)) + k" by (rule sendsD)
    with ms obtain w' where "cseq ms w1 = Done () w'" "wf_world w'"
        "length (posts (w_log w')) = length (posts (w_log w1)) + length ms * k" by (blast elim: sendsD)
    with w1 show "\<exists>w'. cseq (m # ms) w = Done () w' \<and> wf_world w' \<and>
        length (posts (w_log w')) = length (posts (w_log w)) + length (m # ms) * k"
      by (simp add: prog_simps)
  qed
qed

lemma listen_up:
  assumes "wf_world w" and "mero_up env" and "length s < 80" and "e \<noteq> NULL"
  shows "\<exists>w'. rpc_listen env s cbs e w = Done (0, w_next w) w' \<and> wf_world w' \<and>
    posts (w_log w') = posts (w_log w) \<and> rpc_stat w' = rpc_stat w"
proof -
  let ?w = "w\<lparr>rpclite_listen_cbs := (case cbs of Some c \<Rightarrow> c | None \<Rightarrow> no_listen_callbacks)\<rparr>"
  have "wf_world ?w" using assms(1) by (simp add: wf_world_def)
  from wp_returns [OF create_endpoint_up [OF this assms(2-4)]] show ?thesis
    by (auto simp: rpc_listen_def prog_simps create_post_def Let_def)
qed

lemma test9_before_report_up:
  assumes "wf_world w" and "m0init_hi w = NULL" and "mero_up env" and "room_for_a_sample w"
    and "length arr0 < 2 ^ 31"
  shows "\<exists>w'. test9_before_report env arr0 w = Done () w' \<and>
    length (posts (w_log w')) = length (posts (w_log w)) + 2000"
proof -
  obtain w1 where w1: "m0_init_wrapper env w = Done 0 w1" "w_heap w1 = w_heap w" "w_next w1 = w_next w"
      "rpc_stat w1 = rpc_stat w" "posts (w_log w1) = posts (w_log w)"
    using m0_init_up [OF assms(2,3)] by blast
  obtain w2 where w2: "rpc_init env w1 = Done 0 w2" "w_heap w2 = w_heap w1" "w_next w2 = w_next w1"
      "rpc_stat w2 = rpc_stat w1" "posts (w_log w2) = posts (w_log w1)"
    using rpc_init_up [OF assms(3), of w1] by blast
  have "wf_world w2" using assms(1) w1(2,3) w2(2,3) by (simp add: wf_world_def)
  then obtain w3 e where w3: "rpc_listen env address_10 (Some rcv_callbacks) stack_slot w2 = Done (0, e) w3"
      "wf_world w3" "posts (w_log w3) = posts (w_log w2)" "rpc_stat w3 = rpc_stat w2"
    using listen_up [OF _ assms(3), of w2 address_10 stack_slot "Some rcv_callbacks"]
    by (auto simp: address_10_def stack_slot_def)
  have "room_for_a_sample w3" using assms(4) w1(4) w2(4) w3(4) by (simp add: room_for_a_sample_def)
  then obtain w4 c where w4: "rpc_connect env e address_10 5 stack_slot w3 = Done (0, c) w4"
      "wf_world w4" "posts (w_log w4) = posts (w_log w3)"
    using wp_returns [OF connect_up [OF w3(2) assms(3), of address_10 stack_slot e 5]]
    by (auto simp: connect_post_def Let_def address_10_def stack_slot_def)
  let ?ms = "map (timed_round env ''average time per send'' 100
    (rpc_send_blocking env c [array_segment arr0] 1 1)) [0..<20]"
  have "sends (length ?ms * 100) (cseq ?ms)"
    using sends_timed_round [OF sends_round [OF assms(3) array_segment_good [OF assms(5)]]]
    by (intro sends_cseq) auto
  then have "sends 2000 (cseq ?ms)" by simp
  then obtain w5 where "cseq ?ms w4 = Done () w5"
      "length (posts (w_log w5)) = length (posts (w_log w4)) + 2000"
    using w4(2) by (blast elim: sendsD)
  then show ?thesis
    using w1(1,5) w2(1,5) w3(1,3) w4(1,3) by (simp add: test9_before_report_def prog_simps)
qed

text \<open>
  What the send benchmark measures. When every call of Mero succeeds, \<open>main\<close> of \<^verbatim>\<open>test9.c\<close> sends
  all of its 20 rounds of 100 messages and leaves with code 0, but the maximal and average send times
  it prints at the end are 0, whatever the clock showed: only the reply handler of the asynchronous
  call records a send time, and the program sends with the blocking one.
\<close>

theorem test9_reports_zero:
  assumes "wf_world w" and "m0init_hi w = NULL" and "mero_up env" and "room_for_a_sample w"
    and "length arr0 < 2 ^ 31" and "send_stat w = zero_statistic"
  shows "\<exists>w'. main_test9 env arr0 w = Stop (Exit 0) w' \<and>
    length (posts (w_log w')) = length (posts (w_log w)) + 2000 \<and>
    last (w_log w') = (Sys (Print ''max send time, avg send time'' [0, 0]), RVoid)"
proof -
  obtain w1 where w1: "test9_before_report env arr0 w = Done () w1"
      "length (posts (w_log w1)) = length (posts (w_log w)) + 2000"
    using test9_before_report_up [OF assms(1-5)] by blast
  have "send_stat w1 = zero_statistic"
    using keeps_Done [OF test9_before_report_keeps(1) w1(1)] assms(6) by simp
  moreover have "length (rpc_stat w1) = 2"
    using keeps_Done [OF test9_before_report_keeps(2) w1(1)] assms(4)
    by (simp add: stat_slots_def room_for_a_sample_def)
  ultimately have "print_times ''max send time, avg send time'' RPC_STAT_SEND w1 =
      Done () (log_call (Sys (Print ''max send time, avg send time'' [0, 0])) RVoid w1)"
    by (simp add: print_times_def get_max_rpc_time_def get_avg_rpc_time_def prog_simps world_simps
        send_stat_def zero_statistic_def)
  then show ?thesis using w1 by (simp add: main_test9_split prog_simps log_call_def)
qed

end
