(* ===== verification/Paxos_Types.thy ===== *)
theory Paxos_Types
  imports HPrelude
begin

text \<open>
  Identifiers, messages and pure functions of the consensus protocol (packages \<^verbatim>\<open>consensus\<close> and
  \<^verbatim>\<open>consensus-paxos\<close>): decrees, ballots and their orders, the lifted order of \<^verbatim>\<open>Data.Lifted\<close>,
  the choice of a value among votes, and the intervals of decrees that synchronising acceptors
  exchange. A process identifier is any linearly ordered type in a ballot; the processes that wait for
  replies are numbered. \<open>Int\<close> is an integer: ballots and decrees do not reach its bound.
\<close>

section \<open>Decrees\<close>

datatype DecreeId = DecreeId (decreeLegislatureId: int) (decreeNumber: int)

instantiation DecreeId :: linorder
begin

definition less_eq_DecreeId :: "DecreeId \<Rightarrow> DecreeId \<Rightarrow> bool" where
  "less_eq_DecreeId d e \<longleftrightarrow> decreeLegislatureId d < decreeLegislatureId e \<or>
     decreeLegislatureId d = decreeLegislatureId e \<and> decreeNumber d \<le> decreeNumber e"

definition less_DecreeId :: "DecreeId \<Rightarrow> DecreeId \<Rightarrow> bool" where
  "less_DecreeId d e \<longleftrightarrow> decreeLegislatureId d < decreeLegislatureId e \<or>
     decreeLegislatureId d = decreeLegislatureId e \<and> decreeNumber d < decreeNumber e"

instance
  by standard (auto simp: less_eq_DecreeId_def less_DecreeId_def DecreeId.expand)

end

lemmas decree_order = less_eq_DecreeId_def less_DecreeId_def

fun succ_decree :: "DecreeId \<Rightarrow> DecreeId" where
  "succ_decree (DecreeId l n) = DecreeId l (n + 1)"

definition initialDecreeId :: DecreeId where
  "initialDecreeId = DecreeId 0 0"

section \<open>Ballots\<close>

datatype 'p BallotId = BallotId (ballotProposalId: int) (ballotProcessId: 'p)

instantiation BallotId :: (linorder) linorder
begin

definition less_eq_BallotId :: "'a BallotId \<Rightarrow> 'a BallotId \<Rightarrow> bool" where
  "less_eq_BallotId b c \<longleftrightarrow> ballotProposalId b < ballotProposalId c \<or>
     ballotProposalId b = ballotProposalId c \<and> ballotProcessId b \<le> ballotProcessId c"

definition less_BallotId :: "'a BallotId \<Rightarrow> 'a BallotId \<Rightarrow> bool" where
  "less_BallotId b c \<longleftrightarrow> ballotProposalId b < ballotProposalId c \<or>
     ballotProposalId b = ballotProposalId c \<and> ballotProcessId b < ballotProcessId c"

instance
  by standard (auto simp: less_eq_BallotId_def less_BallotId_def BallotId.expand)

end

lemmas ballot_order = less_eq_BallotId_def less_BallotId_def

fun nextBallotId :: "'p BallotId \<Rightarrow> 'p BallotId" where
  "nextBallotId (BallotId n p) = BallotId (n + 1) p"

text \<open>\<open>b{ballotProposalId}\<close> with the field of the ballot a \<open>Nack\<close> carries.\<close>

definition with_proposalId :: "'p BallotId \<Rightarrow> int \<Rightarrow> 'p BallotId" where
  "with_proposalId b n = BallotId n (ballotProcessId b)"

lemma nextBallotId_greater: "b < nextBallotId b"
  by (cases b) (simp add: ballot_order)

section \<open>The lifted order\<close>

datatype 'a Lifted = Bottom | Value 'a

text \<open>\<open>compare\<close> of Haskell, and the operators that \<open>Ord\<close> derives from it.\<close>

datatype Ordering = LT | EQ | GT

definition compare :: "'a :: linorder \<Rightarrow> 'a \<Rightarrow> Ordering" where
  "compare x y = (if x < y then LT else if x = y then EQ else GT)"

fun compare_Lifted :: "'a :: linorder Lifted \<Rightarrow> 'a Lifted \<Rightarrow> Ordering" where
  "compare_Lifted Bottom Bottom = EQ"
| "compare_Lifted Bottom (Value y) = LT"
| "compare_Lifted (Value x) Bottom = GT"
| "compare_Lifted (Value x) (Value y) = compare x y"

instantiation Lifted :: (linorder) linorder
begin

definition less_eq_Lifted :: "'a Lifted \<Rightarrow> 'a Lifted \<Rightarrow> bool" where
  "less_eq_Lifted x y \<longleftrightarrow> compare_Lifted x y \<noteq> GT"

definition less_Lifted :: "'a Lifted \<Rightarrow> 'a Lifted \<Rightarrow> bool" where
  "less_Lifted x y \<longleftrightarrow> compare_Lifted x y = LT"

instance
proof
  fix x y z :: "'a Lifted"
  note order = less_eq_Lifted_def less_Lifted_def compare_def
  show "x < y \<longleftrightarrow> x \<le> y \<and> \<not> y \<le> x" by (cases x; cases y) (auto simp: order)
  show "x \<le> x" by (cases x) (simp_all add: order)
  show "x \<le> y \<Longrightarrow> y \<le> z \<Longrightarrow> x \<le> z" by (cases x; cases y; cases z) (auto simp: order split: if_splits)
  show "x \<le> y \<Longrightarrow> y \<le> x \<Longrightarrow> x = y" by (cases x; cases y) (auto simp: order split: if_splits)
  show "x \<le> y \<or> y \<le> x" by (cases x; cases y) (auto simp: order)
qed

end

lemma Lifted_order [simp]:
  "Bottom \<le> y" "\<not> Value a \<le> Bottom" "(Value a \<le> Value b) = (a \<le> b)"
  "(Value a < Value b) = (a < b)" "Bottom < Value b" "\<not> x < Bottom" "(x \<le> Bottom) = (x = Bottom)"
  by (cases x; cases y; auto simp: less_eq_Lifted_def less_Lifted_def compare_def)+

section \<open>Votes\<close>

datatype ('p, 'v) Ack = Ack (decree: DecreeId) (ballot: "'p BallotId") (ack_value: 'v)

text \<open>\<open>maximumBy (compare `on` ballot)\<close>: of several greatest elements, the last one.\<close>

definition maximumBy_ballot :: "('p :: linorder, 'v) Ack \<Rightarrow> ('p, 'v) Ack list \<Rightarrow> ('p, 'v) Ack" where
  "maximumBy_ballot = foldl (\<lambda>x y. if ballot x > ballot y then x else y)"

definition chooseValue :: "DecreeId \<Rightarrow> ('p :: linorder, 'v) Ack list \<Rightarrow> 'v option" where
  "chooseValue d acks =
     (case filter (\<lambda>a. d = decree a) acks of
        [] \<Rightarrow> None
      | a # as \<Rightarrow> Some (ack_value (maximumBy_ballot a as)))"

lemma maximumBy_ballot_in: "maximumBy_ballot a as \<in> set (a # as)"
proof (induction as arbitrary: a)
  case (Cons c as)
  have "maximumBy_ballot a (c # as) = maximumBy_ballot (if ballot a > ballot c then a else c) as"
    by (simp add: maximumBy_ballot_def)
  then show ?case using Cons.IH [of "if ballot a > ballot c then a else c"] by (auto split: if_splits)
qed (simp add: maximumBy_ballot_def)

lemma maximumBy_ballot_ge: "b \<in> set (a # as) \<Longrightarrow> ballot b \<le> ballot (maximumBy_ballot a as)"
proof (induction as arbitrary: a b)
  case (Cons c as)
  let ?m = "if ballot a > ballot c then a else c"
  have "maximumBy_ballot a (c # as) = maximumBy_ballot ?m as"
    by (simp add: maximumBy_ballot_def)
  moreover have "ballot a \<le> ballot ?m" "ballot c \<le> ballot ?m" by auto
  moreover have "ballot ?m \<le> ballot (maximumBy_ballot ?m as)" by (rule Cons.IH) simp
  moreover have "b \<in> set as \<Longrightarrow> ballot b \<le> ballot (maximumBy_ballot ?m as)" by (rule Cons.IH) simp
  ultimately show ?case using Cons.prems by (metis order.trans set_ConsD)
qed (simp add: maximumBy_ballot_def)

lemma chooseValue_cases:
  obtains "chooseValue d acks = None" "\<And>a. a \<in> set acks \<Longrightarrow> decree a \<noteq> d"
  | a where "chooseValue d acks = Some (ack_value a)" "a \<in> set acks" "decree a = d"
      "\<And>c. c \<in> set acks \<Longrightarrow> decree c = d \<Longrightarrow> ballot c \<le> ballot a"
proof (cases "filter (\<lambda>a. d = decree a) acks")
  case Nil
  then show thesis using that(1) by (auto simp: chooseValue_def filter_empty_conv)
next
  case (Cons e es)
  have in_es: "c \<in> set (e # es) \<longleftrightarrow> c \<in> set acks \<and> decree c = d" for c
    unfolding Cons [symmetric] by auto
  show thesis
    using that(2) [of "maximumBy_ballot e es"] maximumBy_ballot_in [of e es]
      maximumBy_ballot_ge [of _ e es] in_es
    by (simp add: chooseValue_def Cons)
qed

section \<open>Intervals of decrees\<close>

fun intervals_go :: "DecreeId \<Rightarrow> DecreeId \<Rightarrow> DecreeId list \<Rightarrow> (DecreeId \<times> DecreeId) list" where
  "intervals_go x y (z # xs) =
     (if y = z then intervals_go x (succ_decree z) xs
      else (x, y) # intervals_go z (succ_decree z) xs)"
| "intervals_go x y [] = [(x, y)]"

fun intervals :: "DecreeId list \<Rightarrow> (DecreeId \<times> DecreeId) list" where
  "intervals (x # xs) = intervals_go x (succ_decree x) xs"
| "intervals [] = []"

function diffIntervals ::
  "(DecreeId \<times> DecreeId) list \<Rightarrow> (DecreeId \<times> DecreeId) list \<Rightarrow> (DecreeId \<times> DecreeId) list" where
  "diffIntervals xs [] = xs"
| "diffIntervals [] (y # ys) = []"
| "diffIntervals ((x, x') # xss) ((y, y') # yss) =
     (if x < y' \<and> y < x' then
        if x < y then (x, y) # diffIntervals xss ((y, y') # yss)
        else if x' \<le> y' then diffIntervals xss ((y, y') # yss)
        else diffIntervals ((y', x') # xss) yss
      else (x, x') # diffIntervals xss ((y, y') # yss))"
  by pat_completeness auto
termination
  by (relation "measure (\<lambda>(xs, ys). length xs + length ys)") auto

text \<open>The decrees of a list of intervals, \<open>concatMap (\(x, y) -> [x .. pred y])\<close>.\<close>

definition expand1 :: "DecreeId \<times> DecreeId \<Rightarrow> DecreeId list" where
  "expand1 i = map (DecreeId (decreeLegislatureId (fst i)))
     [decreeNumber (fst i)..decreeNumber (snd i) - 1]"

definition expand :: "(DecreeId \<times> DecreeId) list \<Rightarrow> DecreeId list" where
  "expand is = concat (map expand1 is)"

lemma expand_intervals_go:
  assumes "decreeLegislatureId y = decreeLegislatureId x" and "decreeNumber x < decreeNumber y"
  shows "expand (intervals_go x y zs) = expand1 (x, y) @ zs"
  using assms
proof (induction x y zs rule: intervals_go.induct)
  case (1 x y z xs)
  obtain l n where z: "z = DecreeId l n" by (cases z)
  have "[decreeNumber x..n] = [decreeNumber x..n - 1] @ [n]" if "decreeNumber x < n"
    using that by (simp add: upto_rec2)
  with 1 z show ?case by (auto simp: expand_def expand1_def upto_rec1)
qed (simp add: expand_def)

text \<open>
  The run-length encoding of decrees loses nothing: expanding the intervals of any list of decrees
  gives the list back.
\<close>

theorem expand_intervals: "expand (intervals ds) = ds"
proof (cases ds)
  case (Cons d ds')
  obtain l n where "d = DecreeId l n" by (cases d)
  then show ?thesis using Cons by (simp add: expand_intervals_go expand1_def)
qed (simp add: expand_def)

end
