(* ===== verification/Paxos_Acceptor.thy ===== *)
theory Paxos_Acceptor
  imports Paxos_Types
begin

text \<open>
  The acceptor (\<^verbatim>\<open>Paxos.hs\<close>): one step per message it receives, with what it sends in reply. Its store
  of decrees is the map that \<^verbatim>\<open>Persistence/Paxos.hs\<close> keeps, each operation taking effect before the
  next message is handled; an encoded vote is the vote itself.
\<close>

section \<open>The store\<close>

text \<open>\<open>Data.Map\<close> as the list of its associations in ascending order.\<close>

type_synonym 'a store = "(DecreeId \<times> 'a) list"

fun map_insert :: "DecreeId \<Rightarrow> 'a \<Rightarrow> 'a store \<Rightarrow> 'a store" where
  "map_insert d v [] = [(d, v)]"
| "map_insert d v ((e, u) # m) =
     (if d < e then (d, v) # (e, u) # m
      else if d = e then (d, v) # m
      else (e, u) # map_insert d v m)"

definition storeInsert :: "(DecreeId \<times> 'a) list \<Rightarrow> 'a store \<Rightarrow> 'a store" where
  "storeInsert dvs m = foldr (\<lambda>(d, v). map_insert d v) dvs m"

definition storeLookup :: "DecreeId \<Rightarrow> 'a store \<Rightarrow> 'a option" where
  "storeLookup d m = map_of m d"

definition map_above :: "DecreeId \<Rightarrow> 'a store \<Rightarrow> 'a store" where
  "map_above d m = filter (\<lambda>(e, v). d < e) m"

definition map_below :: "DecreeId \<Rightarrow> 'a store \<Rightarrow> 'a store" where
  "map_below d m = filter (\<lambda>(e, v). e < d) m"

definition storeTrim :: "DecreeId \<Rightarrow> 'a store \<Rightarrow> 'a store" where
  "storeTrim d m =
     (case storeLookup d m of Some v \<Rightarrow> map_insert d v (map_above d m) | None \<Rightarrow> map_above d m)"

section \<open>Messages\<close>

datatype ('n, 'p, 'v) msg =
    Prepare DecreeId "'p BallotId" nat
  | Promise "'p BallotId" 'n "('p, 'v) Ack list"
  | Nack "'p BallotId"
  | Syn DecreeId "'p BallotId" nat 'v
  | Acked "('p, 'v) Ack"
  | Trim DecreeId
  | SyncStart nat "'n list"
  | SyncAdvertise nat 'n "(DecreeId \<times> DecreeId) list"
  | SyncRequest nat 'n "(DecreeId \<times> DecreeId) list"
  | SyncResponse nat "(DecreeId \<times> 'p BallotId \<times> 'v) list"
  | SyncCompleted 'n
  | QueryDecrees nat DecreeId
  | Decrees "('p, 'v) Ack list"

datatype ('n, 'p, 'v) out = To_acceptor 'n "('n, 'p, 'v) msg" | To_process nat "('n, 'p, 'v) msg"

section \<open>The acceptor\<close>

text \<open>\<open>acc_saved\<close> is what \<open>storePut\<close> wrote last; the ballot of the loop itself is not stored.\<close>

record ('p, 'v) acceptor_state =
  acc_sd :: DecreeId
  acc_b :: "'p BallotId Lifted"
  acc_decrees :: "('p BallotId \<times> 'v) store"
  acc_saved :: "'p BallotId option"

definition lift_option :: "'a option \<Rightarrow> 'a Lifted" where
  "lift_option x = (case x of None \<Rightarrow> Bottom | Some a \<Rightarrow> Value a)"

text \<open>A process that starts on a store: the ballot is the one saved.\<close>

definition acceptor_start ::
  "DecreeId \<Rightarrow> ('p BallotId \<times> 'v) store \<Rightarrow> 'p BallotId option \<Rightarrow> ('p, 'v) acceptor_state" where
  "acceptor_start startDecree decrees saved =
     \<lparr>acc_sd = startDecree, acc_b = lift_option saved, acc_decrees = decrees, acc_saved = saved\<rparr>"

definition acks_of :: "DecreeId \<Rightarrow> ('p BallotId \<times> 'v) option \<Rightarrow> ('p, 'v) Ack list" where
  "acks_of d v = (case v of None \<Rightarrow> [] | Some (b, x) \<Rightarrow> [Ack d b x])"

text \<open>
  The reply of an acceptor that has promised a greater ballot. \<open>fromValue b\<close> is defined where it is
  used: \<open>Bottom\<close> is below every ballot.
\<close>

definition nack :: "nat \<Rightarrow> 'p BallotId Lifted \<Rightarrow> ('n, 'p, 'v) out list" where
  "nack k b = (case b of Value c \<Rightarrow> [To_process k (Nack c)] | Bottom \<Rightarrow> [])"

definition handle_Prepare ::
  "'n \<Rightarrow> DecreeId \<Rightarrow> 'p BallotId \<Rightarrow> nat \<Rightarrow> ('p :: linorder, 'v) acceptor_state \<Rightarrow>
   ('p, 'v) acceptor_state \<times> ('n, 'p, 'v) out list" where
  "handle_Prepare name d b' k st =
     (if d < acc_sd st then (st, [])
      else if acc_b st \<le> Value b' then
        (st\<lparr>acc_b := Value b'\<rparr>,
         [To_process k (Promise b' name (acks_of d (storeLookup d (acc_decrees st))))])
      else (st, nack k (acc_b st)))"

definition handle_Syn ::
  "DecreeId \<Rightarrow> 'p BallotId \<Rightarrow> nat \<Rightarrow> 'v \<Rightarrow> ('p :: linorder, 'v) acceptor_state \<Rightarrow>
   ('p, 'v) acceptor_state \<times> ('n, 'p, 'v) out list" where
  "handle_Syn d b' k x st =
     (if d < acc_sd st then (st, [])
      else if acc_b st \<le> Value b' then
        (st\<lparr>acc_b := Value b',
            acc_saved := (if acc_b st < Value b' then Some b' else acc_saved st),
            acc_decrees := storeInsert [(d, b', x)] (acc_decrees st)\<rparr>,
         [To_process k (Acked (Ack d b' x))])
      else (st, nack k (acc_b st)))"

definition handle_Trim :: "DecreeId \<Rightarrow> ('p, 'v) acceptor_state \<Rightarrow> ('p, 'v) acceptor_state" where
  "handle_Trim d st = st\<lparr>acc_decrees := storeTrim d (acc_decrees st), acc_sd := max d (acc_sd st)\<rparr>"

definition handle_SyncStart ::
  "'n \<Rightarrow> nat \<Rightarrow> 'n list \<Rightarrow> ('p, 'v) acceptor_state \<Rightarrow> ('n, 'p, 'v) out list" where
  "handle_SyncStart name k as st =
     map (\<lambda>a. To_acceptor a (SyncAdvertise k name (intervals (map fst (acc_decrees st))))) as"

text \<open>The intervals an acceptor does not ask for: those it has, and all below its start.\<close>

definition known_intervals :: "('p, 'v) acceptor_state \<Rightarrow> (DecreeId \<times> DecreeId) list" where
  "known_intervals st =
     (if initialDecreeId < acc_sd st
      then (initialDecreeId, acc_sd st) #
        intervals (dropWhile (\<lambda>d. d < acc_sd st) (map fst (acc_decrees st)))
      else intervals (map fst (acc_decrees st)))"

definition handle_SyncAdvertise ::
  "'n \<Rightarrow> nat \<Rightarrow> 'n \<Rightarrow> (DecreeId \<times> DecreeId) list \<Rightarrow> ('p, 'v) acceptor_state \<Rightarrow> ('n, 'p, 'v) out list" where
  "handle_SyncAdvertise name k a ds st =
     (let rqs = diffIntervals ds (known_intervals st) in
      if rqs = [] then [To_process k (SyncCompleted name)]
      else [To_acceptor a (SyncRequest k name rqs)])"

fun lookupRanges :: "'a store \<Rightarrow> (DecreeId \<times> DecreeId) list \<Rightarrow> (DecreeId \<times> 'a) list" where
  "lookupRanges m [] = []"
| "lookupRanges m ((d0, d1) # dps) =
     (let m' = map_above d0 m; rest = map_below d1 m' @ lookupRanges (map_above d1 m') dps in
      case storeLookup d0 m of Some v0 \<Rightarrow> (d0, v0) # rest | None \<Rightarrow> rest)"

definition handle_SyncRequest ::
  "nat \<Rightarrow> 'n \<Rightarrow> (DecreeId \<times> DecreeId) list \<Rightarrow> ('p, 'v) acceptor_state \<Rightarrow> ('n, 'p, 'v) out list" where
  "handle_SyncRequest k a ds st = [To_acceptor a (SyncResponse k (lookupRanges (acc_decrees st) ds))]"

definition handle_QueryDecrees ::
  "nat \<Rightarrow> DecreeId \<Rightarrow> ('p, 'v) acceptor_state \<Rightarrow> ('n, 'p, 'v) out list" where
  "handle_QueryDecrees k d st =
     (let m = acc_decrees st; m' = map_above d m;
          found = (case storeLookup d m of Some v \<Rightarrow> (d, v) # m' | None \<Rightarrow> m') in
      [To_process k (Decrees (map (\<lambda>(e, b, v). Ack e b v) found))])"

text \<open>One turn of the loop. A message none of the clauses matches stays in the mailbox.\<close>

fun acceptor ::
  "'n \<Rightarrow> ('n, 'p :: linorder, 'v) msg \<Rightarrow> ('p, 'v) acceptor_state \<Rightarrow>
   (('p, 'v) acceptor_state \<times> ('n, 'p, 'v) out list) option" where
  "acceptor name (Prepare d b k) st = Some (handle_Prepare name d b k st)"
| "acceptor name (Syn d b k x) st = Some (handle_Syn d b k x st)"
| "acceptor name (Trim d) st = Some (handle_Trim d st, [])"
| "acceptor name (SyncStart k as) st = Some (st, handle_SyncStart name k as st)"
| "acceptor name (SyncAdvertise k a ds) st = Some (st, handle_SyncAdvertise name k a ds st)"
| "acceptor name (SyncRequest k a ds) st = Some (st, handle_SyncRequest k a ds st)"
| "acceptor name (SyncResponse k dvs) st =
     Some (st\<lparr>acc_decrees := storeInsert dvs (acc_decrees st)\<rparr>, [To_process k (SyncCompleted name)])"
| "acceptor name (QueryDecrees k d) st = Some (st, handle_QueryDecrees k d st)"
| "acceptor name _ st = None"

section \<open>The store as a map\<close>

definition wf_store :: "'a store \<Rightarrow> bool" where
  "wf_store m \<longleftrightarrow> sorted_wrt (<) (map fst m)"

lemma lookup_map_insert: "wf_store m \<Longrightarrow> map_of (map_insert d v m) = (map_of m)(d \<mapsto> v)"
proof (induction d v m rule: map_insert.induct)
  case (2 d v e u m)
  have "map_of m d = None" if "d < e"
    using 2(2) that by (auto simp: wf_store_def map_of_eq_None_iff)
  with 2 show ?case by (auto simp: wf_store_def fun_eq_iff)
qed simp

lemma keys_map_insert: "fst ` set (map_insert d v m) = insert d (fst ` set m)"
  by (induction d v m rule: map_insert.induct) (auto simp: image_iff)

lemma wf_map_insert [simp]: "wf_store m \<Longrightarrow> wf_store (map_insert d v m)"
proof (induction d v m rule: map_insert.induct)
  case (2 d v e u m)
  have "\<forall>k \<in> fst ` set (map_insert d v m). e < k" if "e < d"
    using 2(2) that unfolding keys_map_insert by (auto simp: wf_store_def)
  with 2 show ?case by (auto simp: wf_store_def)
qed (simp add: wf_store_def)

lemma wf_filter: "wf_store m \<Longrightarrow> wf_store (filter P m)"
  by (simp add: wf_store_def sorted_wrt_map sorted_wrt_filter)

lemma wf_map_above [simp]:
  "wf_store m \<Longrightarrow> wf_store (map_above d m)" "wf_store m \<Longrightarrow> wf_store (map_below d m)"
  by (simp_all add: map_above_def map_below_def wf_filter)

lemma wf_storeInsert [simp]: "wf_store m \<Longrightarrow> wf_store (storeInsert dvs m)"
  by (induction dvs) (auto simp: storeInsert_def)

lemma wf_storeTrim [simp]: "wf_store m \<Longrightarrow> wf_store (storeTrim d m)"
  by (simp add: storeTrim_def split: option.split)

lemma lookup_insert:
  "wf_store m \<Longrightarrow> storeLookup e (storeInsert [(d, v)] m) = (if e = d then Some v else storeLookup e m)"
  by (simp add: storeInsert_def storeLookup_def lookup_map_insert)

lemma map_of_filter_key: "map_of (filter (\<lambda>(e, v). P e) m) e = (if P e then map_of m e else None)"
  by (induction m) auto

lemma lookup_trim:
  assumes "wf_store m"
  shows "storeLookup e (storeTrim d m) = (if e < d then None else storeLookup e m)"
  using lookup_map_insert [OF wf_map_above(1) [OF assms]]
  by (auto simp: storeTrim_def storeLookup_def map_above_def map_of_filter_key split: option.split)

section \<open>The acceptor keeps its promises\<close>

text \<open>The messages an acceptor handles, one after the other, and all it sends.\<close>

fun acceptor_run ::
  "'n \<Rightarrow> ('n, 'p :: linorder, 'v) msg list \<Rightarrow> ('p, 'v) acceptor_state \<Rightarrow>
   ('p, 'v) acceptor_state \<times> ('n, 'p, 'v) out list" where
  "acceptor_run name [] st = (st, [])"
| "acceptor_run name (m # ms) st =
     (case acceptor name m st of
        None \<Rightarrow> acceptor_run name ms st
      | Some (st1, os) \<Rightarrow> let (st2, os') = acceptor_run name ms st1 in (st2, os @ os'))"

text \<open>The ballots it has responded to positively.\<close>

fun answered_ballot :: "('n, 'p, 'v) out \<Rightarrow> 'p BallotId option" where
  "answered_ballot (To_process k (Promise b n acks)) = Some b"
| "answered_ballot (To_process k (Acked a)) = Some (ballot a)"
| "answered_ballot _ = None"

definition answered :: "('n, 'p, 'v) out list \<Rightarrow> 'p BallotId set" where
  "answered os = {b. \<exists>oo \<in> set os. answered_ballot oo = Some b}"

lemma answered_simps [simp]:
  "answered [] = {}" "answered (os @ os') = answered os \<union> answered os'"
  "answered (oo # os) = set_option (answered_ballot oo) \<union> answered os"
  by (auto simp: answered_def)

lemma answered_none:
  "answered (nack k b) = {}" "answered (handle_SyncStart name k as st) = {}"
  "answered (handle_SyncAdvertise name k a ds st) = {}" "answered (handle_SyncRequest k a ds st) = {}"
  "answered (handle_QueryDecrees k d st) = {}"
  by (auto simp: answered_def nack_def handle_SyncStart_def handle_SyncAdvertise_def
      handle_SyncRequest_def handle_QueryDecrees_def Let_def split: Lifted.splits if_splits)

text \<open>One step: the ballot of the loop rises to the ballot answered, if any.\<close>

lemma acceptor_ballot:
  assumes "acceptor name m st = Some (st', os)"
  shows "answered os = {} \<and> acc_b st' = acc_b st \<or>
    (\<exists>b. answered os = {b} \<and> acc_b st' = Value b \<and> acc_b st \<le> Value b)"
  using assms
  by (cases m) (auto simp: handle_Prepare_def handle_Syn_def handle_Trim_def answered_none split: if_splits)

lemma acceptor_run_ballot:
  assumes "acceptor_run name ms st = (st', os)"
  shows "acc_b st \<le> acc_b st' \<and> (\<forall>b \<in> answered os. Value b \<le> acc_b st') \<and>
    (acc_b st' = acc_b st \<or> (\<exists>b \<in> answered os. acc_b st' = Value b))"
  using assms
proof (induction ms arbitrary: st os)
  case (Cons m ms)
  show ?case
  proof (cases "acceptor name m st")
    case None
    then show ?thesis using Cons by simp
  next
    case (Some r)
    obtain st1 os1 where r: "r = (st1, os1)" by (cases r)
    obtain st2 os2 where r2: "acceptor_run name ms st1 = (st2, os2)" by (cases "acceptor_run name ms st1")
    have eq: "st' = st2" "os = os1 @ os2" using Cons.prems Some r r2 by simp_all
    note IH = Cons.IH [OF r2 [folded eq(1)]]
    from acceptor_ballot [OF Some [unfolded r]] show ?thesis
    proof (elim disjE exE conjE)
      fix b
      assume b: "answered os1 = {b}" "acc_b st1 = Value b" "acc_b st \<le> Value b"
      then have "acc_b st \<le> acc_b st'" "Value b \<le> acc_b st'" using IH by (auto intro: order.trans)
      then show ?thesis using IH eq b(1,2) by auto
    qed (use IH eq in simp)
  qed
qed simp



text \<open>
  C39. A restart forgets the promise. An acceptor that took part in a ballot in the usual way (promise,
  then vote) has stored the vote but not the ballot, so after a restart on its own store it accepts a
  proposal in any smaller ballot, and the vote it had stored is replaced.
\<close>

theorem restart_forgets_promise:
  fixes b c :: "'p :: linorder BallotId" and x y :: 'v
  assumes "acceptor_run name [Prepare d b k, Syn d b k' x] (acceptor_start sd [] None) = (st, os)"
    and "sd \<le> d" and "c < b"
  shows "\<exists>st'. b \<in> answered os \<and> storeLookup d (acc_decrees st) = Some (b, x) \<and> acc_saved st = None \<and>
    acceptor name (Syn d c k'' y) (acceptor_start sd (acc_decrees st) (acc_saved st)) =
      Some (st', [To_process k'' (Acked (Ack d c y))]) \<and>
    storeLookup d (acc_decrees st') = Some (c, y)"
proof -
  have "\<not> d < sd" using assms(2) by simp
  then have "acc_decrees st = [(d, b, x)] \<and> acc_saved st = None \<and> b \<in> answered os"
    using assms(1) by (auto simp: acceptor_start_def handle_Prepare_def handle_Syn_def lift_option_def
        storeInsert_def)
  then show ?thesis
    using assms(2)
    by (simp add: acceptor_start_def handle_Syn_def lift_option_def storeInsert_def storeLookup_def)
qed

theorem restart_forgets_promise_witness:
  "\<exists>st os st'. acceptor_run (1 :: nat)
      [Prepare (DecreeId 0 0) (BallotId 4 (7 :: nat)) 3, Syn (DecreeId 0 0) (BallotId 4 7) 4 ''x'']
      (acceptor_start initialDecreeId [] None) = (st, os) \<and>
    acceptor (1 :: nat) (Syn (DecreeId 0 0) (BallotId 0 5) 6 ''y'')
      (acceptor_start initialDecreeId (acc_decrees st) (acc_saved st)) =
        Some (st', [To_process 6 (Acked (Ack (DecreeId 0 0) (BallotId 0 5) ''y''))])"
proof -
  obtain st os where run: "acceptor_run (1 :: nat)
      [Prepare (DecreeId 0 0) (BallotId 4 (7 :: nat)) 3, Syn (DecreeId 0 0) (BallotId 4 7) 4 ''x'']
      (acceptor_start initialDecreeId [] None) = (st, os)"
    by (cases "acceptor_run (1 :: nat)
      [Prepare (DecreeId 0 0) (BallotId 4 (7 :: nat)) 3, Syn (DecreeId 0 0) (BallotId 4 7) 4 ''x'']
      (acceptor_start initialDecreeId [] None)")
  from restart_forgets_promise [OF run, of "BallotId 0 5" 6 "''y''"] run show ?thesis
    by (auto simp: initialDecreeId_def decree_order ballot_order)
qed

section \<open>Well-formed states\<close>

text \<open>
  C40. Whatever message an acceptor handles, its store stays a map in ascending order of decrees, its
  start never goes back, and with the stored ballot at most the promised one it stays so.
\<close>

theorem acceptor_wf:
  assumes "acceptor name m st = Some (st', os)"
    and "wf_store (acc_decrees st)" and "lift_option (acc_saved st) \<le> acc_b st"
  shows "wf_store (acc_decrees st') \<and> acc_sd st \<le> acc_sd st' \<and> lift_option (acc_saved st') \<le> acc_b st'"
  using assms
  by (cases m) (auto simp: handle_Prepare_def handle_Syn_def handle_Trim_def lift_option_def
      split: if_splits option.splits intro: order.trans)

theorem acceptor_wf_witness:
  "\<exists>st'. acceptor (1 :: nat) (Syn (DecreeId 0 2) (BallotId 0 (5 :: nat)) 4 ''x'')
      (acceptor_start initialDecreeId [(DecreeId 0 3, BallotId 0 2, ''y'')] None) =
      Some (st', [To_process 4 (Acked (Ack (DecreeId 0 2) (BallotId 0 5) ''x''))]) \<and>
    wf_store (acc_decrees st') \<and> lift_option (acc_saved st') \<le> acc_b st'"
proof -
  let ?st = "acceptor_start initialDecreeId [(DecreeId 0 3, BallotId 0 2, ''y'')] None ::
    (nat, string) acceptor_state"
  let ?m = "Syn (DecreeId 0 2) (BallotId 0 5) 4 ''x'' :: (nat, nat, string) msg"
  obtain st' where st': "acceptor 1 ?m ?st =
      Some (st', [To_process 4 (Acked (Ack (DecreeId 0 2) (BallotId 0 5) ''x''))])"
    by (simp add: acceptor_start_def handle_Syn_def initialDecreeId_def decree_order lift_option_def)
  moreover have "wf_store (acc_decrees ?st)" "lift_option (acc_saved ?st) \<le> acc_b ?st"
    by (simp_all add: acceptor_start_def wf_store_def)
  ultimately show ?thesis using acceptor_wf [OF st'] by blast
qed

section \<open>Synchronisation of acceptors\<close>

lemma intervals_single: "intervals [d] = [(d, succ_decree d)]"
  by simp

lemma decree_less_succ: "d < succ_decree d"
  by (cases d) (simp add: decree_order)

lemma storeInsert_other:
  "wf_store m \<Longrightarrow> e \<notin> fst ` set dvs \<Longrightarrow> storeLookup e (storeInsert dvs m) = storeLookup e m"
proof (induction dvs)
  case (Cons p dvs)
  then show ?case
    using lookup_map_insert [OF wf_storeInsert, of m "fst p" "snd p" dvs]
    by (cases p) (auto simp: storeInsert_def storeLookup_def)
qed (simp add: storeInsert_def)

text \<open>
  The exchange between an acceptor \<open>a\<close> and one whose decrees it is offered, message by message:
  start, advertisement, request and response.
\<close>

definition synchronises ::
  "nat \<Rightarrow> 'n \<Rightarrow> ('p :: linorder, 'v) acceptor_state \<Rightarrow> 'n \<Rightarrow> ('p, 'v) acceptor_state \<Rightarrow>
   (DecreeId \<times> DecreeId) list \<Rightarrow> ('p, 'v) acceptor_state \<Rightarrow> bool" where
  "synchronises k a st other so rqs st' \<longleftrightarrow>
     (\<exists>adv resp.
       acceptor other (SyncStart k [a]) so = Some (so, [To_acceptor a adv]) \<and>
       acceptor a adv st = Some (st, [To_acceptor other (SyncRequest k a rqs)]) \<and>
       acceptor other (SyncRequest k a rqs) so = Some (so, [To_acceptor a resp]) \<and>
       acceptor a resp st = Some (st', [To_process k (SyncCompleted a)]))"

lemma synchronises_run:
  assumes "rqs = diffIntervals (intervals (map fst (acc_decrees so))) (known_intervals st)"
    and "rqs \<noteq> []"
  shows "synchronises k a st other so rqs
    (st\<lparr>acc_decrees := storeInsert (lookupRanges (acc_decrees so) rqs) (acc_decrees st)\<rparr>)"
  using assms
  by (simp add: synchronises_def handle_SyncStart_def handle_SyncAdvertise_def handle_SyncRequest_def
      Let_def)

text \<open>
  Synchronising replaces votes. Once an acceptor has trimmed anything, it requests every decree
  another acceptor advertises above its start, whether it has it or not, and takes the other's vote
  for it: a vote in a greater ballot is replaced by one in a smaller ballot.
\<close>

theorem sync_replaces_newer_vote:
  assumes "initialDecreeId < acc_sd st" and "acc_sd st \<le> d" and "wf_store (acc_decrees st)"
    and "storeLookup d (acc_decrees st) = Some (b, x)" and "acc_decrees so = [(d, c, y)]" and "c < b"
  shows "\<exists>st'. synchronises k a st other so [(d, succ_decree d)] st' \<and>
    storeLookup d (acc_decrees st') = Some (c, y)"
proof -
  have "\<not> d < acc_sd st" using assms(2) by simp
  then have rqs: "diffIntervals (intervals (map fst (acc_decrees so))) (known_intervals st) =
      [(d, succ_decree d)]"
    using assms(1,5) by (simp add: known_intervals_def)
  have "lookupRanges (acc_decrees so) [(d, succ_decree d)] = [(d, c, y)]"
    using assms(5) by (simp add: map_above_def map_below_def storeLookup_def)
  then show ?thesis
    using synchronises_run [OF rqs [symmetric], of k a other] lookup_insert [OF assms(3)] by fastforce
qed

lemma keys_lookupRanges_single:
  "f \<in> fst ` set (lookupRanges m [(x, e)]) \<Longrightarrow> x = f \<or> f < e"
  by (auto simp: map_above_def map_below_def Let_def split: option.splits)

text \<open>
  Synchronising misses decrees. An acceptor that holds a single decree inside the interval another
  one advertises requests only the part below it. It reports that it has completed, and yet has none
  of the decrees above.
\<close>

theorem sync_misses_decrees:
  assumes "acc_sd st = initialDecreeId" and "acc_decrees st = [(e, v)]"
    and "intervals (map fst (acc_decrees so)) = [(x, x')]" and "x < e" and "e < f" and "f < x'"
  shows "\<exists>st'. synchronises k a st other so [(x, e)] st' \<and> storeLookup f (acc_decrees st') = None"
proof -
  have "x < succ_decree e" "e < x'"
    using assms(4-6) decree_less_succ [of e] by (auto intro: less_trans)
  then have rqs: "diffIntervals (intervals (map fst (acc_decrees so))) (known_intervals st) = [(x, e)]"
    using assms(1-4) by (simp add: known_intervals_def)
  have "\<not> (x = f \<or> f < e)" using assms(4,5) by auto
  then have "f \<notin> fst ` set (lookupRanges (acc_decrees so) [(x, e)])"
    using keys_lookupRanges_single by blast
  then have "storeLookup f (storeInsert (lookupRanges (acc_decrees so) [(x, e)]) (acc_decrees st)) = None"
    using assms(2,5) by (subst storeInsert_other) (auto simp: wf_store_def storeLookup_def)
  then show ?thesis using synchronises_run [OF rqs [symmetric], of k a other] by fastforce
qed

end
