(* ===== verification/Paxos_System.thy ===== *)
theory Paxos_System
  imports Paxos_Acceptor
begin

text \<open>
  Proposers (\<^verbatim>\<open>BasicPaxos.hs\<close>, \<^verbatim>\<open>Quorum.hs\<close>) and the system of proposers, acceptors and messages under
  way. A call of \<open>propose\<close> is a state machine: it scouts, it commands, or it has returned. The processes
  that \<open>callLocal\<close> creates to wait for replies have fresh numbers. The network may lose and delay
  messages and deliver them in any order, but does not duplicate them.
\<close>

section \<open>The proposer\<close>

text \<open>
  \<open>Scouting d x b k rs\<close>: proposing \<open>x\<close> for \<open>d\<close>, the process \<open>k\<close> has the responses \<open>rs\<close> to the
  \<open>Prepare\<close> of ballot \<open>b\<close>, the latest first, each with the acceptor it came from.
  \<open>Commanding d x b k x' rs\<close>: the same for the \<open>Syn\<close> of the value \<open>x'\<close>.
\<close>

datatype ('n, 'p, 'v) proposer =
    Idle
  | Scouting DecreeId 'v "'p BallotId" nat "('n \<times> ('p, 'v) Ack list) list"
  | Commanding DecreeId 'v "'p BallotId" nat 'v "'n list"
  | Returned DecreeId 'v

definition quorum :: "nat \<Rightarrow> nat" where
  "quorum nProc = nProc div 2 + 1"

definition scout ::
  "'n list \<Rightarrow> DecreeId \<Rightarrow> 'v \<Rightarrow> 'p BallotId \<Rightarrow> nat \<Rightarrow> ('n, 'p, 'v) proposer \<times> ('n, 'p, 'v) out list" where
  "scout acceptors d x b k = (Scouting d x b k [], map (\<lambda>a. To_acceptor a (Prepare d b k)) acceptors)"

definition command ::
  "'n list \<Rightarrow> DecreeId \<Rightarrow> 'v \<Rightarrow> 'p BallotId \<Rightarrow> nat \<Rightarrow> 'v \<Rightarrow>
   ('n, 'p, 'v) proposer \<times> ('n, 'p, 'v) out list" where
  "command acceptors d x b k x' =
     (Commanding d x b k x' [], map (\<lambda>a. To_acceptor a (Syn d b k x')) acceptors)"

text \<open>\<open>propose\<close>, called by the process \<open>self\<close>; \<open>k\<close> is the number of the next process.\<close>

definition propose ::
  "'n list \<Rightarrow> 'p \<Rightarrow> DecreeId \<Rightarrow> 'v \<Rightarrow> nat \<Rightarrow> ('n, 'p, 'v) proposer \<times> ('n, 'p, 'v) out list" where
  "propose acceptors self d x k = scout acceptors d x (BallotId 0 self) k"

text \<open>The ballot after a \<open>Nack b'\<close> to a scout, and to a command.\<close>

definition after_scout_nack :: "'p :: linorder BallotId \<Rightarrow> 'p BallotId \<Rightarrow> 'p BallotId" where
  "after_scout_nack b b' =
     (if b < b' then nextBallotId (with_proposalId b (ballotProposalId b')) else b)"

definition after_command_nack :: "'p BallotId \<Rightarrow> 'p BallotId \<Rightarrow> 'p BallotId" where
  "after_command_nack b b' = with_proposalId b (ballotProposalId b')"

definition scouted_value :: "DecreeId \<Rightarrow> 'v \<Rightarrow> ('n \<times> ('p :: linorder, 'v) Ack list) list \<Rightarrow> 'v" where
  "scouted_value d x rs = (case chooseValue d (concat (map snd rs)) of Some y \<Rightarrow> y | None \<Rightarrow> x)"

text \<open>
  A message from the acceptor \<open>a\<close> in the mailbox of the waiting process. \<open>None\<close>: no clause matches.
\<close>

definition propose_receive ::
  "'n list \<Rightarrow> nat \<Rightarrow> 'n \<Rightarrow> ('n, 'p :: linorder, 'v) msg \<Rightarrow> ('n, 'p, 'v) proposer \<Rightarrow>
   (('n, 'p, 'v) proposer \<times> ('n, 'p, 'v) out list) option" where
  "propose_receive acceptors k' a m st =
     (case st of
        Scouting d x b k rs \<Rightarrow>
          (case m of
             Promise _ _ acks \<Rightarrow>
               let rs' = (a, acks) # rs in
               if length rs' = quorum (length acceptors)
               then Some (command acceptors d x b k' (scouted_value d x rs'))
               else Some (Scouting d x b k rs', [])
           | Nack b' \<Rightarrow> Some (scout acceptors d x (after_scout_nack b b') k')
           | _ \<Rightarrow> None)
      | Commanding d x b k x' rs \<Rightarrow>
          (case m of
             Acked _ \<Rightarrow>
               let rs' = a # rs in
               if length rs' = quorum (length acceptors) then Some (Returned d x', [])
               else Some (Commanding d x b k x' rs', [])
           | Nack b' \<Rightarrow> Some (scout acceptors d x (after_command_nack b b') k')
           | _ \<Rightarrow> None)
      | _ \<Rightarrow> None)"

text \<open>\<open>retry\<close>: the attempt took too long and is made again by a new process.\<close>

fun propose_retry ::
  "'n list \<Rightarrow> nat \<Rightarrow> ('n, 'p, 'v) proposer \<Rightarrow> (('n, 'p, 'v) proposer \<times> ('n, 'p, 'v) out list) option" where
  "propose_retry acceptors k' (Scouting d x b k rs) = Some (scout acceptors d x b k')"
| "propose_retry acceptors k' (Commanding d x b k x' rs) = Some (command acceptors d x b k' x')"
| "propose_retry acceptors k' _ = None"

fun waiting :: "('n, 'p, 'v) proposer \<Rightarrow> nat option" where
  "waiting (Scouting d x b k rs) = Some k"
| "waiting (Commanding d x b k x' rs) = Some k"
| "waiting _ = None"

fun result :: "('n, 'p, 'v) proposer \<Rightarrow> (DecreeId \<times> 'v) list" where
  "result (Returned d x) = [(d, x)]"
| "result _ = []"

section \<open>The system\<close>

datatype ('n, 'p, 'v) envelope = Request 'n "('n, 'p, 'v) msg" | Answer 'n nat "('n, 'p, 'v) msg"

text \<open>What \<open>a\<close> (an acceptor) and what a proposer sends.\<close>

fun from_acceptor :: "'n \<Rightarrow> ('n, 'p, 'v) out \<Rightarrow> ('n, 'p, 'v) envelope" where
  "from_acceptor a (To_acceptor c m) = Request c m"
| "from_acceptor a (To_process k m) = Answer a k m"

fun requests :: "('n, 'p, 'v) out list \<Rightarrow> ('n, 'p, 'v) envelope list" where
  "requests [] = []"
| "requests (To_acceptor a m # os) = Request a m # requests os"
| "requests (To_process k m # os) = requests os"

text \<open>
  \<open>s_decided\<close> lists the results of the calls that have returned. \<open>s_sent\<close> lists every message ever
  sent; no step reads it.
\<close>

record ('n, 'p, 'v) system =
  s_acc :: "'n \<Rightarrow> ('p, 'v) acceptor_state"
  s_prop :: "'p \<Rightarrow> ('n, 'p, 'v) proposer"
  s_net :: "('n, 'p, 'v) envelope list"
  s_next :: nat
  s_decided :: "('p \<times> DecreeId \<times> 'v) list"
  s_sent :: "('n, 'p, 'v) envelope list"

datatype ('n, 'p, 'v) event =
    Propose 'p DecreeId 'v
  | Release 'n DecreeId
  | Deliver 'n "('n, 'p, 'v) msg"
  | Receive 'p 'n nat "('n, 'p, 'v) msg"
  | Retry 'p
  | Abort 'p
  | Lose "('n, 'p, 'v) envelope"

definition proposer_move ::
  "'p \<Rightarrow> ('n, 'p, 'v) proposer \<times> ('n, 'p, 'v) out list \<Rightarrow> ('n, 'p, 'v) system \<Rightarrow> ('n, 'p, 'v) system" where
  "proposer_move p r s =
     s\<lparr>s_prop := (s_prop s)(p := fst r), s_net := s_net s @ requests (snd r), s_next := Suc (s_next s),
       s_decided := s_decided s @ map (Pair p) (result (fst r)), s_sent := s_sent s @ requests (snd r)\<rparr>"

definition remove_message :: "('n, 'p, 'v) envelope \<Rightarrow> ('n, 'p, 'v) system \<Rightarrow> ('n, 'p, 'v) system" where
  "remove_message e s = s\<lparr>s_net := remove1 e (s_net s)\<rparr>"

definition acceptor_move ::
  "'n \<Rightarrow> ('p, 'v) acceptor_state \<times> ('n, 'p, 'v) out list \<Rightarrow> ('n, 'p, 'v) system \<Rightarrow> ('n, 'p, 'v) system" where
  "acceptor_move a r s =
     s\<lparr>s_acc := (s_acc s)(a := fst r), s_net := s_net s @ map (from_acceptor a) (snd r),
       s_sent := s_sent s @ map (from_acceptor a) (snd r)\<rparr>"

fun system_event ::
  "'n list \<Rightarrow> ('n, 'p :: linorder, 'v) event \<Rightarrow> ('n, 'p, 'v) system \<Rightarrow> ('n, 'p, 'v) system option" where
  "system_event acceptors (Propose p d x) s =
     (if waiting (s_prop s p) = None
      then Some (proposer_move p (propose acceptors p d x (s_next s)) s) else None)"
| "system_event acceptors (Release a d) s =
     Some (s\<lparr>s_net := s_net s @ [Request a (Trim d)], s_sent := s_sent s @ [Request a (Trim d)]\<rparr>)"
| "system_event acceptors (Deliver a m) s =
     (if Request a m \<in> set (s_net s)
      then map_option (\<lambda>r. acceptor_move a r (remove_message (Request a m) s)) (acceptor a m (s_acc s a))
      else None)"
| "system_event acceptors (Receive p a k m) s =
     (if Answer a k m \<in> set (s_net s) \<and> waiting (s_prop s p) = Some k
      then map_option (\<lambda>r. proposer_move p r (remove_message (Answer a k m) s))
             (propose_receive acceptors (s_next s) a m (s_prop s p))
      else None)"
| "system_event acceptors (Retry p) s =
     map_option (\<lambda>r. proposer_move p r s) (propose_retry acceptors (s_next s) (s_prop s p))"
| "system_event acceptors (Abort p) s = Some (s\<lparr>s_prop := (s_prop s)(p := Idle)\<rparr>)"
| "system_event acceptors (Lose e) s = Some (remove_message e s)"

fun system_run ::
  "'n list \<Rightarrow> ('n, 'p :: linorder, 'v) event list \<Rightarrow> ('n, 'p, 'v) system \<Rightarrow> ('n, 'p, 'v) system option" where
  "system_run acceptors [] s = Some s"
| "system_run acceptors (e # es) s =
     (case system_event acceptors e s of None \<Rightarrow> None | Some t \<Rightarrow> system_run acceptors es t)"

definition system_start :: "('n, 'p, 'v) system" where
  "system_start = \<lparr>s_acc = (\<lambda>_. acceptor_start initialDecreeId [] None), s_prop = (\<lambda>_. Idle), s_net = [],
     s_next = 0, s_decided = [], s_sent = []\<rparr>"

end
