(* ===== verification/Paxos_Invariants.thy ===== *)
theory Paxos_Invariants
  imports Paxos_System
begin

text \<open>
  Invariants of the messages under way, of the acceptors and of the proposals made, each kept by every
  step that can touch it. They relate the states to the list of all messages sent.
\<close>

section \<open>Votes and proposals\<close>

definition vote :: "('n, 'p, 'v) envelope list \<Rightarrow> 'n \<Rightarrow> DecreeId \<Rightarrow> 'p BallotId \<Rightarrow> 'v \<Rightarrow> bool" where
  "vote sent a d b x \<longleftrightarrow> (\<exists>k. Answer a k (Acked (Ack d b x)) \<in> set sent)"

definition proposed :: "('n, 'p, 'v) envelope list \<Rightarrow> DecreeId \<Rightarrow> 'p BallotId \<Rightarrow> 'v \<Rightarrow> bool" where
  "proposed sent d b x \<longleftrightarrow> (\<exists>a k. Request a (Syn d b k x) \<in> set sent)"

definition quorum_set :: "'n list \<Rightarrow> 'n set \<Rightarrow> bool" where
  "quorum_set acceptors Q \<longleftrightarrow> Q \<subseteq> set acceptors \<and> card Q = quorum (length acceptors)"

definition chosen ::
  "'n list \<Rightarrow> ('n, 'p, 'v) envelope list \<Rightarrow> DecreeId \<Rightarrow> 'p BallotId \<Rightarrow> 'v \<Rightarrow> bool" where
  "chosen acceptors sent d b x \<longleftrightarrow> (\<exists>Q. quorum_set acceptors Q \<and> (\<forall>a \<in> Q. vote sent a d b x))"

lemma quorums_meet:
  assumes "distinct acceptors" and "quorum_set acceptors Q" and "quorum_set acceptors R"
  shows "\<exists>a. a \<in> Q \<and> a \<in> R"
proof (rule ccontr)
  assume "\<nexists>a. a \<in> Q \<and> a \<in> R"
  then have "Q \<inter> R = {}" by blast
  moreover have "finite Q" "finite R" "Q \<union> R \<subseteq> set acceptors"
    using assms(2,3) finite_subset by (auto simp: quorum_set_def)
  ultimately have "card Q + card R \<le> length acceptors"
    using card_Un_disjoint card_mono distinct_card [OF assms(1)] by (metis List.finite_set)
  then show False using assms(2,3) by (simp add: quorum_set_def quorum_def)
qed

section \<open>The messages under way\<close>

definition reply_to :: "('n, 'p, 'v) msg \<Rightarrow> nat option" where
  "reply_to m = (case m of Prepare d b k \<Rightarrow> Some k | Syn d b k x \<Rightarrow> Some k | _ \<Rightarrow> None)"

lemma reply_to_simps [simp]:
  "reply_to (Prepare d b k) = Some k" "reply_to (Syn d b k x) = Some k" "reply_to (Trim d) = None"
  by (simp_all add: reply_to_def)

fun concerns :: "'n \<Rightarrow> nat \<Rightarrow> ('n, 'p, 'v) envelope \<Rightarrow> bool" where
  "concerns a k (Request c m) \<longleftrightarrow> a = c \<and> reply_to m = Some k"
| "concerns a k (Answer c j m) \<longleftrightarrow> a = c \<and> j = k"

definition known_request :: "('n, 'p, 'v) msg \<Rightarrow> bool" where
  "known_request m \<longleftrightarrow>
     (\<exists>d b k. m = Prepare d b k) \<or> (\<exists>d b k x. m = Syn d b k x) \<or> (\<exists>d. m = Trim d)"

lemma known_request_simps [simp]:
  "known_request (Prepare d b k)" "known_request (Syn d b k x)" "known_request (Trim d)"
  by (simp_all add: known_request_def)

text \<open>
  Only known requests are sent, each waiting process has sent one request to each acceptor, and each
  acceptor's part in it is at most one message: the request or the answer.
\<close>

definition inv_net ::
  "'n list \<Rightarrow> ('n, 'p, 'v) envelope list \<Rightarrow> ('n, 'p, 'v) envelope list \<Rightarrow> nat \<Rightarrow> bool" where
  "inv_net acceptors net sent nxt \<longleftrightarrow>
     set net \<subseteq> set sent \<and>
     (\<forall>a m. Request a m \<in> set sent \<longrightarrow> known_request m) \<and>
     (\<forall>a m k. Request a m \<in> set sent \<and> reply_to m = Some k \<longrightarrow> k < nxt \<and> a \<in> set acceptors) \<and>
     (\<forall>a k m. Answer a k m \<in> set sent \<longrightarrow> k < nxt) \<and>
     (\<forall>a c m m' k. Request a m \<in> set sent \<and> Request c m' \<in> set sent \<and> reply_to m = Some k \<and>
        reply_to m' = Some k \<longrightarrow> m = m') \<and>
     (\<forall>a k. length (filter (concerns a k) net) \<le> 1)"

lemma inv_netD:
  assumes "inv_net acceptors net sent nxt"
  shows "e \<in> set net \<Longrightarrow> e \<in> set sent" "Request a m \<in> set sent \<Longrightarrow> known_request m"
    "Request a m \<in> set sent \<Longrightarrow> reply_to m = Some k \<Longrightarrow> k < nxt"
    "Request a m \<in> set sent \<Longrightarrow> reply_to m = Some k \<Longrightarrow> a \<in> set acceptors"
    "Answer a k m' \<in> set sent \<Longrightarrow> k < nxt"
    "Request a m \<in> set sent \<Longrightarrow> Request c m' \<in> set sent \<Longrightarrow> reply_to m = Some k \<Longrightarrow>
      reply_to m' = Some k \<Longrightarrow> m = m'"
    "length (filter (concerns a k) net) \<le> 1"
  using assms unfolding inv_net_def by (blast, blast, blast, blast, blast, blast, blast)

lemma inv_netI:
  assumes "\<And>e. e \<in> set net \<Longrightarrow> e \<in> set sent" and "\<And>a m. Request a m \<in> set sent \<Longrightarrow> known_request m"
    and "\<And>a m k. Request a m \<in> set sent \<Longrightarrow> reply_to m = Some k \<Longrightarrow> k < nxt \<and> a \<in> set acceptors"
    and "\<And>a k m. Answer a k m \<in> set sent \<Longrightarrow> k < nxt"
    and "\<And>a c m m' k. Request a m \<in> set sent \<Longrightarrow> Request c m' \<in> set sent \<Longrightarrow> reply_to m = Some k \<Longrightarrow>
      reply_to m' = Some k \<Longrightarrow> m = m'"
    and "\<And>a k. length (filter (concerns a k) net) \<le> 1"
  shows "inv_net acceptors net sent nxt"
  using assms unfolding inv_net_def by blast

lemma filter_remove1_Nil:
  assumes "length (filter P xs) \<le> 1" and "e \<in> set xs" and "P e"
  shows "filter P (remove1 e xs) = []"
proof -
  have "filter P (remove1 e xs) = remove1 e (filter P xs)" by (simp add: filter_remove1)
  moreover have "e \<in> set (filter P xs)" using assms(2,3) by simp
  ultimately show ?thesis
    using assms(1) by (metis length_remove1 diff_is_0_eq length_0_conv)
qed

lemma filter_remove1_le: "length (filter P (remove1 e xs)) \<le> length (filter P xs)"
  by (simp add: filter_remove1 length_remove1)

lemma inv_net_remove:
  assumes "inv_net acceptors net sent nxt"
  shows "inv_net acceptors (remove1 e net) sent nxt"
proof -
  have "length (filter (concerns a k) (remove1 e net)) \<le> 1" for a k
    using assms filter_remove1_le [of "concerns a k" e net] unfolding inv_net_def by (meson order.trans)
  then show ?thesis
    using assms set_remove1_subset [of e net] unfolding inv_net_def by blast
qed

lemma inv_net_older:
  assumes "inv_net acceptors net sent nxt" and "nxt \<le> k"
  shows "filter (concerns a k) net = []"
proof (rule ccontr)
  assume "filter (concerns a k) net \<noteq> []"
  then obtain e where e: "e \<in> set net" "concerns a k e" by (auto simp: filter_empty_conv)
  then have sent: "e \<in> set sent" using inv_netD(1) [OF assms(1)] by blast
  have "k < nxt" by (cases e) (use sent e(2) inv_netD(3,5) [OF assms(1)] in \<open>auto\<close>)
  then show False using assms(2) by simp
qed

lemma broadcast_concerns:
  "distinct acceptors \<Longrightarrow> length (filter (concerns a k) (map (\<lambda>c. Request c m) acceptors)) \<le> 1"
proof (induction acceptors)
  case (Cons c cs)
  have none: "filter (concerns c k \<circ> (\<lambda>c. Request c m)) cs = []"
    using Cons.prems by (auto simp: filter_empty_conv)
  show ?case using Cons by (auto simp: filter_map none)
qed simp

lemma inv_net_broadcast:
  assumes "inv_net acceptors net sent nxt" and "distinct acceptors" and "known_request m"
    and "reply_to m = Some nxt"
  shows "inv_net acceptors (net @ map (\<lambda>c. Request c m) acceptors)
    (sent @ map (\<lambda>c. Request c m) acceptors) (Suc nxt)"
proof (rule inv_netI)
  note old = inv_netD [OF assms(1)]
  fix a c m1 m2 k
  have fresh: "Request a' m' \<in> set sent \<Longrightarrow> reply_to m' \<noteq> Some nxt" for a' m'
    using old(3) by blast
  show "e \<in> set (net @ map (\<lambda>c. Request c m) acceptors) \<Longrightarrow>
      e \<in> set (sent @ map (\<lambda>c. Request c m) acceptors)" for e
    using old(1) by auto
  show "Request a m1 \<in> set (sent @ map (\<lambda>c. Request c m) acceptors) \<Longrightarrow> known_request m1"
    using old(2) assms(3) by auto
  show "Request a m1 \<in> set (sent @ map (\<lambda>c. Request c m) acceptors) \<Longrightarrow> reply_to m1 = Some k \<Longrightarrow>
      k < Suc nxt \<and> a \<in> set acceptors"
    using old(3,4) [of a m1 k] assms(4) by auto
  show "Answer a k m1 \<in> set (sent @ map (\<lambda>c. Request c m) acceptors) \<Longrightarrow> k < Suc nxt"
    using old(5) [of a k m1] by auto
  show "m1 = m2" if r: "Request a m1 \<in> set (sent @ map (\<lambda>c. Request c m) acceptors)"
      "Request c m2 \<in> set (sent @ map (\<lambda>c. Request c m) acceptors)"
      "reply_to m1 = Some k" "reply_to m2 = Some k"
  proof -
    consider "Request a m1 \<in> set sent" "Request c m2 \<in> set sent" | "m1 = m" "m2 = m"
      | "Request a m1 \<in> set sent" "m2 = m" | "m1 = m" "Request c m2 \<in> set sent"
      using r(1,2) by auto
    then show ?thesis using r(3,4) assms(4) fresh old(6) by cases metis+
  qed
  show "length (filter (concerns a k) (net @ map (\<lambda>c. Request c m) acceptors)) \<le> 1"
  proof (cases "k = nxt")
    case True
    then show ?thesis
      using inv_net_older [OF assms(1), of k a] broadcast_concerns [OF assms(2), of a k m] by simp
  next
    case False
    then have "filter (concerns a k) (map (\<lambda>c. Request c m) acceptors) = []"
      using assms(4) by (auto simp: filter_empty_conv)
    then show ?thesis using old(7) [of a k] by simp
  qed
qed

lemma inv_net_next: "inv_net acceptors net sent nxt \<Longrightarrow> inv_net acceptors net sent (Suc nxt)"
  unfolding inv_net_def by (blast intro: less_SucI)

lemma inv_net_trim:
  assumes "inv_net acceptors net sent nxt"
  shows "inv_net acceptors (net @ [Request a (Trim d)]) (sent @ [Request a (Trim d)]) nxt"
  by (rule inv_netI) (use inv_netD [OF assms] in auto)

lemma inv_net_answer:
  assumes "inv_net acceptors net sent nxt" and "filter (concerns a k) net = []" and "k < nxt"
  shows "inv_net acceptors (net @ [Answer a k m]) (sent @ [Answer a k m]) nxt"
  by (rule inv_netI) (use inv_netD [OF assms(1)] assms(2,3) in auto)

section \<open>The acceptors\<close>

text \<open>
  \<open>before acks b'\<close>: a promise with the votes \<open>acks\<close> accounts for a vote in ballot \<open>b'\<close>.
\<close>

definition before :: "DecreeId \<Rightarrow> ('p :: linorder, 'v) Ack list \<Rightarrow> 'p BallotId \<Rightarrow> bool" where
  "before d acks b' \<longleftrightarrow> (\<exists>b1 x1. acks = [Ack d b1 x1] \<and> b' \<le> b1)"

definition honest_acks ::
  "('n, 'p :: linorder, 'v) envelope list \<Rightarrow> 'n \<Rightarrow> DecreeId \<Rightarrow> 'p BallotId \<Rightarrow> ('p, 'v) Ack list \<Rightarrow> bool" where
  "honest_acks sent a d b acks \<longleftrightarrow>
     (acks = [] \<or> (\<exists>b1 x1. acks = [Ack d b1 x1] \<and> vote sent a d b1 x1 \<and> b1 \<le> b)) \<and>
     (\<forall>b' x'. vote sent a d b' x' \<longrightarrow> b' < b \<longrightarrow> before d acks b')"

text \<open>
  What an acceptor has in its store are its latest votes; what it has promised or voted it will not
  go back on; and its promises tell the truth about its earlier votes, also in the light of those it
  has cast since.
\<close>

definition inv_acc ::
  "('n \<Rightarrow> ('p :: linorder, 'v) acceptor_state) \<Rightarrow> ('n, 'p, 'v) envelope list \<Rightarrow> bool" where
  "inv_acc acc sent \<longleftrightarrow> (\<forall>a.
     wf_store (acc_decrees (acc a)) \<and>
     (\<forall>d b x. storeLookup d (acc_decrees (acc a)) = Some (b, x) \<longrightarrow> vote sent a d b x) \<and>
     (\<forall>d b x. vote sent a d b x \<longrightarrow> acc_sd (acc a) \<le> d \<longrightarrow>
        (\<exists>b1 x1. storeLookup d (acc_decrees (acc a)) = Some (b1, x1) \<and> b \<le> b1)) \<and>
     (\<forall>d b x. vote sent a d b x \<longrightarrow> Value b \<le> acc_b (acc a)) \<and>
     (\<forall>k d b x. Answer a k (Acked (Ack d b x)) \<in> set sent \<longrightarrow> Request a (Syn d b k x) \<in> set sent) \<and>
     (\<forall>k b n acks. Answer a k (Promise b n acks) \<in> set sent \<longrightarrow>
        Value b \<le> acc_b (acc a) \<and>
        (\<exists>d. Request a (Prepare d b k) \<in> set sent \<and> honest_acks sent a d b acks)))"

lemma inv_accD:
  assumes "inv_acc acc sent"
  shows "wf_store (acc_decrees (acc a))"
    "storeLookup d (acc_decrees (acc a)) = Some (b, x) \<Longrightarrow> vote sent a d b x"
    "vote sent a d b x \<Longrightarrow> acc_sd (acc a) \<le> d \<Longrightarrow>
      \<exists>b1 x1. storeLookup d (acc_decrees (acc a)) = Some (b1, x1) \<and> b \<le> b1"
    "vote sent a d b x \<Longrightarrow> Value b \<le> acc_b (acc a)"
    "Answer a k (Acked (Ack d b x)) \<in> set sent \<Longrightarrow> Request a (Syn d b k x) \<in> set sent"
    "Answer a k (Promise b n acks) \<in> set sent \<Longrightarrow> Value b \<le> acc_b (acc a)"
    "Answer a k (Promise b n acks) \<in> set sent \<Longrightarrow>
      \<exists>d. Request a (Prepare d b k) \<in> set sent \<and> honest_acks sent a d b acks"
  using assms unfolding inv_acc_def by (blast, blast, blast, blast, blast, blast, blast)

lemma inv_accI:
  assumes "\<And>a. wf_store (acc_decrees (acc a))"
    and "\<And>a d b x. storeLookup d (acc_decrees (acc a)) = Some (b, x) \<Longrightarrow> vote sent a d b x"
    and "\<And>a d b x. vote sent a d b x \<Longrightarrow> acc_sd (acc a) \<le> d \<Longrightarrow>
      \<exists>b1 x1. storeLookup d (acc_decrees (acc a)) = Some (b1, x1) \<and> b \<le> b1"
    and "\<And>a d b x. vote sent a d b x \<Longrightarrow> Value b \<le> acc_b (acc a)"
    and "\<And>a k d b x. Answer a k (Acked (Ack d b x)) \<in> set sent \<Longrightarrow> Request a (Syn d b k x) \<in> set sent"
    and "\<And>a k b n acks. Answer a k (Promise b n acks) \<in> set sent \<Longrightarrow> Value b \<le> acc_b (acc a)"
    and "\<And>a k b n acks. Answer a k (Promise b n acks) \<in> set sent \<Longrightarrow>
      \<exists>d. Request a (Prepare d b k) \<in> set sent \<and> honest_acks sent a d b acks"
  shows "inv_acc acc sent"
  unfolding inv_acc_def by (intro allI conjI impI; rule assms; assumption)

text \<open>Requests change nothing about votes.\<close>

definition no_answers :: "('n, 'p, 'v) envelope list \<Rightarrow> bool" where
  "no_answers l \<longleftrightarrow> (\<forall>a k m. Answer a k m \<notin> set l)"

lemma vote_requests [simp]: "no_answers l \<Longrightarrow> vote (sent @ l) a d b x = vote sent a d b x"
  by (auto simp: vote_def no_answers_def)

lemma honest_requests [simp]: "no_answers l \<Longrightarrow> honest_acks (sent @ l) a d b acks = honest_acks sent a d b acks"
  by (simp add: honest_acks_def)

lemma no_answers_requests [simp]: "no_answers (map (\<lambda>c. Request c m) cs)" "no_answers [Request c m]"
  by (auto simp: no_answers_def)

lemma inv_acc_requests:
  assumes "inv_acc acc sent" and "no_answers l"
  shows "inv_acc acc (sent @ l)"
proof (rule inv_accI)
  fix a k b n acks
  show "Answer a k (Promise b n acks) \<in> set (sent @ l) \<Longrightarrow>
      \<exists>d. Request a (Prepare d b k) \<in> set (sent @ l) \<and> honest_acks (sent @ l) a d b acks"
    using inv_accD(7) [OF assms(1)] assms(2) by (fastforce simp: no_answers_def)
qed (use inv_accD(1-6) [OF assms(1)] assms(2) in \<open>auto simp: no_answers_def\<close>)

lemma vote_answer [simp]:
  "vote (sent @ [Answer c k m]) a d b x \<longleftrightarrow> vote sent a d b x \<or> a = c \<and> m = Acked (Ack d b x)"
  by (auto simp: vote_def)

lemma vote_mono: "vote sent a d b x \<Longrightarrow> vote (sent @ l) a d b x"
  by (auto simp: vote_def)

text \<open>An answer that is neither a promise nor a vote.\<close>

lemma inv_acc_nack:
  assumes "inv_acc acc sent"
  shows "inv_acc acc (sent @ [Answer a k (Nack c)])"
proof -
  have v: "vote (sent @ [Answer a k (Nack c)]) = vote sent" by (auto simp: fun_eq_iff)
  have h: "honest_acks (sent @ [Answer a k (Nack c)]) = honest_acks sent"
    by (simp add: fun_eq_iff honest_acks_def v)
  show ?thesis
    by (rule inv_accI) (use inv_accD [OF assms] in \<open>auto simp: v h\<close>)
qed

lemma honest_promise:
  assumes "inv_acc acc sent" and "acc_sd (acc a) \<le> d" and "acc_b (acc a) \<le> Value b"
  shows "honest_acks sent a d b (acks_of d (storeLookup d (acc_decrees (acc a))))"
proof (cases "storeLookup d (acc_decrees (acc a))")
  case None
  then have "\<not> vote sent a d b' x'" for b' x' using inv_accD(3) [OF assms(1) _ assms(2)] by fastforce
  then show ?thesis using None by (simp add: honest_acks_def acks_of_def)
next
  case (Some v)
  obtain b1 x1 where v: "v = (b1, x1)" by (cases v)
  have voted: "vote sent a d b1 x1" using inv_accD(2) [OF assms(1)] Some v by blast
  then have "Value b1 \<le> Value b" using inv_accD(4) [OF assms(1)] assms(3) by (blast intro: order.trans)
  moreover have "b' \<le> b1" if "vote sent a d b' x'" for b' x'
    using inv_accD(3) [OF assms(1) that assms(2)] Some v by simp
  ultimately show ?thesis using Some v voted by (auto simp: honest_acks_def acks_of_def before_def)
qed

lemma inv_acc_promise:
  assumes "inv_acc acc sent" and "Request a (Prepare d b k) \<in> set sent"
    and "acc_sd (acc a) \<le> d" and "acc_b (acc a) \<le> Value b"
  shows "inv_acc (acc(a := (acc a)\<lparr>acc_b := Value b\<rparr>))
    (sent @ [Answer a k (Promise b a (acks_of d (storeLookup d (acc_decrees (acc a)))))])"
    (is "inv_acc ?acc (sent @ [Answer a k (Promise b a ?acks)])")
proof -
  have v: "vote (sent @ [Answer a k (Promise b a ?acks)]) = vote sent" by (auto simp: fun_eq_iff)
  have h: "honest_acks (sent @ [Answer a k (Promise b a ?acks)]) = honest_acks sent"
    by (simp add: fun_eq_iff honest_acks_def v)
  note old = inv_accD [OF assms(1)]
  have up: "Value c \<le> acc_b (acc e) \<Longrightarrow> Value c \<le> acc_b (?acc e)" for c e
    using assms(4) order.trans [of "Value c" "acc_b (acc a)" "Value b"] by auto
  show ?thesis
  proof (rule inv_accI)
    fix e j c n as
    assume ans: "Answer e j (Promise c n as) \<in> set (sent @ [Answer a k (Promise b a ?acks)])"
    show "Value c \<le> acc_b (?acc e)" using ans up [OF old(6) [of e j c n as]] by auto
    show "\<exists>d. Request e (Prepare d c j) \<in> set (sent @ [Answer a k (Promise b a ?acks)]) \<and>
        honest_acks (sent @ [Answer a k (Promise b a ?acks)]) e d c as"
      using ans assms(2) honest_promise [OF assms(1,3,4)] old(7) [of e j c n as] by (auto simp: h)
  next
    fix e f c y
    assume "vote (sent @ [Answer a k (Promise b a ?acks)]) e f c y"
    then have "vote sent e f c y" by (simp only: v)
    from up [OF old(4) [OF this]] show "Value c \<le> acc_b (?acc e)" .
  qed (use old(1-3,5) in \<open>auto simp: v split: if_splits\<close>)
qed

lemma inv_acc_vote:
  assumes "inv_acc acc sent" and "Request a (Syn d b k x) \<in> set sent"
    and "acc_b (acc a) \<le> Value b"
  shows "inv_acc (acc(a := (acc a)\<lparr>acc_b := Value b, acc_saved := sv,
      acc_decrees := storeInsert [(d, b, x)] (acc_decrees (acc a))\<rparr>))
    (sent @ [Answer a k (Acked (Ack d b x))])"
    (is "inv_acc ?acc ?sent")
proof -
  note old = inv_accD [OF assms(1)]
  have up: "Value c \<le> acc_b (acc e) \<Longrightarrow> Value c \<le> acc_b (?acc e)" for c e
    using assms(3) order.trans [of "Value c" "acc_b (acc a)" "Value b"] by auto
  have upb: "Value c \<le> acc_b (acc a) \<Longrightarrow> c \<le> b" for c
    using assms(3) order.trans [of "Value c" "acc_b (acc a)" "Value b"] by simp
  have look: "storeLookup e (acc_decrees (?acc c)) =
      (if c = a \<and> e = d then Some (b, x) else storeLookup e (acc_decrees (acc c)))" for c e
    by (simp add: lookup_insert [OF old(1)])
  have honest: "honest_acks ?sent e f c as" if "honest_acks sent e f c as" "Value c \<le> acc_b (acc e)" for e f c as
    using that upb [of c] by (auto simp: honest_acks_def)
  show ?thesis
  proof (rule inv_accI)
    fix e j c n as
    assume "Answer e j (Promise c n as) \<in> set ?sent"
    then have ans: "Answer e j (Promise c n as) \<in> set sent" by simp
    show "Value c \<le> acc_b (?acc e)" using up [OF old(6) [OF ans]] .
    show "\<exists>d. Request e (Prepare d c j) \<in> set ?sent \<and> honest_acks ?sent e d c as"
      using old(7) [OF ans] honest old(6) [OF ans] by auto
  next
    fix e f c y
    assume v: "vote ?sent e f c y"
    then have "vote sent e f c y \<or> e = a \<and> c = b" by auto
    then show "Value c \<le> acc_b (?acc e)" using up [OF old(4) [of e f c y]] by (elim disjE) simp_all
    show "acc_sd (?acc e) \<le> f \<Longrightarrow>
        \<exists>b1 x1. storeLookup f (acc_decrees (?acc e)) = Some (b1, x1) \<and> c \<le> b1"
      unfolding look using v old(3) [of e f c y] upb [OF old(4)] by (auto split: if_splits)
  next
    fix e f c y
    show "storeLookup f (acc_decrees (?acc e)) = Some (c, y) \<Longrightarrow> vote ?sent e f c y"
      unfolding look using old(2) [of f e c y] by (auto split: if_splits)
  qed (use old(1,5) assms(2) in auto)
qed

lemma inv_acc_trim:
  assumes "inv_acc acc sent"
  shows "inv_acc (acc(a := handle_Trim d (acc a))) sent"
proof -
  note old = inv_accD [OF assms]
  show ?thesis
    by (rule inv_accI)
      (use old(1-4) in \<open>auto simp: lookup_trim [OF old(1)] handle_Trim_def split: if_splits intro: old(5-7)\<close>)
qed

lemma inv_acc_deliver:
  assumes "inv_acc acc sent" and "Request a m \<in> set sent" and "known_request m"
    and "acceptor a m (acc a) = Some (st, os)"
  shows "inv_acc (acc(a := st)) (sent @ map (from_acceptor a) os)"
proof -
  have nacked: "inv_acc (acc(a := acc a)) (sent @ map (from_acceptor a) (nack k c))" for k c
    using inv_acc_nack [OF assms(1)] assms(1) by (cases c) (simp_all add: nack_def)
  consider d b k where "m = Prepare d b k" | d b k x where "m = Syn d b k x" | d where "m = Trim d"
    using assms(3) by (auto simp: known_request_def)
  then show ?thesis
  proof cases
    case 1
    then show ?thesis
      using assms(1,2,4) nacked inv_acc_promise [OF assms(1)]
      by (auto simp: handle_Prepare_def split: if_splits)
  next
    case 2
    then show ?thesis
      using assms(1,2,4) nacked inv_acc_vote [OF assms(1), of a d b k x
        "if acc_b (acc a) < Value b then Some b else acc_saved (acc a)"]
      by (cases "d < acc_sd (acc a)"; cases "acc_b (acc a) \<le> Value b") (auto simp: handle_Syn_def)
  next
    case 3
    then show ?thesis using assms(4) inv_acc_trim [OF assms(1)] by auto
  qed
qed

section \<open>Safe proposals\<close>

text \<open>
  A value may be proposed in ballot \<open>c\<close> if a quorum has gone on to \<open>c\<close> and either none of it had voted
  before, or the value is that of the latest of its votes before.
\<close>

definition safe ::
  "'n list \<Rightarrow> ('n \<Rightarrow> ('p :: linorder, 'v) acceptor_state) \<Rightarrow> ('n, 'p, 'v) envelope list \<Rightarrow>
   DecreeId \<Rightarrow> 'p BallotId \<Rightarrow> 'v \<Rightarrow> bool" where
  "safe acceptors acc sent d c y \<longleftrightarrow> (\<exists>Q. quorum_set acceptors Q \<and>
     (\<forall>a \<in> Q. Value c \<le> acc_b (acc a)) \<and>
     ((\<forall>a \<in> Q. \<forall>b x. vote sent a d b x \<longrightarrow> \<not> b < c) \<or>
      (\<exists>a' b'. b' < c \<and> vote sent a' d b' y \<and>
         (\<forall>a \<in> Q. \<forall>b x. vote sent a d b x \<longrightarrow> b < c \<longrightarrow> b \<le> b'))))"

definition inv_safe ::
  "'n list \<Rightarrow> ('n \<Rightarrow> ('p :: linorder, 'v) acceptor_state) \<Rightarrow> ('n, 'p, 'v) envelope list \<Rightarrow> bool" where
  "inv_safe acceptors acc sent \<longleftrightarrow> (\<forall>d c y. proposed sent d c y \<longrightarrow> safe acceptors acc sent d c y)"

lemma deliver_outs:
  assumes "known_request m" and "acceptor a m st = Some (st', os)"
  shows "os = [] \<or> (\<exists>k m'. os = [To_process k m'] \<and> reply_to m = Some k)"
  using assms
  by (auto simp: known_request_def handle_Prepare_def handle_Syn_def nack_def
      split: if_splits Lifted.splits)

lemma deliver_votes:
  assumes "acceptor a m (acc a) = Some (st, os)"
    and "vote (sent @ map (from_acceptor a) os) e f b x"
  shows "vote sent e f b x \<or> e = a \<and> acc_b (acc a) \<le> Value b"
proof (cases "vote sent e f b x")
  case False
  then obtain k where "Answer e k (Acked (Ack f b x)) \<in> from_acceptor a ` set os"
    using assms(2) by (auto simp: vote_def)
  then obtain oo where oo: "oo \<in> set os" "from_acceptor a oo = Answer e k (Acked (Ack f b x))" by auto
  have "oo = To_process k (Acked (Ack f b x)) \<and> e = a" using oo(2) by (cases oo) simp_all
  moreover from this have "b \<in> answered os" using oo(1) by (force simp: answered_def)
  ultimately show ?thesis using acceptor_ballot [OF assms(1)] by auto
qed simp

lemma deliver_ballot: "acceptor a m (acc a) = Some (st, os) \<Longrightarrow> acc_b (acc e) \<le> acc_b ((acc(a := st)) e)"
  using acceptor_ballot [of a m "acc a" st os] by auto

lemma safe_deliver:
  assumes "safe acceptors acc sent d c y" and "acceptor a m (acc a) = Some (st, os)"
  shows "safe acceptors (acc(a := st)) (sent @ map (from_acceptor a) os) d c y"
proof -
  let ?sent = "sent @ map (from_acceptor a) os"
  obtain Q where Q: "quorum_set acceptors Q" "\<And>e. e \<in> Q \<Longrightarrow> Value c \<le> acc_b (acc e)"
    "(\<forall>e \<in> Q. \<forall>b x. vote sent e d b x \<longrightarrow> \<not> b < c) \<or>
      (\<exists>a' b'. b' < c \<and> vote sent a' d b' y \<and>
         (\<forall>e \<in> Q. \<forall>b x. vote sent e d b x \<longrightarrow> b < c \<longrightarrow> b \<le> b'))"
    using assms(1) by (auto simp: safe_def)
  have new: "vote sent e d b x" if "e \<in> Q" "vote ?sent e d b x" "b < c" for e b x
  proof (rule ccontr)
    assume "\<not> vote sent e d b x"
    then have "acc_b (acc e) \<le> Value b" using deliver_votes [where acc = acc, OF assms(2) that(2)] by auto
    then have "Value c \<le> Value b" using Q(2) [OF that(1)] by (blast intro: order.trans)
    then show False using that(3) by simp
  qed
  have "Value c \<le> acc_b ((acc(a := st)) e)" if "e \<in> Q" for e
    using Q(2) [OF that] deliver_ballot [where acc = acc and e = e, OF assms(2)] by (blast intro: order.trans)
  moreover have "(\<forall>e \<in> Q. \<forall>b x. vote ?sent e d b x \<longrightarrow> \<not> b < c) \<or>
      (\<exists>a' b'. b' < c \<and> vote ?sent a' d b' y \<and>
         (\<forall>e \<in> Q. \<forall>b x. vote ?sent e d b x \<longrightarrow> b < c \<longrightarrow> b \<le> b'))"
    using Q(3)
  proof (elim disjE exE conjE)
    assume "\<forall>e \<in> Q. \<forall>b x. vote sent e d b x \<longrightarrow> \<not> b < c"
    then show ?thesis using new by blast
  next
    fix a' b'
    assume b': "b' < c" "vote sent a' d b' y" "\<forall>e \<in> Q. \<forall>b x. vote sent e d b x \<longrightarrow> b < c \<longrightarrow> b \<le> b'"
    have "\<forall>e \<in> Q. \<forall>b x. vote ?sent e d b x \<longrightarrow> b < c \<longrightarrow> b \<le> b'" using b'(3) new by blast
    then show ?thesis using b'(1) vote_mono [OF b'(2)] by (intro disjI2 exI conjI)
  qed
  ultimately show ?thesis unfolding safe_def using Q(1) by (intro exI [of _ Q] conjI ballI)
qed

lemma proposed_answers:
  assumes "os = [] \<or> (\<exists>k m'. os = [To_process k m'])"
  shows "proposed (sent @ map (from_acceptor a) os) d c y = proposed sent d c y"
  using assms by (auto simp: proposed_def)

lemma inv_safe_deliver:
  assumes "inv_safe acceptors acc sent" and "known_request m" and "acceptor a m (acc a) = Some (st, os)"
  shows "inv_safe acceptors (acc(a := st)) (sent @ map (from_acceptor a) os)"
proof -
  have "os = [] \<or> (\<exists>k m'. os = [To_process k m'])" using deliver_outs [OF assms(2,3)] by blast
  from proposed_answers [OF this] show ?thesis
    using safe_deliver [where acc = acc, OF _ assms(3)] assms(1) by (simp add: inv_safe_def)
qed

lemma safe_requests: "no_answers l \<Longrightarrow> safe acceptors acc (sent @ l) d c y = safe acceptors acc sent d c y"
  by (simp add: safe_def)

lemma inv_safe_broadcast:
  assumes "inv_safe acceptors acc sent"
    and "\<And>d c k y. m = Syn d c k y \<Longrightarrow> safe acceptors acc sent d c y"
  shows "inv_safe acceptors acc (sent @ map (\<lambda>a. Request a m) as)"
proof -
  have "proposed sent d c y \<or> (\<exists>k. m = Syn d c k y)"
    if "proposed (sent @ map (\<lambda>a. Request a m) as) d c y" for d c y
    using that by (auto simp: proposed_def)
  then show ?thesis using assms unfolding inv_safe_def safe_requests [OF no_answers_requests(1)] by blast
qed

end
