(* ===== verification/Paxos_Agreement.thy ===== *)
theory Paxos_Agreement
  imports Paxos_Invariants
begin

text \<open>
  Agreement among the calls of \<open>propose\<close>. It holds for runs in which no ballot proposes two values for a
  decree, the invariant B1 of the source. That condition is needed, and the proposers do not ensure
  it: a run in which two calls return different values for one decree is given at the end.
\<close>

section \<open>The proposers\<close>

definition inv_proposer ::
  "('n, 'p :: linorder, 'v) envelope list \<Rightarrow> ('n, 'p, 'v) envelope list \<Rightarrow> nat \<Rightarrow>
   ('n, 'p, 'v) proposer \<Rightarrow> bool" where
  "inv_proposer net sent nxt st \<longleftrightarrow>
     (case st of
        Scouting d x b k rs \<Rightarrow>
          k < nxt \<and> distinct (map fst rs) \<and>
          (\<forall>a m. Request a m \<in> set sent \<longrightarrow> reply_to m = Some k \<longrightarrow> m = Prepare d b k) \<and>
          (\<forall>r \<in> set rs. filter (concerns (fst r) k) net = [] \<and>
             (\<exists>c n. Answer (fst r) k (Promise c n (snd r)) \<in> set sent))
      | Commanding d x b k x' rs \<Rightarrow>
          k < nxt \<and> distinct rs \<and> proposed sent d b x' \<and>
          (\<forall>a m. Request a m \<in> set sent \<longrightarrow> reply_to m = Some k \<longrightarrow> m = Syn d b k x') \<and>
          (\<forall>a \<in> set rs. filter (concerns a k) net = [] \<and> vote sent a d b x')
      | _ \<Rightarrow> True)"

definition inv_proposers ::
  "('p :: linorder \<Rightarrow> ('n, 'p, 'v) proposer) \<Rightarrow> ('n, 'p, 'v) envelope list \<Rightarrow>
   ('n, 'p, 'v) envelope list \<Rightarrow> nat \<Rightarrow> bool" where
  "inv_proposers prop net sent nxt \<longleftrightarrow> (\<forall>p. inv_proposer net sent nxt (prop p)) \<and>
     (\<forall>p q k. waiting (prop p) = Some k \<longrightarrow> waiting (prop q) = Some k \<longrightarrow> p = q)"

definition inv_decided ::
  "'n list \<Rightarrow> ('n, 'p :: linorder, 'v) envelope list \<Rightarrow> ('p \<times> DecreeId \<times> 'v) list \<Rightarrow> bool" where
  "inv_decided acceptors sent decided \<longleftrightarrow>
     (\<forall>p d x. (p, d, x) \<in> set decided \<longrightarrow> (\<exists>b. chosen acceptors sent d b x))"

lemma inv_proposer_remove: "inv_proposer net sent nxt st \<Longrightarrow> inv_proposer (remove1 e net) sent nxt st"
  by (auto simp: inv_proposer_def filter_remove1 split: proposer.splits)

lemma inv_proposer_next: "inv_proposer net sent nxt st \<Longrightarrow> inv_proposer net sent (Suc nxt) st"
  by (auto simp: inv_proposer_def split: proposer.splits)

lemma inv_proposer_waiting: "inv_proposer net sent nxt st \<Longrightarrow> waiting st = Some k \<Longrightarrow> k < nxt"
  by (auto simp: inv_proposer_def split: proposer.splits)

text \<open>More messages that do not concern the process a proposer waits in.\<close>

lemma inv_proposer_more:
  assumes "inv_proposer net sent nxt st"
    and "\<And>k. waiting st = Some k \<Longrightarrow> (\<forall>a m. Request a m \<in> set l \<longrightarrow> reply_to m \<noteq> Some k) \<and>
      (\<forall>a. filter (concerns a k) net = [] \<longrightarrow> filter (concerns a k) l = [])"
  shows "inv_proposer (net @ l) (sent @ l) nxt st"
proof (cases st)
  case (Scouting d x b k rs)
  then have l: "\<And>a m. Request a m \<in> set l \<Longrightarrow> reply_to m \<noteq> Some k"
      "\<And>a. filter (concerns a k) net = [] \<Longrightarrow> filter (concerns a k) l = []"
    using assms(2) [of k] by auto
  have old: "k < nxt" "distinct (map fst rs)"
      "\<And>a m. Request a m \<in> set sent \<Longrightarrow> reply_to m = Some k \<Longrightarrow> m = Prepare d b k"
      "\<And>r. r \<in> set rs \<Longrightarrow> filter (concerns (fst r) k) net = []"
      "\<And>r. r \<in> set rs \<Longrightarrow> \<exists>c n. Answer (fst r) k (Promise c n (snd r)) \<in> set sent"
    using assms(1) unfolding Scouting inv_proposer_def by simp_all
  have "\<exists>c n. Answer (fst r) k (Promise c n (snd r)) \<in> set (sent @ l)" if "r \<in> set rs" for r
    using old(5) [OF that] by auto
  moreover have "m = Prepare d b k" if "Request a m \<in> set (sent @ l)" "reply_to m = Some k" for a m
    using that old(3) l(1) by auto
  ultimately show ?thesis using old(1,2,4) l(2) unfolding Scouting inv_proposer_def by (simp del: set_append)
next
  case (Commanding d x b k x' rs)
  then have l: "\<And>a m. Request a m \<in> set l \<Longrightarrow> reply_to m \<noteq> Some k"
      "\<And>a. filter (concerns a k) net = [] \<Longrightarrow> filter (concerns a k) l = []"
    using assms(2) [of k] by auto
  have old: "k < nxt" "distinct rs" "proposed sent d b x'"
      "\<And>a m. Request a m \<in> set sent \<Longrightarrow> reply_to m = Some k \<Longrightarrow> m = Syn d b k x'"
      "\<And>a. a \<in> set rs \<Longrightarrow> filter (concerns a k) net = []" "\<And>a. a \<in> set rs \<Longrightarrow> vote sent a d b x'"
    using assms(1) unfolding Commanding inv_proposer_def by simp_all
  have "vote (sent @ l) a d b x'" if "a \<in> set rs" for a by (rule vote_mono [OF old(6) [OF that]])
  moreover have "m = Syn d b k x'" if "Request a m \<in> set (sent @ l)" "reply_to m = Some k" for a m
    using that old(4) l(1) by auto
  moreover have "proposed (sent @ l) d b x'" using old(3) by (auto simp: proposed_def)
  ultimately show ?thesis using old(1,2,5) l(2) unfolding Commanding inv_proposer_def by (simp del: set_append)
qed (simp_all add: inv_proposer_def)

lemma chosen_mono: "chosen acceptors sent d b x \<Longrightarrow> chosen acceptors (sent @ l) d b x"
  unfolding chosen_def by (erule ex_forward) (auto simp: vote_mono)

lemma inv_decided_mono: "inv_decided acceptors sent decided \<Longrightarrow> inv_decided acceptors (sent @ l) decided"
  unfolding inv_decided_def by (meson chosen_mono)

lemma broadcast_other: "reply_to m \<noteq> Some k \<Longrightarrow> filter (concerns a k) (map (\<lambda>c. Request c m) as) = []"
  by (auto simp: filter_empty_conv)

lemma inv_proposer_broadcast:
  assumes "inv_proposer net sent nxt st" and "reply_to m = Some nxt"
  shows "inv_proposer (net @ map (\<lambda>c. Request c m) as) (sent @ map (\<lambda>c. Request c m) as) (Suc nxt) st"
proof (rule inv_proposer_more)
  fix k
  assume "waiting st = Some k"
  then have "reply_to m \<noteq> Some k" using inv_proposer_waiting [OF assms(1)] assms(2) by auto
  then show "(\<forall>a m'. Request a m' \<in> set (map (\<lambda>c. Request c m) as) \<longrightarrow> reply_to m' \<noteq> Some k) \<and>
      (\<forall>a. filter (concerns a k) net = [] \<longrightarrow> filter (concerns a k) (map (\<lambda>c. Request c m) as) = [])"
    using broadcast_other by auto
qed (rule inv_proposer_next [OF assms(1)])

lemma inv_proposer_deliver:
  assumes "inv_proposer net sent nxt st" and "Request a m \<in> set net"
    and "os = [] \<or> (\<exists>k m'. os = [To_process k m'] \<and> reply_to m = Some k)"
  shows "inv_proposer (remove1 (Request a m) net @ map (from_acceptor a) os)
    (sent @ map (from_acceptor a) os) nxt st"
proof -
  let ?l = "map (from_acceptor a) os"
  have "filter (concerns e k) ?l = []" if "filter (concerns e k) net = []" for e k
    using that assms(2,3) by (auto simp: filter_empty_conv)
  moreover have "Request e m' \<notin> set ?l" for e m' using assms(3) by auto
  ultimately have "inv_proposer (net @ ?l) (sent @ ?l) nxt st"
    by (intro inv_proposer_more [OF assms(1)]) blast
  from inv_proposer_remove [OF this, of "Request a m"] show ?thesis
    using assms(2) by (simp add: remove1_append)
qed

lemma fresh_scout:
  assumes "inv_net acceptors net sent nxt"
  shows "inv_proposer (net @ map (\<lambda>c. Request c (Prepare d b nxt)) as)
    (sent @ map (\<lambda>c. Request c (Prepare d b nxt)) as) (Suc nxt) (Scouting d x b nxt [])"
  using inv_netD(3) [OF assms] by (auto simp: inv_proposer_def)

lemma fresh_command:
  assumes "inv_net acceptors net sent nxt" and "as \<noteq> []"
  shows "inv_proposer (net @ map (\<lambda>c. Request c (Syn d b nxt x')) as)
    (sent @ map (\<lambda>c. Request c (Syn d b nxt x')) as) (Suc nxt) (Commanding d x b nxt x' [])"
proof -
  have "proposed (sent @ map (\<lambda>c. Request c (Syn d b nxt x')) as) d b x'"
    using assms(2) by (cases as) (auto simp: proposed_def)
  then show ?thesis using inv_netD(3) [OF assms(1)] by (auto simp: inv_proposer_def)
qed

lemma not_collected:
  assumes "inv_net acceptors net sent nxt" and "Answer a k m \<in> set net"
  shows "filter (concerns a k) net \<noteq> []" "filter (concerns a k) (remove1 (Answer a k m) net) = []"
proof -
  show "filter (concerns a k) net \<noteq> []" using assms(2) by (force simp: filter_empty_conv)
  show "filter (concerns a k) (remove1 (Answer a k m) net) = []"
    using filter_remove1_Nil [OF inv_netD(7) [OF assms(1)] assms(2)] by simp
qed

lemma scouting_collects:
  assumes "inv_net acceptors net sent nxt" and "Answer a k (Promise c n acks) \<in> set net"
    and "inv_proposer net sent nxt (Scouting d x b k rs)"
  shows "inv_proposer (remove1 (Answer a k (Promise c n acks)) net) sent nxt
    (Scouting d x b k ((a, acks) # rs))"
proof -
  note gone = not_collected [OF assms(1,2)]
  have "inv_proposer (remove1 (Answer a k (Promise c n acks)) net) sent nxt (Scouting d x b k rs)"
    by (rule inv_proposer_remove [OF assms(3)])
  moreover have "a \<notin> fst ` set rs" using gone(1) assms(3) by (auto simp: inv_proposer_def)
  moreover have "Answer a k (Promise c n acks) \<in> set sent" using inv_netD(1) [OF assms(1,2)] .
  ultimately show ?thesis using gone(2) by (auto simp: inv_proposer_def)
qed

lemma commanding_collects:
  assumes "inv_net acceptors net sent nxt" and "inv_acc acc sent" and "Answer a k (Acked v) \<in> set net"
    and "inv_proposer net sent nxt (Commanding d x b k x' rs)"
  shows "inv_proposer (remove1 (Answer a k (Acked v)) net) sent nxt (Commanding d x b k x' (a # rs))"
proof -
  note gone = not_collected [OF assms(1,3)]
  have ans: "Answer a k (Acked v) \<in> set sent" using inv_netD(1) [OF assms(1,3)] .
  obtain d1 b1 x1 where v: "v = Ack d1 b1 x1" by (cases v)
  have "Request a (Syn d1 b1 k x1) \<in> set sent" using inv_accD(5) [OF assms(2)] ans v by blast
  then have "d1 = d \<and> b1 = b \<and> x1 = x'" using assms(4) by (fastforce simp: inv_proposer_def)
  then have "vote sent a d b x'" using ans v by (auto simp: vote_def)
  moreover have "inv_proposer (remove1 (Answer a k (Acked v)) net) sent nxt (Commanding d x b k x' rs)"
    by (rule inv_proposer_remove [OF assms(4)])
  moreover have "a \<notin> set rs" using gone(1) assms(4) by (auto simp: inv_proposer_def)
  ultimately show ?thesis using gone(2) by (auto simp: inv_proposer_def)
qed

lemma votes_are_acceptors:
  assumes "inv_net acceptors net sent nxt" and "inv_acc acc sent" and "vote sent a d b x"
  shows "a \<in> set acceptors" "proposed sent d b x"
proof -
  obtain k where "Request a (Syn d b k x) \<in> set sent"
    using assms(3) inv_accD(5) [OF assms(2)] unfolding vote_def by blast
  then show "a \<in> set acceptors" "proposed sent d b x"
    using inv_netD(4) [OF assms(1)] by (auto simp: proposed_def)
qed

lemma commanded_chosen:
  assumes "inv_net acceptors net sent nxt" and "inv_acc acc sent"
    and "inv_proposer net sent nxt (Commanding d x b k x' rs)" and "length rs = quorum (length acceptors)"
  shows "chosen acceptors sent d b x'"
proof -
  have rs: "distinct rs" "\<And>a. a \<in> set rs \<Longrightarrow> vote sent a d b x'"
    using assms(3) by (auto simp: inv_proposer_def)
  have "set rs \<subseteq> set acceptors" using rs(2) votes_are_acceptors(1) [OF assms(1,2)] by blast
  then have "quorum_set acceptors (set rs)"
    using assms(4) rs(1) by (simp add: quorum_set_def distinct_card)
  then show ?thesis using rs(2) by (auto simp: chosen_def)
qed

text \<open>The responses a scout has collected are honest promises for its decree and ballot.\<close>

lemma scouted_promise:
  assumes "inv_net acceptors net sent nxt" and "inv_acc acc sent"
    and "inv_proposer net sent nxt (Scouting d x b k rs)" and "r \<in> set rs"
  shows "fst r \<in> set acceptors" "Value b \<le> acc_b (acc (fst r))" "honest_acks sent (fst r) d b (snd r)"
proof -
  have uniq: "\<And>a m. Request a m \<in> set sent \<Longrightarrow> reply_to m = Some k \<Longrightarrow> m = Prepare d b k"
    using assms(3) by (simp add: inv_proposer_def)
  obtain c n where ans: "Answer (fst r) k (Promise c n (snd r)) \<in> set sent"
    using assms(3,4) by (auto simp: inv_proposer_def)
  obtain e where e: "Request (fst r) (Prepare e c k) \<in> set sent" "honest_acks sent (fst r) e c (snd r)"
    using inv_accD(7) [OF assms(2) ans] by blast
  then have "e = d \<and> c = b" using uniq [OF e(1)] by simp
  then show "fst r \<in> set acceptors" "Value b \<le> acc_b (acc (fst r))" "honest_acks sent (fst r) d b (snd r)"
    using inv_netD(4) [OF assms(1) e(1)] inv_accD(6) [OF assms(2) ans] e(2) by simp_all
qed

text \<open>So the ack_value a scout comes back with may be proposed.\<close>

lemma scouted_safe:
  assumes "inv_net acceptors net sent nxt" and "inv_acc acc sent" and "inv_safe acceptors acc sent"
    and "inv_proposer net sent nxt (Scouting d x b k rs)" and "length rs = quorum (length acceptors)"
  shows "safe acceptors acc sent d b (scouted_value d x rs)"
proof -
  let ?Q = "fst ` set rs" and ?acks = "concat (map snd rs)"
  note promise = scouted_promise [OF assms(1,2,4)]
  have "card ?Q = quorum (length acceptors)"
    using assms(4,5) distinct_card [of "map fst rs"] by (simp add: inv_proposer_def)
  then have Q: "quorum_set acceptors ?Q" using promise(1) by (auto simp: quorum_set_def)
  have up: "\<forall>a \<in> ?Q. Value b \<le> acc_b (acc a)" using promise(2) by auto
  have told: "before d (snd r) b'" if "r \<in> set rs" "vote sent (fst r) d b' x'" "b' < b" for r b' x'
    using promise(3) [OF that(1)] that(2,3) unfolding honest_acks_def by blast
  show ?thesis
  proof (cases rule: chooseValue_cases [of d ?acks])
    case 1
    have "\<not> vote sent a d b' x'" if ab: "a \<in> ?Q" "b' < b" for a b' x'
    proof
      assume v: "vote sent a d b' x'"
      obtain r where r: "r \<in> set rs" "a = fst r" using ab(1) by blast
      then have "before d (snd r) b'" using told [OF r(1) _ ab(2)] v by simp
      then show False using r(1) 1(2) by (force simp: before_def)
    qed
    then show ?thesis unfolding safe_def using Q up by blast
  next
    case (2 a)
    have val: "scouted_value d x rs = ack_value a" using 2(1) by (simp add: scouted_value_def)
    obtain r where r: "r \<in> set rs" "a \<in> set (snd r)" using 2(2) by auto
    then have voted: "vote sent (fst r) d (ballot a) (ack_value a)" "ballot a \<le> b"
      using promise(3) [OF r(1)] by (auto simp: honest_acks_def)
    have latest: "b' \<le> ballot a" if v: "e \<in> ?Q" "vote sent e d b' x'" "b' < b" for e b' x'
    proof -
      obtain q where q: "q \<in> set rs" "e = fst q" using v(1) by blast
      then have "before d (snd q) b'" using told [OF q(1) _ v(3)] v(2) by simp
      then obtain b1 x1 where "snd q = [Ack d b1 x1]" "b' \<le> b1" by (auto simp: before_def)
      moreover from this q(1) have "Ack d b1 x1 \<in> set ?acks" by force
      ultimately show ?thesis using 2(4) [of "Ack d b1 x1"] by simp
    qed
    show ?thesis
    proof (cases "ballot a = b")
      case True
      then have "proposed sent d b (ack_value a)"
        using votes_are_acceptors(2) [OF assms(1,2) voted(1)] by simp
      then show ?thesis using assms(3) val by (simp add: inv_safe_def)
    next
      case False
      then have "ballot a < b" using voted(2) by simp
      then show ?thesis unfolding safe_def val using Q up voted(1) latest by blast
    qed
  qed
qed

section \<open>The invariant of the system\<close>

definition paxos_inv :: "'n list \<Rightarrow> ('n, 'p :: linorder, 'v) system \<Rightarrow> bool" where
  "paxos_inv acceptors s \<longleftrightarrow> distinct acceptors \<and>
     inv_net acceptors (s_net s) (s_sent s) (s_next s) \<and> inv_acc (s_acc s) (s_sent s) \<and>
     inv_safe acceptors (s_acc s) (s_sent s) \<and>
     inv_proposers (s_prop s) (s_net s) (s_sent s) (s_next s) \<and>
     inv_decided acceptors (s_sent s) (s_decided s)"

lemma paxos_invD:
  assumes "paxos_inv acceptors s"
  shows "distinct acceptors" "inv_net acceptors (s_net s) (s_sent s) (s_next s)"
    "inv_acc (s_acc s) (s_sent s)" "inv_safe acceptors (s_acc s) (s_sent s)"
    "inv_proposer (s_net s) (s_sent s) (s_next s) (s_prop s p)"
    "waiting (s_prop s p) = Some k \<Longrightarrow> waiting (s_prop s q) = Some k \<Longrightarrow> p = q"
    "inv_decided acceptors (s_sent s) (s_decided s)"
  using assms unfolding paxos_inv_def inv_proposers_def by (blast, blast, blast, blast, blast, blast, blast)

lemma paxos_inv_start: "distinct acceptors \<Longrightarrow> paxos_inv acceptors system_start"
  by (simp add: paxos_inv_def system_start_def inv_net_def inv_acc_def inv_safe_def inv_proposers_def
      inv_proposer_def inv_decided_def acceptor_start_def wf_store_def storeLookup_def vote_def
      proposed_def)

lemma paxos_inv_remove: "paxos_inv acceptors s \<Longrightarrow> paxos_inv acceptors (remove_message e s)"
  by (simp add: paxos_inv_def remove_message_def inv_net_remove inv_proposers_def inv_proposer_remove)

lemma requests_broadcast: "requests (map (\<lambda>a. To_acceptor a m) as) = map (\<lambda>a. Request a m) as"
  by (induction as) simp_all

text \<open>A proposer sends a request of a new process to all acceptors.\<close>

lemma paxos_inv_launch:
  assumes "paxos_inv acceptors s" and "known_request m" and "reply_to m = Some (s_next s)"
    and "waiting st = Some (s_next s)" and "result st = []"
    and "inv_proposer (s_net s @ map (\<lambda>c. Request c m) acceptors)
      (s_sent s @ map (\<lambda>c. Request c m) acceptors) (Suc (s_next s)) st"
    and "\<And>d c k y. m = Syn d c k y \<Longrightarrow> safe acceptors (s_acc s) (s_sent s) d c y"
  shows "paxos_inv acceptors (proposer_move p (st, map (\<lambda>a. To_acceptor a m) acceptors) s)"
proof -
  note old = paxos_invD [OF assms(1)]
  have fresh: "waiting (s_prop s q) \<noteq> Some (s_next s)" for q
    using inv_proposer_waiting [OF old(5)] by blast
  have "inv_proposers ((s_prop s)(p := st)) (s_net s @ map (\<lambda>c. Request c m) acceptors)
      (s_sent s @ map (\<lambda>c. Request c m) acceptors) (Suc (s_next s))"
    using inv_proposer_broadcast [OF old(5) assms(3)] assms(4,6) old(6) fresh
    by (auto simp: inv_proposers_def split: if_splits)
  then show ?thesis
    using old(1) inv_net_broadcast [OF old(2,1) assms(2,3)] inv_acc_requests [OF old(3)]
      inv_safe_broadcast [OF old(4) assms(7)] inv_decided_mono [OF old(7)] assms(5)
    by (simp add: paxos_inv_def proposer_move_def requests_broadcast)
qed

text \<open>A proposer goes on, or returns, without sending anything.\<close>

lemma paxos_inv_stay:
  assumes "paxos_inv acceptors s" and "waiting st = waiting (s_prop s p) \<or> waiting st = None"
    and "inv_proposer (s_net s) (s_sent s) (s_next s) st"
    and "\<And>d x. (d, x) \<in> set (result st) \<Longrightarrow> \<exists>b. chosen acceptors (s_sent s) d b x"
  shows "paxos_inv acceptors (proposer_move p (st, []) s)"
proof -
  note old = paxos_invD [OF assms(1)]
  have "inv_proposers ((s_prop s)(p := st)) (s_net s) (s_sent s) (Suc (s_next s))"
    unfolding inv_proposers_def
  proof (intro conjI allI impI)
    fix q
    show "inv_proposer (s_net s) (s_sent s) (Suc (s_next s)) (((s_prop s)(p := st)) q)"
      using inv_proposer_next [OF old(5)] inv_proposer_next [OF assms(3)] by simp
  next
    fix q r k
    assume "waiting (((s_prop s)(p := st)) q) = Some k" "waiting (((s_prop s)(p := st)) r) = Some k"
    then show "q = r" using assms(2) old(6) by (metis fun_upd_apply option.distinct(1))
  qed
  moreover have "inv_decided acceptors (s_sent s) (s_decided s @ map (Pair p) (result st))"
    using old(7) assms(4) by (auto simp: inv_decided_def)
  ultimately show ?thesis
    using old(1,3,4) inv_net_next [OF old(2)] by (simp add: paxos_inv_def proposer_move_def)
qed

lemma paxos_inv_scout:
  assumes "paxos_inv acceptors s"
  shows "paxos_inv acceptors (proposer_move p (scout acceptors d x b (s_next s)) s)"
  unfolding scout_def
  by (rule paxos_inv_launch [OF assms]) (simp_all add: fresh_scout [OF paxos_invD(2) [OF assms]])

lemma paxos_inv_command:
  assumes "paxos_inv acceptors s" and "safe acceptors (s_acc s) (s_sent s) d b x'"
  shows "paxos_inv acceptors (proposer_move p (command acceptors d x b (s_next s) x') s)"
proof -
  have "acceptors \<noteq> []" using assms(2) by (auto simp: safe_def quorum_set_def quorum_def)
  then show ?thesis
    unfolding command_def
    by (intro paxos_inv_launch [OF assms(1)])
      (use assms(2) in \<open>simp_all add: fresh_command [OF paxos_invD(2) [OF assms(1)]]\<close>)
qed

lemma paxos_inv_receive:
  assumes "paxos_inv acceptors s" and "Answer a k m \<in> set (s_net s)" and "waiting (s_prop s p) = Some k"
    and "propose_receive acceptors (s_next s) a m (s_prop s p) = Some r"
  shows "paxos_inv acceptors (proposer_move p r (remove_message (Answer a k m) s))"
proof -
  let ?s = "remove_message (Answer a k m) s"
  note old = paxos_invD [OF assms(1)]
  have inv: "paxos_inv acceptors ?s" by (rule paxos_inv_remove [OF assms(1)])
  have same: "s_next ?s = s_next s" "s_sent ?s = s_sent s" "s_acc ?s = s_acc s" "s_prop ?s = s_prop s"
      "s_net ?s = remove1 (Answer a k m) (s_net s)" by (simp_all add: remove_message_def)
  show ?thesis
  proof (cases "s_prop s p")
    case (Scouting d x b j rs)
    then have j: "j = k" using assms(3) by simp
    have here: "inv_proposer (s_net s) (s_sent s) (s_next s) (Scouting d x b k rs)"
      using old(5) [of p] Scouting j by simp
    consider b' where "m = Nack b'" | c n acks where "m = Promise c n acks"
      using assms(4) Scouting by (cases m) (auto simp: propose_receive_def)
    then show ?thesis
    proof cases
      case 1
      then have "r = scout acceptors d x (after_scout_nack b b') (s_next s)"
        using assms(4) Scouting by (simp add: propose_receive_def)
      then show ?thesis using paxos_inv_scout [OF inv] same(1) by simp
    next
      case 2
      let ?rs = "(a, acks) # rs"
      have collected: "inv_proposer (s_net ?s) (s_sent ?s) (s_next ?s) (Scouting d x b k ?rs)"
        using scouting_collects [OF old(2) assms(2) [unfolded 2] here] by (simp add: remove_message_def 2)
      show ?thesis
      proof (cases "length ?rs = quorum (length acceptors)")
        case True
        then have "r = command acceptors d x b (s_next ?s) (scouted_value d x ?rs)"
          using assms(4) Scouting 2 by (simp add: propose_receive_def remove_message_def Let_def)
        then show ?thesis
          using paxos_inv_command [OF inv] scouted_safe [OF paxos_invD(2-4) [OF inv] collected True] by simp
      next
        case False
        then have "r = (Scouting d x b k ?rs, [])"
          using assms(4) Scouting 2 j by (simp add: propose_receive_def Let_def)
        then show ?thesis using paxos_inv_stay [OF inv _ collected] Scouting j same(4) by simp
      qed
    qed
  next
    case (Commanding d x b j x' rs)
    then have j: "j = k" using assms(3) by simp
    have here: "inv_proposer (s_net s) (s_sent s) (s_next s) (Commanding d x b k x' rs)"
      using old(5) [of p] Commanding j by simp
    consider b' where "m = Nack b'" | v where "m = Acked v"
      using assms(4) Commanding by (cases m) (auto simp: propose_receive_def)
    then show ?thesis
    proof cases
      case 1
      then have "r = scout acceptors d x (after_command_nack b b') (s_next s)"
        using assms(4) Commanding by (simp add: propose_receive_def)
      then show ?thesis using paxos_inv_scout [OF inv] same(1) by simp
    next
      case 2
      have collected: "inv_proposer (s_net ?s) (s_sent ?s) (s_next ?s) (Commanding d x b k x' (a # rs))"
        using commanding_collects [OF old(2,3) assms(2) [unfolded 2] here] by (simp add: remove_message_def 2)
      show ?thesis
      proof (cases "length (a # rs) = quorum (length acceptors)")
        case True
        then have "r = (Returned d x', [])"
          using assms(4) Commanding 2 by (simp add: propose_receive_def Let_def)
        moreover have "chosen acceptors (s_sent ?s) d b x'"
          by (rule commanded_chosen [OF paxos_invD(2,3) [OF inv] collected True])
        ultimately show ?thesis
          using paxos_inv_stay [OF inv, of "Returned d x'" p] by (auto simp: inv_proposer_def)
      next
        case False
        then have "r = (Commanding d x b k x' (a # rs), [])"
          using assms(4) Commanding 2 j by (simp add: propose_receive_def Let_def)
        then show ?thesis using paxos_inv_stay [OF inv _ collected] Commanding j same(4) by simp
      qed
    qed
  qed (use assms(3) in simp_all)
qed

lemma paxos_inv_retry:
  assumes "paxos_inv acceptors s" and "propose_retry acceptors (s_next s) (s_prop s p) = Some r"
  shows "paxos_inv acceptors (proposer_move p r s)"
proof (cases "s_prop s p")
  case (Scouting d x b k rs)
  then show ?thesis using assms(2) paxos_inv_scout [OF assms(1)] by auto
next
  case (Commanding d x b k x' rs)
  then have r: "r = command acceptors d x b (s_next s) x'" using assms(2) by simp
  have "proposed (s_sent s) d b x'"
    using paxos_invD(5) [OF assms(1), of p] Commanding by (simp add: inv_proposer_def)
  then have "safe acceptors (s_acc s) (s_sent s) d b x'"
    using paxos_invD(4) [OF assms(1)] by (simp add: inv_safe_def)
  from paxos_inv_command [OF assms(1) this] show ?thesis by (simp add: r)
qed (use assms(2) in simp_all)

lemma paxos_inv_deliver:
  assumes "paxos_inv acceptors s" and "Request a m \<in> set (s_net s)" and "acceptor a m (s_acc s a) = Some r"
  shows "paxos_inv acceptors (acceptor_move a r (remove_message (Request a m) s))"
proof -
  note old = paxos_invD [OF assms(1)]
  obtain st os where r: "r = (st, os)" by (cases r)
  have sent: "Request a m \<in> set (s_sent s)" using inv_netD(1) [OF old(2) assms(2)] .
  have known: "known_request m" using inv_netD(2) [OF old(2) sent] .
  note step = assms(3) [unfolded r]
  note os = deliver_outs [OF known step]
  have "inv_net acceptors (remove1 (Request a m) (s_net s) @ map (from_acceptor a) os)
      (s_sent s @ map (from_acceptor a) os) (s_next s)"
    using os
  proof (elim disjE exE conjE)
    fix k m'
    assume k: "os = [To_process k m']" "reply_to m = Some k"
    have "filter (concerns a k) (remove1 (Request a m) (s_net s)) = []"
      using filter_remove1_Nil [OF inv_netD(7) [OF old(2)] assms(2)] k(2) by simp
    from inv_net_answer [OF inv_net_remove [OF old(2)] this inv_netD(3) [OF old(2) sent k(2)]]
    show ?thesis using k(1) by simp
  qed (simp add: inv_net_remove [OF old(2)])
  moreover have "inv_proposers (s_prop s) (remove1 (Request a m) (s_net s) @ map (from_acceptor a) os)
      (s_sent s @ map (from_acceptor a) os) (s_next s)"
    using inv_proposer_deliver [OF old(5) assms(2) os] old(6) unfolding inv_proposers_def by blast
  ultimately show ?thesis
    using old(1) inv_acc_deliver [OF old(3) sent known step] inv_decided_mono [OF old(7)]
      inv_safe_deliver [where acc = "s_acc s", OF old(4) known step]
    by (simp add: paxos_inv_def acceptor_move_def remove_message_def r)
qed

lemma paxos_inv_release:
  assumes "paxos_inv acceptors s"
  shows "paxos_inv acceptors (s\<lparr>s_net := s_net s @ [Request a (Trim d)], s_sent := s_sent s @ [Request a (Trim d)]\<rparr>)"
proof -
  note old = paxos_invD [OF assms]
  have "inv_proposer (s_net s @ [Request a (Trim d)]) (s_sent s @ [Request a (Trim d)]) (s_next s) (s_prop s p)" for p
    by (rule inv_proposer_more [OF old(5)]) simp
  then have "inv_proposers (s_prop s) (s_net s @ [Request a (Trim d)]) (s_sent s @ [Request a (Trim d)]) (s_next s)"
    using old(6) unfolding inv_proposers_def by blast
  moreover have "inv_safe acceptors (s_acc s) (s_sent s @ [Request a (Trim d)])"
    using inv_safe_broadcast [OF old(4), of "Trim d" "[a]"] by simp
  ultimately show ?thesis
    using old(1) inv_net_trim [OF old(2)] inv_acc_requests [OF old(3) no_answers_requests(2)]
      inv_decided_mono [OF old(7)]
    by (simp add: paxos_inv_def)
qed

lemma paxos_inv_abort:
  assumes "paxos_inv acceptors s"
  shows "paxos_inv acceptors (s\<lparr>s_prop := (s_prop s)(p := Idle)\<rparr>)"
  using assms by (auto simp: paxos_inv_def inv_proposers_def inv_proposer_def split: if_splits)

lemma paxos_inv_event:
  assumes "paxos_inv acceptors s" and "system_event acceptors e s = Some t"
  shows "paxos_inv acceptors t"
proof (cases e)
  case (Propose p d x)
  then show ?thesis using assms paxos_inv_scout by (auto simp: propose_def split: if_splits)
next
  case (Release a d)
  then show ?thesis using assms(2) paxos_inv_release [OF assms(1)] by auto
next
  case (Deliver a m)
  then show ?thesis using assms(2) paxos_inv_deliver [OF assms(1)] by (auto split: if_splits)
next
  case (Receive p a k m)
  then show ?thesis using assms(2) paxos_inv_receive [OF assms(1)] by (auto split: if_splits)
next
  case (Retry p)
  then show ?thesis using assms(2) paxos_inv_retry [OF assms(1)] by auto
next
  case (Abort p)
  then show ?thesis using assms(2) paxos_inv_abort [OF assms(1)] by auto
next
  case (Lose e')
  then show ?thesis using assms(2) paxos_inv_remove [OF assms(1)] by auto
qed

definition paxos_step :: "'n list \<Rightarrow> ('n, 'p :: linorder, 'v) system \<Rightarrow> ('n, 'p, 'v) system \<Rightarrow> bool" where
  "paxos_step acceptors s t \<longleftrightarrow> (\<exists>e. system_event acceptors e s = Some t)"

interpretation paxos: invariant_system "\<lambda>s. s = system_start \<and> distinct acceptors"
  "paxos_step acceptors" "paxos_inv acceptors" for acceptors
  by unfold_locales (auto simp: paxos_inv_start paxos_step_def intro: paxos_inv_event)

lemma system_run_steps: "system_run acceptors es s = Some t \<Longrightarrow> (paxos_step acceptors)\<^sup>*\<^sup>* s t"
proof (induction es arbitrary: s)
  case (Cons e es)
  then obtain s1 where "system_event acceptors e s = Some s1" "system_run acceptors es s1 = Some t"
    by (auto split: option.splits)
  moreover from this have "paxos_step acceptors s s1" by (auto simp: paxos_step_def)
  ultimately show ?case using Cons.IH by (blast intro: converse_rtranclp_into_rtranclp)
qed simp

section \<open>Agreement\<close>

text \<open>B1: no ballot proposes two values for a decree.\<close>

definition single_valued_ballots :: "('n, 'p, 'v) envelope list \<Rightarrow> bool" where
  "single_valued_ballots sent \<longleftrightarrow>
     (\<forall>d b x y. proposed sent d b x \<longrightarrow> proposed sent d b y \<longrightarrow> x = y)"

fun syn_ballot :: "('n, 'p, 'v) envelope \<Rightarrow> 'p BallotId option" where
  "syn_ballot (Request a m) = (case m of Syn d b k x \<Rightarrow> Some b | _ \<Rightarrow> None)"
| "syn_ballot (Answer a k m) = None"

lemma finite_proposed: "finite {b. \<exists>x. proposed sent d b x}"
proof (rule finite_subset)
  show "{b. \<exists>x. proposed sent d b x} \<subseteq> (\<Union>e \<in> set sent. set_option (syn_ballot e))"
    by (force simp: proposed_def)
qed simp

lemma chosen_proposed:
  assumes "inv_net acceptors net sent nxt" and "inv_acc acc sent" and "chosen acceptors sent d b x"
  shows "proposed sent d b x"
proof -
  obtain Q where Q: "quorum_set acceptors Q" "\<forall>a \<in> Q. vote sent a d b x"
    using assms(3) by (auto simp: chosen_def)
  then have "Q \<noteq> {}" by (auto simp: quorum_set_def quorum_def)
  then show ?thesis using Q(2) votes_are_acceptors(2) [OF assms(1,2)] by blast
qed

text \<open>Once a value is chosen, every later ballot proposes it.\<close>

lemma chosen_later:
  assumes "paxos_inv acceptors s" and "single_valued_ballots (s_sent s)"
    and "chosen acceptors (s_sent s) d b x" and "proposed (s_sent s) d c y" and "b \<le> c"
  shows "y = x"
  using assms(4,5)
proof (induction "card {e. b \<le> e \<and> e < c \<and> (\<exists>z. proposed (s_sent s) d e z)}" arbitrary: c rule: less_induct)
  case less
  note inv = paxos_invD [OF assms(1)]
  show ?case
  proof (cases "b = c")
    case True
    then show ?thesis
      using less.prems(1) chosen_proposed [OF inv(2,3) assms(3)] assms(2)
      unfolding single_valued_ballots_def by blast
  next
    case False
    then have "b < c" using less.prems(2) by simp
    obtain Q where Q: "quorum_set acceptors Q" "\<forall>a \<in> Q. vote (s_sent s) a d b x"
      using assms(3) by (auto simp: chosen_def)
    obtain R where R: "quorum_set acceptors R"
      "(\<forall>a \<in> R. \<forall>b x. vote (s_sent s) a d b x \<longrightarrow> \<not> b < c) \<or>
        (\<exists>a' b'. b' < c \<and> vote (s_sent s) a' d b' y \<and>
           (\<forall>a \<in> R. \<forall>b x. vote (s_sent s) a d b x \<longrightarrow> b < c \<longrightarrow> b \<le> b'))"
      using inv(4) less.prems(1) unfolding inv_safe_def safe_def by blast
    obtain a where a: "a \<in> R" "vote (s_sent s) a d b x"
      using quorums_meet [OF inv(1) Q(1) R(1)] Q(2) by blast
    with R(2) \<open>b < c\<close> obtain a' b' where b': "b' < c" "vote (s_sent s) a' d b' y" "b \<le> b'" by blast
    then have prop_b': "proposed (s_sent s) d b' y" using votes_are_acceptors(2) [OF inv(2,3)] by blast
    have "{e. b \<le> e \<and> e < b' \<and> (\<exists>z. proposed (s_sent s) d e z)} \<subset>
        {e. b \<le> e \<and> e < c \<and> (\<exists>z. proposed (s_sent s) d e z)}"
      using b'(1,3) prop_b' by (auto intro: less_trans)
    moreover have "finite {e. b \<le> e \<and> e < c \<and> (\<exists>z. proposed (s_sent s) d e z)}"
      by (rule finite_subset [OF _ finite_proposed [of "s_sent s" d]]) auto
    ultimately show ?thesis using less.hyps [OF _ prop_b' b'(3)] psubset_card_mono by blast
  qed
qed


lemmas run_defs =
  system_start_def acceptor_start_def initialDecreeId_def lift_option_def handle_Prepare_def
  handle_Syn_def nack_def acks_of_def storeInsert_def storeLookup_def proposer_move_def
  acceptor_move_def remove_message_def propose_def scout_def command_def propose_receive_def quorum_def
  scouted_value_def chooseValue_def maximumBy_ballot_def after_command_nack_def with_proposalId_def
  decree_order ballot_order

text \<open>Two calls, one after the other; the second one finds the value of the first.\<close>

definition agreeing_run :: "(nat, nat, string) event list" where
  "agreeing_run =
     [Propose 1 initialDecreeId ''y'',
      Deliver 1 (Prepare initialDecreeId (BallotId 0 1) 0),
      Deliver 2 (Prepare initialDecreeId (BallotId 0 1) 0),
      Receive 1 1 0 (Promise (BallotId 0 1) 1 []), Receive 1 2 0 (Promise (BallotId 0 1) 2 []),
      Deliver 1 (Syn initialDecreeId (BallotId 0 1) 2 ''y''),
      Deliver 2 (Syn initialDecreeId (BallotId 0 1) 2 ''y''),
      Receive 1 1 2 (Acked (Ack initialDecreeId (BallotId 0 1) ''y'')),
      Receive 1 2 2 (Acked (Ack initialDecreeId (BallotId 0 1) ''y'')),
      Propose 2 initialDecreeId ''x'',
      Deliver 2 (Prepare initialDecreeId (BallotId 0 2) 5),
      Deliver 3 (Prepare initialDecreeId (BallotId 0 2) 5),
      Receive 2 2 5 (Promise (BallotId 0 2) 2 [Ack initialDecreeId (BallotId 0 1) ''y'']),
      Receive 2 3 5 (Promise (BallotId 0 2) 3 []),
      Deliver 2 (Syn initialDecreeId (BallotId 0 2) 7 ''y''),
      Deliver 3 (Syn initialDecreeId (BallotId 0 2) 7 ''y''),
      Receive 2 2 7 (Acked (Ack initialDecreeId (BallotId 0 2) ''y'')),
      Receive 2 3 7 (Acked (Ack initialDecreeId (BallotId 0 2) ''y''))]"


text \<open>
  A run that reuses a ballot. Caller 1 gets \<open>y\<close> voted for by acceptor 3 alone. Caller 2 learns of it
  and commands \<open>y\<close> in its first ballot, which acceptor 3 refuses because caller 3, with the same
  proposal number, has been there. Caller 2 starts over in the same ballot, does not hear of acceptor
  3 this time, and has \<open>x\<close> accepted by acceptors 1 and 2. Then its first command arrives there.
\<close>

definition disagreeing_run :: "(nat, nat, string) event list" where
  "disagreeing_run =
     [Propose 1 initialDecreeId ''y'',
      Deliver 3 (Prepare initialDecreeId (BallotId 0 1) 0),
      Deliver 1 (Prepare initialDecreeId (BallotId 0 1) 0),
      Receive 1 3 0 (Promise (BallotId 0 1) 3 []), Receive 1 1 0 (Promise (BallotId 0 1) 1 []),
      Deliver 3 (Syn initialDecreeId (BallotId 0 1) 2 ''y''),
      Propose 2 initialDecreeId ''x'',
      Deliver 3 (Prepare initialDecreeId (BallotId 0 2) 3),
      Deliver 1 (Prepare initialDecreeId (BallotId 0 2) 3),
      Receive 2 3 3 (Promise (BallotId 0 2) 3 [Ack initialDecreeId (BallotId 0 1) ''y'']),
      Receive 2 1 3 (Promise (BallotId 0 2) 1 []),
      Propose 3 initialDecreeId ''z'',
      Deliver 3 (Prepare initialDecreeId (BallotId 0 3) 6),
      Deliver 3 (Syn initialDecreeId (BallotId 0 2) 5 ''y''),
      Receive 2 3 5 (Nack (BallotId 0 3)),
      Deliver 1 (Prepare initialDecreeId (BallotId 0 2) 7),
      Deliver 2 (Prepare initialDecreeId (BallotId 0 2) 7),
      Receive 2 1 7 (Promise (BallotId 0 2) 1 []), Receive 2 2 7 (Promise (BallotId 0 2) 2 []),
      Deliver 1 (Syn initialDecreeId (BallotId 0 2) 9 ''x''),
      Deliver 2 (Syn initialDecreeId (BallotId 0 2) 9 ''x''),
      Receive 2 1 9 (Acked (Ack initialDecreeId (BallotId 0 2) ''x'')),
      Receive 2 2 9 (Acked (Ack initialDecreeId (BallotId 0 2) ''x'')),
      Deliver 1 (Syn initialDecreeId (BallotId 0 2) 5 ''y''),
      Deliver 2 (Syn initialDecreeId (BallotId 0 2) 5 ''y''),
      Propose 4 initialDecreeId ''w'',
      Deliver 1 (Prepare initialDecreeId (BallotId 0 4) 12),
      Deliver 2 (Prepare initialDecreeId (BallotId 0 4) 12),
      Receive 4 1 12 (Promise (BallotId 0 4) 1 [Ack initialDecreeId (BallotId 0 2) ''y'']),
      Receive 4 2 12 (Promise (BallotId 0 4) 2 [Ack initialDecreeId (BallotId 0 2) ''y'']),
      Deliver 1 (Syn initialDecreeId (BallotId 0 4) 14 ''y''),
      Deliver 2 (Syn initialDecreeId (BallotId 0 4) 14 ''y''),
      Receive 4 1 14 (Acked (Ack initialDecreeId (BallotId 0 4) ''y'')),
      Receive 4 2 14 (Acked (Ack initialDecreeId (BallotId 0 4) ''y''))]"


end
