(* ===== verification/Paxos_Query.thy ===== *)
theory Paxos_Query
  imports Paxos_Agreement
begin

text \<open>
  \<open>query\<close> of \<^verbatim>\<open>BasicPaxos.hs\<close>: the votes of all acceptors at or above a decree are collected and a
  value is reported for each decree that a majority has voted on. In a run of the system it reports
  every value that a call of \<open>propose\<close> has returned; it may also report values that are not final.
\<close>

section \<open>The query\<close>

text \<open>\<open>Map.fromList . map (\a -> (decree a, [a]))\<close>: a later entry replaces an earlier one.\<close>

definition votes_by_decree :: "('p, 'v) Ack list \<Rightarrow> ('p, 'v) Ack list store" where
  "votes_by_decree acks = foldl (\<lambda>m a. map_insert (decree a) [a] m) [] acks"

definition votes_for :: "DecreeId \<Rightarrow> 'a list store \<Rightarrow> 'a list" where
  "votes_for d m = (case storeLookup d m of Some as \<Rightarrow> as | None \<Rightarrow> [])"

text \<open>\<open>Map.unionWith (++)\<close>\<close>

definition union_append :: "'a list store \<Rightarrow> 'a list store \<Rightarrow> 'a list store" where
  "union_append m m' = foldl (\<lambda>m (d, as). map_insert d (votes_for d m @ as) m) m m'"

definition decideDecree ::
  "nat \<Rightarrow> DecreeId \<times> ('p :: linorder, 'v) Ack list \<Rightarrow> (DecreeId \<times> 'v) option" where
  "decideDecree n dv =
     (if length (snd dv) \<ge> n div 2 + 1 then map_option (Pair (fst dv)) (chooseValue (fst dv) (snd dv))
      else None)"

text \<open>The result of \<open>query\<close> once the replies \<open>dvs\<close> of the \<open>n\<close> acceptors have arrived, in this order.\<close>

definition query_result :: "nat \<Rightarrow> ('p :: linorder, 'v) Ack list list \<Rightarrow> (DecreeId \<times> 'v) list" where
  "query_result n dvs =
     List.map_filter (decideDecree n) (foldl union_append [] (map votes_by_decree dvs))"

section \<open>The votes collected for a decree\<close>

lemma votes_for_insert:
  "wf_store m \<Longrightarrow> votes_for e (map_insert d as m) = (if e = d then as else votes_for e m)"
  by (simp add: votes_for_def storeLookup_def lookup_map_insert)

lemma wf_votes_by_decree: "wf_store (votes_by_decree acks)"
  unfolding votes_by_decree_def by (induction acks rule: rev_induct) (simp_all add: wf_store_def [of "[]"])

lemma votes_for_by_decree:
  assumes "distinct (map decree acks)"
  shows "votes_for d (votes_by_decree acks) = filter (\<lambda>a. decree a = d) acks"
  using assms
proof (induction acks rule: rev_induct)
  case (snoc a acks)
  have "votes_by_decree (acks @ [a]) = map_insert (decree a) [a] (votes_by_decree acks)"
    by (simp add: votes_by_decree_def)
  moreover have "filter (\<lambda>c. decree c = decree a) acks = []"
    using snoc.prems by (auto simp: filter_empty_conv) (metis image_eqI)
  ultimately show ?case using snoc by (simp add: votes_for_insert wf_votes_by_decree)
qed (simp add: votes_by_decree_def votes_for_def storeLookup_def)

lemma wf_union_append: "wf_store m \<Longrightarrow> wf_store (union_append m m')"
  unfolding union_append_def by (induction m' arbitrary: m) auto

lemma votes_for_union:
  assumes "wf_store m" and "wf_store m'"
  shows "votes_for d (union_append m m') = votes_for d m @ votes_for d m'"
  using assms
proof (induction m' arbitrary: m)
  case (Cons p m')
  obtain e as where p: "p = (e, as)" by (cases p)
  let ?m = "map_insert e (votes_for e m @ as) m"
  have wf: "wf_store ?m" using Cons.prems by simp
  have wf': "wf_store m'" using Cons.prems by (simp add: wf_store_def)
  have "union_append m (p # m') = union_append ?m m'" by (simp add: union_append_def p)
  then have "votes_for d (union_append m (p # m')) = votes_for d ?m @ votes_for d m'"
    using Cons.IH [OF wf wf'] by simp
  moreover have "votes_for e m' = []"
    using Cons.prems(2) map_of_eq_None_iff [of m' e]
    by (auto simp: p wf_store_def votes_for_def storeLookup_def split: option.split)
  moreover have "votes_for d (p # m') = (if d = e then as else votes_for d m')"
    by (simp add: p votes_for_def storeLookup_def)
  ultimately show ?case using Cons.prems(1) by (simp add: votes_for_insert)
qed (simp add: union_append_def votes_for_def storeLookup_def)

lemma collected_votes:
  assumes "\<And>dv. dv \<in> set dvs \<Longrightarrow> distinct (map decree dv)" and "wf_store m"
  shows "wf_store (foldl union_append m (map votes_by_decree dvs)) \<and>
    votes_for d (foldl union_append m (map votes_by_decree dvs)) =
      votes_for d m @ filter (\<lambda>a. decree a = d) (concat dvs)"
  using assms
  by (induction dvs arbitrary: m)
    (auto simp: wf_union_append votes_for_union wf_votes_by_decree votes_for_by_decree)

lemma decideDecree_iff:
  "decideDecree n dv = Some (d, x) \<longleftrightarrow>
    fst dv = d \<and> length (snd dv) \<ge> n div 2 + 1 \<and> chooseValue d (snd dv) = Some x"
  by (auto simp: decideDecree_def)

text \<open>What is reported: the vote in the greatest ballot, if a majority has voted in any.\<close>

lemma query_result_iff:
  assumes "\<And>dv. dv \<in> set dvs \<Longrightarrow> distinct (map decree dv)"
  shows "(d, x) \<in> set (query_result n dvs) \<longleftrightarrow>
    length (filter (\<lambda>a. decree a = d) (concat dvs)) \<ge> n div 2 + 1 \<and>
    chooseValue d (filter (\<lambda>a. decree a = d) (concat dvs)) = Some x"
proof -
  let ?m = "foldl union_append [] (map votes_by_decree dvs)"
  let ?as = "filter (\<lambda>a. decree a = d) (concat dvs)"
  have m: "wf_store ?m" "votes_for d ?m = ?as"
    using collected_votes [OF assms, of dvs "[]" d]
    by (simp_all add: wf_store_def votes_for_def storeLookup_def)
  have "distinct (map fst ?m)" using m(1) by (simp add: wf_store_def strict_sorted_iff)
  then have entry: "(d, as) \<in> set ?m \<longleftrightarrow> storeLookup d ?m = Some as" for as
    by (simp add: storeLookup_def)
  have "(d, x) \<in> set (query_result n dvs) \<longleftrightarrow>
      (\<exists>as. (d, as) \<in> set ?m \<and> length as \<ge> n div 2 + 1 \<and> chooseValue d as = Some x)"
    unfolding query_result_def in_map_filter decideDecree_iff by force
  also have "\<dots> \<longleftrightarrow> length ?as \<ge> n div 2 + 1 \<and> chooseValue d ?as = Some x"
    unfolding entry m(2) [symmetric] votes_for_def by (cases "storeLookup d ?m") simp_all
  finally show ?thesis .
qed

section \<open>The replies of the acceptors\<close>

lemma map_from:
  assumes "wf_store m"
  shows "(case storeLookup d m of Some v \<Rightarrow> (d, v) # map_above d m | None \<Rightarrow> map_above d m) =
    filter (\<lambda>(e, v). d \<le> e) m"
  using assms
proof (induction m)
  case (Cons p m)
  obtain e v where p: "p = (e, v)" by (cases p)
  have above: "\<forall>f \<in> fst ` set m. e < f" and wf: "wf_store m"
    using Cons.prems by (auto simp: wf_store_def p)
  consider "e < d" | "e = d" | "d < e" by (rule linorder_cases)
  then show ?case
  proof cases
    case 1
    then have same: "map_above d (p # m) = map_above d m" "storeLookup d (p # m) = storeLookup d m"
        "filter (\<lambda>(e, v). d \<le> e) (p # m) = filter (\<lambda>(e, v). d \<le> e) m"
      by (auto simp: p map_above_def storeLookup_def)
    show ?thesis unfolding same by (rule Cons.IH [OF wf])
  next
    case 2
    have "filter (\<lambda>(e, v). d < e) m = m" "filter (\<lambda>(e, v). d \<le> e) m = m"
      using above 2 by (auto simp: filter_id_conv)
    then show ?thesis using 2 by (simp add: p storeLookup_def map_above_def)
  next
    case 3
    have "filter (\<lambda>(e, v). d < e) m = m" "filter (\<lambda>(e, v). d \<le> e) m = m" "map_of m d = None"
      using above 3 by (auto simp: filter_id_conv map_of_eq_None_iff)
    then show ?thesis using 3 by (simp add: p storeLookup_def map_above_def less_imp_le)
  qed
qed (simp add: storeLookup_def map_above_def)

lemma filter_key:
  assumes "wf_store m"
  shows "filter (\<lambda>(e, v). e = d) m = (case storeLookup d m of Some v \<Rightarrow> [(d, v)] | None \<Rightarrow> [])"
  using assms
proof (induction m)
  case (Cons p m)
  obtain e v where p: "p = (e, v)" by (cases p)
  have "\<forall>f \<in> fst ` set m. e < f" and wf: "wf_store m"
    using Cons.prems by (auto simp: wf_store_def p)
  then have "filter (\<lambda>(f, v). f = e) m = []" by (auto simp: filter_empty_conv)
  then show ?case using Cons.IH [OF wf] by (auto simp: p storeLookup_def)
qed (simp add: storeLookup_def)

lemma query_reply:
  assumes "wf_store (acc_decrees st)"
    and "acceptor a (QueryDecrees k d0) st = Some (st', [To_process k (Decrees dv)])"
  shows "distinct (map decree dv)"
    and "d0 \<le> d \<Longrightarrow> filter (\<lambda>c. decree c = d) dv = acks_of d (storeLookup d (acc_decrees st))"
proof -
  let ?ack = "\<lambda>(e, b, v). Ack e b v" and ?m = "acc_decrees st"
  have dv: "dv = map ?ack (filter (\<lambda>(e, v). d0 \<le> e) ?m)"
    unfolding map_from [OF assms(1), symmetric] using assms(2)
    by (auto simp: handle_QueryDecrees_def Let_def)
  have key: "decree \<circ> ?ack = fst" by auto
  show "distinct (map decree dv)"
    using wf_filter [OF assms(1)] by (simp add: dv key wf_store_def strict_sorted_iff)
  assume "d0 \<le> d"
  then have "filter (\<lambda>c. decree c = d) dv = map ?ack (filter (\<lambda>(e, v). e = d) ?m)"
    by (auto simp: dv filter_map comp_def case_prod_unfold intro!: arg_cong [where f = "map _"] filter_cong)
  then show "filter (\<lambda>c. decree c = d) dv = acks_of d (storeLookup d ?m)"
    by (auto simp: filter_key [OF assms(1)] acks_of_def split: option.splits)
qed

lemma query_replies:
  assumes "list_all2 (\<lambda>a dv. acceptor a (QueryDecrees k d0) (acc a) =
      Some (acc a, [To_process k (Decrees dv)])) order dvs"
    and "\<And>a. wf_store (acc_decrees (acc a))" and "d0 \<le> d"
  shows "(\<forall>dv \<in> set dvs. distinct (map decree dv)) \<and>
    filter (\<lambda>c. decree c = d) (concat dvs) =
      concat (map (\<lambda>a. acks_of d (storeLookup d (acc_decrees (acc a)))) order)"
  using assms(1)
proof (induction order dvs rule: list_all2_induct)
  case (Cons a as dv dvs)
  show ?case using query_reply [OF assms(2) Cons(1)] Cons(3) assms(3) by simp
qed simp

section \<open>What a query reports\<close>

text \<open>The votes for a decided decree: a majority has one, and the one in the greatest ballot is for it.\<close>

lemma votes_decided:
  fixes s :: "('n, 'p :: linorder, 'v) system"
  defines "ack d a \<equiv> acks_of d (storeLookup d (acc_decrees (s_acc s a)))"
  assumes "paxos_inv acceptors s" and "single_valued_ballots (s_sent s)"
    and "chosen acceptors (s_sent s) d b x" and "\<forall>a \<in> set acceptors. acc_sd (s_acc s a) \<le> d"
    and "set order = set acceptors" and "distinct order"
  shows "quorum (length acceptors) \<le> length (concat (map (ack d) order))"
    and "chooseValue d (concat (map (ack d) order)) = Some x"
proof -
  note parts = paxos_invD [OF assms(2)]
  obtain Q where Q: "Q \<subseteq> set acceptors" "card Q = quorum (length acceptors)"
      "\<forall>a \<in> Q. vote (s_sent s) a d b x"
    using assms(4) by (auto simp: chosen_def quorum_set_def)
  have voted: "\<exists>b1 x1. ack d a = [Ack d b1 x1] \<and> b \<le> b1" if "a \<in> Q" for a
  proof -
    obtain b1 x1 where "storeLookup d (acc_decrees (s_acc s a)) = Some (b1, x1)" "b \<le> b1"
      using inv_accD(3) [OF parts(3), of a d b x] Q(1,3) assms(5) \<open>a \<in> Q\<close> by blast
    then show ?thesis by (simp add: ack_def acks_of_def)
  qed
  have "card Q \<le> (\<Sum>a \<in> Q. length (ack d a))"
  proof -
    have "1 \<le> length (ack d a)" if "a \<in> Q" for a using voted [OF that] by auto
    then show ?thesis using sum_mono [of Q "\<lambda>_. 1" "\<lambda>a. length (ack d a)"] by simp
  qed
  also have "\<dots> \<le> (\<Sum>a \<in> set order. length (ack d a))"
    by (rule sum_mono2) (use Q(1) assms(6) in auto)
  finally show "quorum (length acceptors) \<le> length (concat (map (ack d) order))"
    using Q(2) assms(7) by (simp add: length_concat comp_def sum_list_distinct_conv_sum_set)
  have "Q \<noteq> {}" using Q(2) by (auto simp: quorum_def)
  then obtain a0 b0 x0 where a0: "a0 \<in> set order" "ack d a0 = [Ack d b0 x0]" "b \<le> b0"
    using voted Q(1) assms(6) by blast
  have last_vote: "Ack d b0 x0 \<in> set (concat (map (ack d) order))"
    unfolding set_concat set_map using a0(1,2) by (metis UN_I image_eqI list.set_intros(1))
  show "chooseValue d (concat (map (ack d) order)) = Some x"
  proof (cases rule: chooseValue_cases [where d = d and acks = "concat (map (ack d) order)"])
    case 1
    then show ?thesis using 1(2) [OF last_vote] by simp
  next
    case (2 c)
    obtain a where a: "a \<in> set order" "c \<in> set (ack d a)" using 2(2) by auto
    then have "storeLookup d (acc_decrees (s_acc s a)) = Some (ballot c, ack_value c)"
      by (auto simp: ack_def acks_of_def split: option.splits)
    then have "vote (s_sent s) a d (ballot c) (ack_value c)" by (rule inv_accD(2) [OF parts(3)])
    then have "proposed (s_sent s) d (ballot c) (ack_value c)"
      using votes_are_acceptors(2) [OF parts(2,3)] by blast
    moreover have "b \<le> ballot c"
      using order.trans [OF a0(3)] 2(4) [OF last_vote] by simp
    ultimately show ?thesis using chosen_later [OF assms(2-4)] 2(1) by metis
  qed
qed


lemmas query_defs =
  handle_QueryDecrees_def map_above_def storeLookup_def query_result_def votes_by_decree_def
  union_append_def votes_for_def decideDecree_def List.map_filter_def chooseValue_def
  maximumBy_ballot_def decree_order ballot_order


text \<open>Caller 1 gets one vote for \<open>y\<close>, caller 2 one for \<open>x\<close> in a greater ballot; both give up.\<close>

definition undecided_run :: "(nat, nat, string) event list" where
  "undecided_run =
     [Propose 1 initialDecreeId ''y'',
      Deliver 1 (Prepare initialDecreeId (BallotId 0 1) 0),
      Deliver 2 (Prepare initialDecreeId (BallotId 0 1) 0),
      Receive 1 1 0 (Promise (BallotId 0 1) 1 []), Receive 1 2 0 (Promise (BallotId 0 1) 2 []),
      Deliver 1 (Syn initialDecreeId (BallotId 0 1) 2 ''y''), Abort 1,
      Propose 2 initialDecreeId ''x'',
      Deliver 2 (Prepare initialDecreeId (BallotId 0 2) 3),
      Deliver 3 (Prepare initialDecreeId (BallotId 0 2) 3),
      Receive 2 2 3 (Promise (BallotId 0 2) 2 []), Receive 2 3 3 (Promise (BallotId 0 2) 3 []),
      Deliver 2 (Syn initialDecreeId (BallotId 0 2) 5 ''x''), Abort 2]"

text \<open>Caller 3 then hears from acceptors 1 and 3.\<close>

definition deciding_run :: "(nat, nat, string) event list" where
  "deciding_run =
     [Propose 3 initialDecreeId ''z'',
      Deliver 1 (Prepare initialDecreeId (BallotId 0 3) 6),
      Deliver 3 (Prepare initialDecreeId (BallotId 0 3) 6),
      Receive 3 1 6 (Promise (BallotId 0 3) 1 [Ack initialDecreeId (BallotId 0 1) ''y'']),
      Receive 3 3 6 (Promise (BallotId 0 3) 3 []),
      Deliver 1 (Syn initialDecreeId (BallotId 0 3) 8 ''y''),
      Deliver 3 (Syn initialDecreeId (BallotId 0 3) 8 ''y''),
      Receive 3 1 8 (Acked (Ack initialDecreeId (BallotId 0 3) ''y'')),
      Receive 3 3 8 (Acked (Ack initialDecreeId (BallotId 0 3) ''y''))]"

text \<open>
  A query may report a value that is never decided. It counts the acceptors that have voted, not
  those that have voted in the same ballot, so it reports \<open>x\<close>, for which a single acceptor has voted;
  afterwards a call of \<open>propose\<close> returns \<open>y\<close>, in a run in which no ballot proposes two values.
\<close>

theorem query_reports_undecided:
  "\<exists>s t dvs. system_run [1, 2, 3] undecided_run system_start = Some s \<and>
     list_all2 (\<lambda>a dv. acceptor a (QueryDecrees 9 initialDecreeId) (s_acc s a) =
       Some (s_acc s a, [To_process 9 (Decrees dv)])) [1, 2, 3] dvs \<and>
     query_result 3 dvs = [(initialDecreeId, ''x'')] \<and>
     system_run [1, 2, 3] deciding_run s = Some t \<and> single_valued_ballots (s_sent t) \<and>
     s_decided t = [(3, initialDecreeId, ''y'')]"
proof -
  let ?dvs = "[[Ack initialDecreeId (BallotId 0 (1 :: nat)) ''y''], [Ack initialDecreeId (BallotId 0 2) ''x''], []]"
  have "query_result 3 ?dvs = [(initialDecreeId, ''x'')]" by (simp add: query_defs)
  moreover have "\<exists>s t. system_run [1, 2, 3] undecided_run system_start = Some s \<and>
      acc_decrees (s_acc s 1) = [(initialDecreeId, BallotId 0 1, ''y'')] \<and>
      acc_decrees (s_acc s 2) = [(initialDecreeId, BallotId 0 2, ''x'')] \<and>
      acc_decrees (s_acc s 3) = [] \<and>
      system_run [1, 2, 3] deciding_run s = Some t \<and> single_valued_ballots (s_sent t) \<and>
      s_decided t = [(3, initialDecreeId, ''y'')]"
    unfolding undecided_run_def deciding_run_def
    by (simp add: run_defs single_valued_ballots_def proposed_def) (intro allI impI, elim exE disjE; simp)
  ultimately show ?thesis by (force simp: query_defs intro!: exI [of _ ?dvs])
qed

end
