(* ===== verification/Graph_Store.thy ===== *)
theory Graph_Store
  imports HPrelude
begin

text \<open>
  The replicated store of the resource graph (\<^verbatim>\<open>Multimap.hs\<close>, \<^verbatim>\<open>Multimap/Implementation.hs\<close>, \<open>updateStore\<close>
  of \<^verbatim>\<open>Multimap/Process.hs\<close>) and the change log that collects the updates between two synchronisations
  (\<^verbatim>\<open>ResourceGraph/GraphLike.hs\<close>). A \<open>HashMap\<close> is an association list without duplicate keys, a \<open>HashSet\<close>
  a list without duplicates; nothing depends on their order. Keys and values are of any type.
\<close>

section \<open>Updates\<close>

record 'k MetaInfo =
  miSinceGC :: int
  miGCThreshold :: int
  miRootNodes :: "'k list"

definition defaultMetaInfo :: "'k MetaInfo" where
  "defaultMetaInfo = \<lparr>miSinceGC = 0, miGCThreshold = 100, miRootNodes = []\<rparr>"

datatype ('k, 'a) StoreUpdate =
    InsertMany "('k \<times> 'a list) list"
  | DeleteValues "('k \<times> 'a list) list"
  | DeleteKeys "'k list"
  | SetMetaInfo "'k MetaInfo"

text \<open>
  The meaning of the updates as \<^verbatim>\<open>Multimap.hs\<close> documents it, on stores that give each key the set of its
  values. \<open>sets_of k xs\<close> is all that \<open>xs\<close> has for \<open>k\<close>.
\<close>

definition sets_of :: "'k \<Rightarrow> ('k \<times> 'a list) list \<Rightarrow> 'a set" where
  "sets_of k xs = (\<Union>p \<in> set xs. if fst p = k then set (snd p) else {})"

definition stored :: "'a set option \<Rightarrow> 'a set" where
  "stored s = (case s of None \<Rightarrow> {} | Some v \<Rightarrow> v)"

lemma stored_simps [simp]: "stored None = {}" "stored (Some s) = s"
  by (simp_all add: stored_def)

fun store_update :: "('k, 'a) StoreUpdate \<Rightarrow> ('k \<Rightarrow> 'a set option) \<Rightarrow> 'k \<Rightarrow> 'a set option" where
  "store_update (InsertMany xs) st k =
     (if k \<in> fst ` set xs then Some (sets_of k xs \<union> stored (st k)) else st k)"
| "store_update (DeleteValues xs) st k = map_option (\<lambda>s. s - sets_of k xs) (st k)"
| "store_update (DeleteKeys ks) st k = (if k \<in> set ks then None else st k)"
| "store_update (SetMetaInfo mi) st k = st k"

section \<open>The multimap\<close>

type_synonym ('k, 'a) multimap = "('k \<times> 'a list) list"

definition insertMany :: "('k \<times> 'a list) list \<Rightarrow> ('k, 'a) multimap \<Rightarrow> ('k, 'a) multimap" where
  "insertMany kvs mm =
     foldl (\<lambda>mm' (k, s). AList.map_default k (remdups s) (\<lambda>old. foldl (\<lambda>s' v. List.insert v s') old s) mm') mm kvs"

definition deleteValues :: "('k \<times> 'a list) list \<Rightarrow> ('k, 'a) multimap \<Rightarrow> ('k, 'a) multimap" where
  "deleteValues kvs mm =
     foldl (\<lambda>mm' (k, s). AList.map_entry k (\<lambda>old. foldl (\<lambda>s' v. removeAll v s') old s) mm') mm kvs"

definition deleteKeys :: "'k list \<Rightarrow> ('k, 'a) multimap \<Rightarrow> ('k, 'a) multimap" where
  "deleteKeys keys mm = foldl (\<lambda>mm' k. AList.delete k mm') mm keys"

fun applyUpdate :: "('k, 'a) StoreUpdate \<Rightarrow> ('k, 'a) multimap \<Rightarrow> ('k, 'a) multimap" where
  "applyUpdate (InsertMany kvs) mm = insertMany kvs mm"
| "applyUpdate (DeleteValues kvs) mm = deleteValues kvs mm"
| "applyUpdate (DeleteKeys ks) mm = deleteKeys ks mm"
| "applyUpdate (SetMetaInfo mi) mm = mm"

fun meta_infos :: "('k, 'a) StoreUpdate list \<Rightarrow> 'k MetaInfo list" where
  "meta_infos [] = []"
| "meta_infos (SetMetaInfo m # su) = m # meta_infos su"
| "meta_infos (_ # su) = meta_infos su"

definition updateStore ::
  "('k, 'a) StoreUpdate list \<Rightarrow> 'k MetaInfo \<times> ('k, 'a) multimap \<Rightarrow> 'k MetaInfo \<times> ('k, 'a) multimap" where
  "updateStore su st =
     (case meta_infos su of [] \<Rightarrow> fst st | m # _ \<Rightarrow> m, foldl (\<lambda>mm u. applyUpdate u mm) (snd st) su)"

section \<open>The change log\<close>

datatype ('k, 'a) ChangeLog =
  ChangeLog (cl_is: "('k, 'a) multimap") (cl_dvs: "('k, 'a) multimap") (cl_dks: "'k list")
    (cl_mi: "'k MetaInfo option")

fun updateChangeLog :: "('k, 'a) StoreUpdate \<Rightarrow> ('k, 'a) ChangeLog \<Rightarrow> ('k, 'a) ChangeLog" where
  "updateChangeLog (InsertMany kvs) (ChangeLog is dvs dks mi) =
     ChangeLog (insertMany kvs is) (deleteValues kvs dvs) (foldr removeAll (map fst kvs) dks) mi"
| "updateChangeLog (DeleteValues kvs) (ChangeLog is dvs dks mi) =
     ChangeLog (deleteValues kvs is) (insertMany (filter (\<lambda>kv. fst kv \<notin> set dks) kvs) dvs) dks mi"
| "updateChangeLog (DeleteKeys ks) (ChangeLog is dvs dks mi) =
     ChangeLog (deleteKeys ks is) (deleteKeys ks dvs) (foldr List.insert ks dks) mi"
| "updateChangeLog (SetMetaInfo mi') (ChangeLog is dvs dks mi) = ChangeLog is dvs dks (Some mi')"

fun fromChangeLog :: "('k, 'a) ChangeLog \<Rightarrow> ('k, 'a) StoreUpdate list" where
  "fromChangeLog (ChangeLog is dvs dks mi) =
     [InsertMany is, DeleteValues dvs, DeleteKeys dks] @
     (case mi of None \<Rightarrow> [] | Some m \<Rightarrow> [SetMetaInfo m])"

definition emptyChangeLog :: "('k, 'a) ChangeLog" where
  "emptyChangeLog = ChangeLog [] [] [] None"

section \<open>The interface of a multimap\<close>

text \<open>
  What the change log and the store rely on: the operations have their documented meaning on the
  abstraction \<open>abs\<close>, keep the representation well-formed, and listing a multimap gives all of it.
\<close>

locale multimap_spec =
  fixes abs :: "'m \<Rightarrow> 'k \<Rightarrow> 'a set option" and wf :: "'m \<Rightarrow> bool"
    and insert_many delete_values :: "('k \<times> 'a list) list \<Rightarrow> 'm \<Rightarrow> 'm"
    and delete_keys :: "'k list \<Rightarrow> 'm \<Rightarrow> 'm" and to_list :: "'m \<Rightarrow> ('k \<times> 'a list) list"
  assumes abs_insert: "abs (insert_many kvs m) = store_update (InsertMany kvs) (abs m)"
    and abs_delete_values: "abs (delete_values kvs m) = store_update (DeleteValues kvs) (abs m)"
    and abs_delete_keys: "abs (delete_keys ks m) = store_update (DeleteKeys ks) (abs m)"
    and wf_insert: "wf m \<Longrightarrow> wf (insert_many kvs m)"
    and wf_delete_values: "wf m \<Longrightarrow> wf (delete_values kvs m)"
    and wf_delete_keys: "wf m \<Longrightarrow> wf (delete_keys ks m)"
    and keys_to_list: "wf m \<Longrightarrow> fst ` set (to_list m) = dom (abs m)"
    and sets_to_list: "wf m \<Longrightarrow> sets_of k (to_list m) = stored (abs m k)"
begin

text \<open>Applying listed multimaps: insertions, then removals of values, then of keys.\<close>

lemma apply_listed:
  assumes "wf is" and "wf dvs"
  shows "abs (delete_keys dks (delete_values (to_list dvs) (insert_many (to_list is) m))) k =
    (if k \<in> set dks then None
     else if k \<in> dom (abs is) then Some ((stored (abs is k) \<union> stored (abs m k)) - stored (abs dvs k))
     else map_option (\<lambda>s. s - stored (abs dvs k)) (abs m k))"
  using assms
  by (simp add: abs_insert abs_delete_values abs_delete_keys keys_to_list sets_to_list domIff)

end

section \<open>Association lists are multimaps\<close>

definition mm_abs :: "('k, 'a) multimap \<Rightarrow> 'k \<Rightarrow> 'a set option" where
  "mm_abs m k = map_option set (map_of m k)"

definition mm_wf :: "('k, 'a) multimap \<Rightarrow> bool" where
  "mm_wf m \<longleftrightarrow> distinct (map fst m) \<and> (\<forall>p \<in> set m. distinct (snd p))"

lemma set_fold_insert: "set (foldl (\<lambda>s' v. List.insert v s') old s) = set old \<union> set s"
  by (induction s arbitrary: old) auto

lemma set_fold_remove: "set (foldl (\<lambda>s' v. removeAll v s') old s) = set old - set s"
  by (induction s arbitrary: old) auto

lemma distinct_folds:
  "distinct old \<Longrightarrow> distinct (foldl (\<lambda>s' v. List.insert v s') old s)"
  "distinct old \<Longrightarrow> distinct (foldl (\<lambda>s' v. removeAll v s') old s)"
  by (induction s arbitrary: old) (auto simp: distinct_removeAll)

lemma sets_of_Cons: "sets_of k (p # xs) = (if fst p = k then set (snd p) else {}) \<union> sets_of k xs"
  by (simp add: sets_of_def)

lemma sets_of_Nil [simp]: "sets_of k [] = {}"
  by (simp add: sets_of_def)

lemma sets_of_none [simp]: "k \<notin> fst ` set xs \<Longrightarrow> sets_of k xs = {}"
  by (force simp: sets_of_def)

lemma abs_insertMany: "mm_abs (insertMany kvs m) = store_update (InsertMany kvs) (mm_abs m)"
proof (induction kvs arbitrary: m)
  case (Cons p kvs)
  obtain k s where p: "p = (k, s)" by (cases p)
  let ?m = "AList.map_default k (remdups s) (\<lambda>old. foldl (\<lambda>s' v. List.insert v s') old s) m"
  have "mm_abs ?m j = (if j = k then Some (set s \<union> stored (mm_abs m k)) else mm_abs m j)" for j
    by (auto simp: mm_abs_def map_of_map_default set_fold_insert stored_def split: option.split)
  moreover have "insertMany (p # kvs) m = insertMany kvs ?m" by (simp add: insertMany_def p)
  ultimately show ?case by (auto simp: Cons.IH p fun_eq_iff sets_of_Cons stored_def)
qed (simp add: insertMany_def fun_eq_iff)

lemma abs_deleteValues: "mm_abs (deleteValues kvs m) = store_update (DeleteValues kvs) (mm_abs m)"
proof (induction kvs arbitrary: m)
  case (Cons p kvs)
  obtain k s where p: "p = (k, s)" by (cases p)
  let ?m = "AList.map_entry k (\<lambda>old. foldl (\<lambda>s' v. removeAll v s') old s) m"
  have "mm_abs ?m j = (if j = k then map_option (\<lambda>v. v - set s) (mm_abs m j) else mm_abs m j)" for j
    by (auto simp: mm_abs_def map_of_map_entry set_fold_remove split: option.split)
  moreover have "deleteValues (p # kvs) m = deleteValues kvs ?m" by (simp add: deleteValues_def p)
  ultimately show ?case
    by (auto simp: Cons.IH p fun_eq_iff sets_of_Cons option.map_comp comp_def intro!: option.map_cong)
qed (simp add: deleteValues_def fun_eq_iff option.map_ident)

lemma abs_deleteKeys: "mm_abs (deleteKeys ks m) = store_update (DeleteKeys ks) (mm_abs m)"
  unfolding deleteKeys_def
  by (induction ks arbitrary: m) (auto simp: fun_eq_iff mm_abs_def AList.delete_conv')

lemma set_map_default:
  "p \<in> set (AList.map_default k v f m) \<Longrightarrow> p = (k, v) \<or> p \<in> set m \<or> (\<exists>u. (k, u) \<in> set m \<and> p = (k, f u))"
  by (induction m) (auto split: if_splits)

lemma set_map_entry:
  "p \<in> set (AList.map_entry k f m) \<Longrightarrow> p \<in> set m \<or> (\<exists>u. (k, u) \<in> set m \<and> p = (k, f u))"
  by (induction m) (auto split: if_splits)

lemma wf_insertMany: "mm_wf m \<Longrightarrow> mm_wf (insertMany kvs m)"
proof (induction kvs arbitrary: m)
  case (Cons p kvs)
  obtain k s where p: "p = (k, s)" by (cases p)
  let ?m = "AList.map_default k (remdups s) (\<lambda>old. foldl (\<lambda>s' v. List.insert v s') old s) m"
  have "mm_wf ?m"
    using Cons.prems
    by (auto simp: mm_wf_def distinct_map_default distinct_folds dest!: set_map_default)
  then show ?case using Cons.IH by (simp add: insertMany_def p)
qed (simp add: insertMany_def)

lemma wf_deleteValues: "mm_wf m \<Longrightarrow> mm_wf (deleteValues kvs m)"
proof (induction kvs arbitrary: m)
  case (Cons p kvs)
  obtain k s where p: "p = (k, s)" by (cases p)
  let ?m = "AList.map_entry k (\<lambda>old. foldl (\<lambda>s' v. removeAll v s') old s) m"
  have "mm_wf ?m"
    using Cons.prems by (auto simp: mm_wf_def distinct_map_entry distinct_folds dest!: set_map_entry)
  then show ?case using Cons.IH by (simp add: deleteValues_def p)
qed (simp add: deleteValues_def)

lemma wf_deleteKeys: "mm_wf m \<Longrightarrow> mm_wf (deleteKeys ks m)"
proof (induction ks arbitrary: m)
  case (Cons k ks)
  have "mm_wf (AList.delete k m)"
    using Cons.prems AList.distinct_delete [of m k] by (auto simp: mm_wf_def AList.delete_eq)
  then show ?case using Cons.IH by (simp add: deleteKeys_def)
qed (simp add: deleteKeys_def)

lemma keys_mm: "mm_wf m \<Longrightarrow> fst ` set m = dom (mm_abs m)"
  using dom_map_of_conv_image_fst [of m] by (auto simp: mm_abs_def dom_def)

lemma sets_mm: "mm_wf m \<Longrightarrow> sets_of k m = stored (mm_abs m k)"
proof -
  have "sets_of k m = stored (mm_abs m k)" if "distinct (map fst m)"
    using that by (induction m) (auto simp: sets_of_Cons mm_abs_def stored_def)
  then show "mm_wf m \<Longrightarrow> sets_of k m = stored (mm_abs m k)" by (simp add: mm_wf_def)
qed

interpretation mm: multimap_spec mm_abs mm_wf insertMany deleteValues deleteKeys "\<lambda>m. m"
  by unfold_locales
    (rule abs_insertMany abs_deleteValues abs_deleteKeys wf_insertMany wf_deleteValues wf_deleteKeys
      keys_mm sets_mm; assumption?)+

lemma abs_applyUpdate: "mm_abs (applyUpdate u m) = store_update u (mm_abs m)"
  by (cases u) (simp_all add: mm.abs_insert mm.abs_delete_values mm.abs_delete_keys fun_eq_iff)

lemma wf_applyUpdate: "mm_wf m \<Longrightarrow> mm_wf (applyUpdate u m)"
  by (cases u) (simp_all add: mm.wf_insert mm.wf_delete_values mm.wf_delete_keys)

lemma abs_updateStore: "mm_abs (snd (updateStore us st)) = fold store_update us (mm_abs (snd st))"
proof -
  have "mm_abs (foldl (\<lambda>mm u. applyUpdate u mm) m us) = fold store_update us (mm_abs m)" for m
    by (induction us arbitrary: m) (simp_all add: abs_applyUpdate)
  then show ?thesis by (simp add: updateStore_def)
qed

lemma wf_updateStore: "mm_wf (snd st) \<Longrightarrow> mm_wf (snd (updateStore us st))"
proof -
  have "mm_wf m \<Longrightarrow> mm_wf (foldl (\<lambda>mm u. applyUpdate u mm) m us)" for m
    by (induction us arbitrary: m) (simp_all add: wf_applyUpdate)
  then show "mm_wf (snd st) \<Longrightarrow> mm_wf (snd (updateStore us st))" by (simp add: updateStore_def)
qed


section \<open>What a change log does\<close>

definition cl_abs :: "('k, 'a) ChangeLog \<Rightarrow> ('k \<Rightarrow> 'a set option) \<Rightarrow> 'k \<Rightarrow> 'a set option" where
  "cl_abs cl st = fold store_update (fromChangeLog cl) st"

text \<open>The invariants stated in the source, and the well-formedness of the multimaps.\<close>

definition cl_inv :: "('k, 'a) ChangeLog \<Rightarrow> bool" where
  "cl_inv cl \<longleftrightarrow> mm_wf (cl_is cl) \<and> mm_wf (cl_dvs cl) \<and>
     (\<forall>k. stored (mm_abs (cl_is cl) k) \<inter> stored (mm_abs (cl_dvs cl) k) = {}) \<and>
     (\<forall>k \<in> set (cl_dks cl). mm_abs (cl_is cl) k = None \<and> mm_abs (cl_dvs cl) k = None)"

text \<open>What happens to a key: its insertions, its removed values, whether it is removed, what is stored.\<close>

definition eff :: "'a set option \<Rightarrow> 'a set option \<Rightarrow> bool \<Rightarrow> 'a set option \<Rightarrow> 'a set option" where
  "eff ins del removed s =
     (if removed then None
      else if ins \<noteq> None then Some ((stored ins \<union> stored s) - stored del)
      else map_option (\<lambda>v. v - stored del) s)"

lemma cl_abs_eff:
  assumes "mm_wf is" and "mm_wf dvs"
  shows "cl_abs (ChangeLog is dvs dks mi) st k = eff (mm_abs is k) (mm_abs dvs k) (k \<in> set dks) (st k)"
  using mm.keys_to_list [OF assms(1)] mm.sets_to_list [OF assms(1)] mm.sets_to_list [OF assms(2)]
  by (auto simp: cl_abs_def eff_def domIff split: option.split)

lemma eff_update:
  "stored ins \<inter> stored del = {} \<Longrightarrow>
    eff (Some (S \<union> stored ins)) (map_option (\<lambda>v. v - S) del) False s = Some (S \<union> stored (eff ins del False s))"
  "stored ins \<inter> stored del = {} \<Longrightarrow>
    eff (map_option (\<lambda>v. v - S) ins) (Some (S \<union> stored del)) False s = map_option (\<lambda>v. v - S) (eff ins del False s)"
  "eff ins del True s = None" "eff ins (map_option (\<lambda>v. v - {}) del) r s = eff ins del r s"
  by (cases ins; cases del; cases s; auto simp: eff_def)+

lemma set_foldr:
  "set (foldr removeAll ks dks) = set dks - set ks" "set (foldr List.insert ks dks) = set dks \<union> set ks"
  by (induction ks) auto

lemma stored_update:
  "stored (store_update (InsertMany xs) st k) = sets_of k xs \<union> stored (st k)"
  "stored (store_update (DeleteValues xs) st k) = stored (st k) - sets_of k xs"
  "stored (store_update (DeleteKeys ks) st k) = (if k \<in> set ks then {} else stored (st k))"
  by (auto simp: stored_def split: option.split)

lemma sets_of_filter:
  "sets_of k (filter (\<lambda>kv. fst kv \<notin> A) xs) = (if k \<in> A then {} else sets_of k xs)"
  by (auto simp: sets_of_def)

lemma keys_filter: "k \<in> fst ` set (filter (\<lambda>kv. fst kv \<notin> A) xs) \<longleftrightarrow> k \<in> fst ` set xs \<and> k \<notin> A"
  by force

lemma cl_inv_update: "cl_inv cl \<Longrightarrow> cl_inv (updateChangeLog u cl)"
proof -
  obtain "is" dvs dks mi where cl: "cl = ChangeLog is dvs dks mi" by (cases cl)
  assume "cl_inv cl"
  then have inv: "mm_wf is" "mm_wf dvs" "\<And>k. stored (mm_abs is k) \<inter> stored (mm_abs dvs k) = {}"
      "\<And>k. k \<in> set dks \<Longrightarrow> mm_abs is k = None \<and> mm_abs dvs k = None"
    by (auto simp: cl_inv_def cl)
  show "cl_inv (updateChangeLog u cl)"
  proof (cases u)
    case (InsertMany kvs)
    show ?thesis
      using inv mm.wf_insert mm.wf_delete_values
      by (auto simp: cl_inv_def cl InsertMany mm.abs_insert mm.abs_delete_values stored_update set_foldr
          simp del: store_update.simps) (auto)
  next
    case (DeleteValues kvs)
    show ?thesis
      using inv mm.wf_insert mm.wf_delete_values
      by (auto simp: cl_inv_def cl DeleteValues mm.abs_insert mm.abs_delete_values stored_update
          sets_of_filter simp del: store_update.simps split: if_splits) auto
  next
    case (DeleteKeys ks)
    show ?thesis
      using inv mm.wf_delete_keys
      by (auto simp: cl_inv_def cl DeleteKeys mm.abs_delete_keys set_foldr stored_def)
  next
    case (SetMetaInfo m)
    show ?thesis using inv by (simp add: cl_inv_def cl SetMetaInfo)
  qed
qed

lemma cl_inv_empty: "cl_inv emptyChangeLog"
  by (simp add: cl_inv_def emptyChangeLog_def mm_wf_def mm_abs_def stored_def)

text \<open>
  The three invariants of a change log that the source states hold after any updates: an inserted
  edge is not among the removed ones, and an inserted node and a node with removed edges are not among
  the removed nodes.
\<close>

theorem changelog_invariant: "cl_inv (fold updateChangeLog us emptyChangeLog)"
proof -
  have "cl_inv (fold updateChangeLog us cl)" if "cl_inv cl" for cl :: "('a, 'b) ChangeLog"
    using that by (induction us arbitrary: cl) (simp_all add: cl_inv_update)
  then show ?thesis by (simp add: cl_inv_empty)
qed

text \<open>An update inserts again a key that has been removed since the change log was empty.\<close>

fun reinserts :: "('k, 'a) StoreUpdate \<Rightarrow> ('k, 'a) ChangeLog \<Rightarrow> bool" where
  "reinserts (InsertMany kvs) cl \<longleftrightarrow> fst ` set kvs \<inter> set (cl_dks cl) \<noteq> {}"
| "reinserts u cl \<longleftrightarrow> False"

lemma updateChangeLog_eff:
  assumes "cl_inv cl" and "\<not> reinserts u cl"
  shows "cl_abs (updateChangeLog u cl) st = store_update u (cl_abs cl st)"
proof
  fix k
  obtain "is" dvs dks mi where cl: "cl = ChangeLog is dvs dks mi" by (cases cl)
  have inv: "mm_wf is" "mm_wf dvs" "stored (mm_abs is k) \<inter> stored (mm_abs dvs k) = {}"
      "k \<in> set dks \<Longrightarrow> mm_abs is k = None \<and> mm_abs dvs k = None"
    using assms(1) by (auto simp: cl_inv_def cl)
  show "cl_abs (updateChangeLog u cl) st k = store_update u (cl_abs cl st) k"
  proof (cases u)
    case (InsertMany kvs)
    have "k \<notin> set dks" if "k \<in> fst ` set kvs" using assms(2) that by (auto simp: InsertMany cl)
    then show ?thesis
      using inv(1-3)
      by (cases "k \<in> fst ` set kvs")
        (simp_all add: InsertMany cl cl_abs_eff mm.wf_insert mm.wf_delete_values mm.abs_insert
          mm.abs_delete_values set_foldr eff_update option.map_ident)
  next
    case (DeleteValues kvs)
    have "eff (mm_abs (deleteValues kvs is) k) (mm_abs (insertMany (filter (\<lambda>kv. fst kv \<notin> set dks) kvs) dvs) k)
        (k \<in> set dks) (st k) =
      map_option (\<lambda>v. v - sets_of k kvs) (eff (mm_abs is k) (mm_abs dvs k) (k \<in> set dks) (st k))"
      using inv(3)
      by (cases "k \<in> fst ` set kvs"; cases "k \<in> set dks")
        (simp_all add: mm.abs_insert mm.abs_delete_values sets_of_filter keys_filter eff_update option.map_ident
          del: set_filter)
    then show ?thesis
      using inv(1,2) by (simp add: cl DeleteValues cl_abs_eff mm.wf_insert mm.wf_delete_values)
  next
    case (DeleteKeys ks)
    then show ?thesis
      using inv(1,2) by (auto simp: cl cl_abs_eff mm.wf_delete_keys mm.abs_delete_keys set_foldr eff_def)
  next
    case (SetMetaInfo m)
    then show ?thesis using inv(1,2) by (simp add: cl cl_abs_eff)
  qed
qed

text \<open>
  C20. The change log is equivalent to the updates it was made of, as the source says, if no update
  inserts a key again that an earlier one has removed: adding an update to the log and applying the log
  to a store gives what applying the log and then the update gives.
\<close>

theorem changelog_equivalent:
  assumes "cl_inv cl" and "\<not> reinserts u cl"
  shows "cl_abs (updateChangeLog u cl) st = store_update u (cl_abs cl st)"
  using assms by (rule updateChangeLog_eff)

theorem changelog_equivalent_witness:
  "cl_abs (updateChangeLog (InsertMany [(1 :: nat, ''b'')]) (updateChangeLog (DeleteKeys [2]) emptyChangeLog))
      [1 \<mapsto> {CHR ''a''}, 2 \<mapsto> {CHR ''c''}] =
   store_update (InsertMany [(1, ''b'')])
     (cl_abs (updateChangeLog (DeleteKeys [2]) emptyChangeLog) [1 \<mapsto> {CHR ''a''}, 2 \<mapsto> {CHR ''c''}])"
  by (rule changelog_equivalent [OF cl_inv_update [OF cl_inv_empty]]) (simp add: emptyChangeLog_def)

text \<open>
  The equivalence fails in the remaining case. Removing a key and inserting it again drops the
  removal from the log, so that the values a store had for the key are still there after the log is
  applied, although the updates one after the other leave only the new value.
\<close>

theorem changelog_forgets_removal:
  assumes "st k = Some s" and "v \<notin> s" and "s \<noteq> {}"
  shows "fold store_update [DeleteKeys [k], InsertMany [(k, [v])]] st k = Some {v} \<and>
    cl_abs (fold updateChangeLog [DeleteKeys [k], InsertMany [(k, [v])]] emptyChangeLog) st k =
      Some (insert v s)"
  using assms
  by (simp add: emptyChangeLog_def cl_abs_def sets_of_def insertMany_def deleteValues_def deleteKeys_def)

text \<open>
  \<open>SetMetaInfo\<close> is to overwrite any old value, but a replica that receives two of them in one
  batch, as it does when two synchronisations are replicated together, keeps the first.
\<close>

theorem batch_keeps_first_meta:
  "fst (updateStore (fromChangeLog (updateChangeLog (SetMetaInfo m1) cl) @
      fromChangeLog (updateChangeLog (SetMetaInfo m2) cl')) st) = m1 \<and>
   fst (updateStore (fromChangeLog (updateChangeLog (SetMetaInfo m2) cl'))
      (updateStore (fromChangeLog (updateChangeLog (SetMetaInfo m1) cl)) st)) = m2"
  by (cases cl; cases cl') (simp add: updateStore_def)

end
