(* ===== verification/Resource_Graph.thy ===== *)
theory Resource_Graph
  imports Graph_Store
begin

text \<open>
  The resource graph (\<^verbatim>\<open>ResourceGraph.hs\<close>, \<^verbatim>\<open>ResourceGraph/GraphLike.hs\<close>): resources of any type, connected
  by relations. A resource is its type and its value; a relation, whose type has a single value, is
  that type. The serialisation of resources and relations is the parameter \<open>codec\<close>.
\<close>

section \<open>Resources and relations\<close>

datatype ('t, 'v) Res = Res (res_type: 't) (res_value: 'v)

datatype ('t, 'v, 'r) Rel =
    InRel 'r "('t, 'v) Res" "('t, 'v) Res"
  | OutRel 'r "('t, 'v) Res" "('t, 'v) Res"

fun isOut :: "('t, 'v, 'r) Rel \<Rightarrow> bool" where
  "isOut (OutRel r s d) = True"
| "isOut (InRel r s d) = False"

definition isIn :: "('t, 'v, 'r) Rel \<Rightarrow> bool" where
  "isIn rel = (\<not> isOut rel)"

fun invert :: "('t, 'v, 'r) Rel \<Rightarrow> ('t, 'v, 'r) Rel" where
  "invert (OutRel r s d) = InRel r s d"
| "invert (InRel r s d) = OutRel r s d"

text \<open>\<open>explodeRel\<close>\<close>

fun rel_src :: "('t, 'v, 'r) Rel \<Rightarrow> ('t, 'v) Res" where
  "rel_src (OutRel r s d) = s"
| "rel_src (InRel r s d) = s"

fun rel_type :: "('t, 'v, 'r) Rel \<Rightarrow> 'r" where
  "rel_type (OutRel r s d) = r"
| "rel_type (InRel r s d) = r"

fun rel_dst :: "('t, 'v, 'r) Rel \<Rightarrow> ('t, 'v) Res" where
  "rel_dst (OutRel r s d) = d"
| "rel_dst (InRel r s d) = d"

record ('t, 'v, 'r, 'k, 'a) codec =
  encRes :: "('t, 'v) Res \<Rightarrow> 'k"
  encRel :: "('t, 'v, 'r) Rel \<Rightarrow> 'a"
  decRes :: "'k \<Rightarrow> ('t, 'v) Res"
  decRel :: "'a \<Rightarrow> ('t, 'v, 'r) Rel"

section \<open>The graph\<close>

record ('t, 'v) GraphGCInfo =
  grSinceGC :: int
  grGCThreshold :: int
  grRootNodes :: "('t, 'v) Res list"

record ('t, 'v, 'r, 'k, 'a) Graph =
  grChangeLog :: "('k, 'a) ChangeLog"
  grGraph :: "(('t, 'v) Res, ('t, 'v, 'r) Rel) multimap"
  grGraphGCInfo :: "('t, 'v) GraphGCInfo"

definition emptyGraph :: "('t, 'v, 'r, 'k, 'a) Graph" where
  "emptyGraph = \<lparr>grChangeLog = emptyChangeLog, grGraph = [],
     grGraphGCInfo = \<lparr>grSinceGC = 0, grGCThreshold = 100, grRootNodes = []\<rparr>\<rparr>"

definition memberResource :: "('t, 'v) Res \<Rightarrow> ('t, 'v, 'r, 'k, 'a) Graph \<Rightarrow> bool" where
  "memberResource x g = (map_of (grGraph g) x \<noteq> None)"

definition lookupRes :: "('t, 'v) Res \<Rightarrow> ('t, 'v, 'r, 'k, 'a) Graph \<Rightarrow> ('t, 'v, 'r) Rel list" where
  "lookupRes x g = (case map_of (grGraph g) x of None \<Rightarrow> [] | Some rels \<Rightarrow> rels)"

definition memberEdge ::
  "('t, 'v) Res \<Rightarrow> 'r \<Rightarrow> ('t, 'v) Res \<Rightarrow> ('t, 'v, 'r, 'k, 'a) Graph \<Rightarrow> bool" where
  "memberEdge s r d g = (OutRel r s d \<in> set (filter isOut (lookupRes s g)))"

definition memberEdgeBack ::
  "('t, 'v) Res \<Rightarrow> 'r \<Rightarrow> ('t, 'v) Res \<Rightarrow> ('t, 'v, 'r, 'k, 'a) Graph \<Rightarrow> bool" where
  "memberEdgeBack s r d g = (InRel r s d \<in> set (filter isIn (lookupRes d g)))"

text \<open>
  The edges with the given relation between resources of the given types. An edge is its source,
  its relation and its destination.
\<close>

type_synonym ('t, 'v, 'r) edge = "('t, 'v) Res \<times> 'r \<times> ('t, 'v) Res"

definition decodeRel :: "'t \<Rightarrow> 'r \<Rightarrow> 't \<Rightarrow> ('t, 'v, 'r) Rel \<Rightarrow> ('t, 'v, 'r) edge option" where
  "decodeRel a r b rel =
     (if res_type (rel_src rel) = a \<and> rel_type rel = r \<and> res_type (rel_dst rel) = b
      then Some (rel_src rel, r, rel_dst rel) else None)"

definition edgesFromSrc ::
  "('t, 'v) Res \<Rightarrow> 'r \<Rightarrow> 't \<Rightarrow> ('t, 'v, 'r, 'k, 'a) Graph \<Rightarrow> ('t, 'v, 'r) edge list" where
  "edgesFromSrc x r b g =
     List.map_filter (decodeRel (res_type x) r b) (filter isOut (lookupRes x g))"

definition edgesToDst ::
  "'t \<Rightarrow> 'r \<Rightarrow> ('t, 'v) Res \<Rightarrow> ('t, 'v, 'r, 'k, 'a) Graph \<Rightarrow> ('t, 'v, 'r) edge list" where
  "edgesToDst a r x g =
     List.map_filter (decodeRel a r (res_type x)) (filter isIn (lookupRes x g))"

definition anyConnectedTo ::
  "('t, 'v) Res \<Rightarrow> 'r \<Rightarrow> ('t, 'v, 'r, 'k, 'a) Graph \<Rightarrow> ('t, 'v) Res list" where
  "anyConnectedTo x r g = map rel_dst (filter (\<lambda>rel. rel_type rel = r) (filter isOut (lookupRes x g)))"

definition anyConnectedFrom ::
  "'r \<Rightarrow> ('t, 'v) Res \<Rightarrow> ('t, 'v, 'r, 'k, 'a) Graph \<Rightarrow> ('t, 'v) Res list" where
  "anyConnectedFrom r x g = map rel_src (filter (\<lambda>rel. rel_type rel = r) (filter isIn (lookupRes x g)))"

text \<open>The resources of a given type only; where at most one is declared, the caller gets the first.\<close>

definition connectedTo ::
  "('t, 'v) Res \<Rightarrow> 'r \<Rightarrow> 't \<Rightarrow> ('t, 'v, 'r, 'k, 'a) Graph \<Rightarrow> ('t, 'v) Res list" where
  "connectedTo x r b g = filter (\<lambda>y. res_type y = b) (anyConnectedTo x r g)"

definition connectedFrom ::
  "'t \<Rightarrow> 'r \<Rightarrow> ('t, 'v) Res \<Rightarrow> ('t, 'v, 'r, 'k, 'a) Graph \<Rightarrow> ('t, 'v) Res list" where
  "connectedFrom a r y g = filter (\<lambda>x. res_type x = a) (anyConnectedFrom r y g)"

section \<open>Garbage collection information\<close>

definition to_meta ::
  "('t, 'v, 'r, 'k, 'a) codec \<Rightarrow> ('t, 'v) GraphGCInfo \<Rightarrow> 'k MetaInfo" where
  "to_meta c gi = \<lparr>miSinceGC = grSinceGC gi, miGCThreshold = grGCThreshold gi,
     miRootNodes = map (encRes c) (grRootNodes gi)\<rparr>"

definition modifyGCInfo ::
  "('t, 'v, 'r, 'k, 'a) codec \<Rightarrow> (('t, 'v) GraphGCInfo \<Rightarrow> ('t, 'v) GraphGCInfo) \<Rightarrow>
   ('t, 'v, 'r, 'k, 'a) Graph \<Rightarrow> ('t, 'v, 'r, 'k, 'a) Graph" where
  "modifyGCInfo c f g =
     g\<lparr>grGraphGCInfo := f (grGraphGCInfo g),
       grChangeLog := updateChangeLog (SetMetaInfo (to_meta c (f (grGraphGCInfo g)))) (grChangeLog g)\<rparr>"

definition modifySinceGC ::
  "('t, 'v, 'r, 'k, 'a) codec \<Rightarrow> (int \<Rightarrow> int) \<Rightarrow> ('t, 'v, 'r, 'k, 'a) Graph \<Rightarrow> ('t, 'v, 'r, 'k, 'a) Graph" where
  "modifySinceGC c f = modifyGCInfo c (\<lambda>gi. gi\<lparr>grSinceGC := f (grSinceGC gi)\<rparr>)"

definition modifyGCThreshold ::
  "('t, 'v, 'r, 'k, 'a) codec \<Rightarrow> (int \<Rightarrow> int) \<Rightarrow> ('t, 'v, 'r, 'k, 'a) Graph \<Rightarrow> ('t, 'v, 'r, 'k, 'a) Graph" where
  "modifyGCThreshold c f = modifyGCInfo c (\<lambda>gi. gi\<lparr>grGCThreshold := f (grGCThreshold gi)\<rparr>)"

definition modifyRootNodes ::
  "('t, 'v, 'r, 'k, 'a) codec \<Rightarrow> (('t, 'v) Res list \<Rightarrow> ('t, 'v) Res list) \<Rightarrow>
   ('t, 'v, 'r, 'k, 'a) Graph \<Rightarrow> ('t, 'v, 'r, 'k, 'a) Graph" where
  "modifyRootNodes c f = modifyGCInfo c (\<lambda>gi. gi\<lparr>grRootNodes := f (grRootNodes gi)\<rparr>)"

definition incrementGC ::
  "('t, 'v, 'r, 'k, 'a) codec \<Rightarrow> ('t, 'v, 'r, 'k, 'a) Graph \<Rightarrow> ('t, 'v, 'r, 'k, 'a) Graph" where
  "incrementGC c = modifySinceGC c (\<lambda>n. n + 1)"

section \<open>Changing the graph\<close>

text \<open>The graph and its change log together.\<close>

definition over_both ::
  "('k, 'a) StoreUpdate \<Rightarrow>
   ((('t, 'v) Res, ('t, 'v, 'r) Rel) multimap \<Rightarrow> (('t, 'v) Res, ('t, 'v, 'r) Rel) multimap) \<Rightarrow>
   ('t, 'v, 'r, 'k, 'a) Graph \<Rightarrow> ('t, 'v, 'r, 'k, 'a) Graph" where
  "over_both u f g = g\<lparr>grChangeLog := updateChangeLog u (grChangeLog g), grGraph := f (grGraph g)\<rparr>"

definition deleteEdge ::
  "('t, 'v, 'r, 'k, 'a) codec \<Rightarrow> ('t, 'v, 'r) edge \<Rightarrow> ('t, 'v, 'r, 'k, 'a) Graph \<Rightarrow>
   ('t, 'v, 'r, 'k, 'a) Graph" where
  "deleteEdge c e g = (case e of (src, r, dst) \<Rightarrow>
     incrementGC c
       (if memberResource src g \<and> OutRel r src dst \<in> set (filter isOut (lookupRes src g)) \<and>
          memberResource dst g
        then let rel = OutRel r src dst in
          over_both
            (DeleteValues [(encRes c src, [encRel c rel]), (encRes c dst, [encRel c (invert rel)])])
            (AList.map_entry src (removeAll rel) \<circ> AList.map_entry dst (removeAll (invert rel))) g
        else g))"

definition disconnectAllFrom ::
  "('t, 'v, 'r, 'k, 'a) codec \<Rightarrow> ('t, 'v) Res \<Rightarrow> 'r \<Rightarrow> 't \<Rightarrow> ('t, 'v, 'r, 'k, 'a) Graph \<Rightarrow>
   ('t, 'v, 'r, 'k, 'a) Graph" where
  "disconnectAllFrom c x r b g = foldl (\<circ>) id (map (deleteEdge c) (edgesFromSrc x r b g)) g"

definition disconnectAllTo ::
  "('t, 'v, 'r, 'k, 'a) codec \<Rightarrow> 't \<Rightarrow> 'r \<Rightarrow> ('t, 'v) Res \<Rightarrow> ('t, 'v, 'r, 'k, 'a) Graph \<Rightarrow>
   ('t, 'v, 'r, 'k, 'a) Graph" where
  "disconnectAllTo c a r y g = foldl (\<circ>) id (map (deleteEdge c) (edgesToDst a r y g)) g"

text \<open>The other end of a relation that a resource has.\<close>

definition remote_end :: "('t, 'v, 'r) Rel \<Rightarrow> ('t, 'v) Res" where
  "remote_end rel = (if isIn rel then rel_src rel else rel_dst rel)"

definition removeResource ::
  "('t, 'v, 'r, 'k, 'a) codec \<Rightarrow> ('t, 'v) Res \<Rightarrow> ('t, 'v, 'r, 'k, 'a) Graph \<Rightarrow>
   ('t, 'v, 'r, 'k, 'a) Graph" where
  "removeResource c x g =
     (if memberResource x g
      then let rels = lookupRes x g in
        g\<lparr>grGraph := AList.delete x (foldl (\<circ>) id
             (map (\<lambda>rel. AList.map_entry (remote_end rel) (removeAll (invert rel))) rels) (grGraph g)),
          grChangeLog := updateChangeLog (DeleteKeys [encRes c x])
             (updateChangeLog
               (DeleteValues (map (\<lambda>rel. (encRes c (remote_end rel), [encRel c (invert rel)])) rels))
               (grChangeLog g))\<rparr>
      else g)"

definition connectUnbounded ::
  "('t, 'v, 'r, 'k, 'a) codec \<Rightarrow> ('t, 'v) Res \<Rightarrow> 'r \<Rightarrow> ('t, 'v) Res \<Rightarrow> ('t, 'v, 'r, 'k, 'a) Graph \<Rightarrow>
   ('t, 'v, 'r, 'k, 'a) Graph" where
  "connectUnbounded c x r y =
     over_both
       (InsertMany [(encRes c x, [encRel c (OutRel r x y)]), (encRes c y, [encRel c (InRel r x y)])])
       (AList.map_default x [OutRel r x y] (List.union [OutRel r x y]) \<circ>
        AList.map_default y [InRel r x y] (List.union [InRel r x y]))"

definition connectUnique ::
  "('t, 'v, 'r, 'k, 'a) codec \<Rightarrow> ('t, 'v) Res \<Rightarrow> 'r \<Rightarrow> ('t, 'v) Res \<Rightarrow> ('t, 'v, 'r, 'k, 'a) Graph \<Rightarrow>
   ('t, 'v, 'r, 'k, 'a) Graph" where
  "connectUnique c x r y =
     connectUnbounded c x r y \<circ> disconnectAllFrom c x r (res_type y) \<circ> disconnectAllTo c (res_type x) r y"

definition connectUniqueFrom ::
  "('t, 'v, 'r, 'k, 'a) codec \<Rightarrow> ('t, 'v) Res \<Rightarrow> 'r \<Rightarrow> ('t, 'v) Res \<Rightarrow> ('t, 'v, 'r, 'k, 'a) Graph \<Rightarrow>
   ('t, 'v, 'r, 'k, 'a) Graph" where
  "connectUniqueFrom c x r y = connectUnbounded c x r y \<circ> disconnectAllFrom c x r (res_type y)"

definition connectUniqueTo ::
  "('t, 'v, 'r, 'k, 'a) codec \<Rightarrow> ('t, 'v) Res \<Rightarrow> 'r \<Rightarrow> ('t, 'v) Res \<Rightarrow> ('t, 'v, 'r, 'k, 'a) Graph \<Rightarrow>
   ('t, 'v, 'r, 'k, 'a) Graph" where
  "connectUniqueTo c x r y = connectUnbounded c x r y \<circ> disconnectAllTo c (res_type x) r y"

datatype Cardinality = AtMostOne | Unbounded

text \<open>
  \<open>connect\<close>: \<open>cards r a b\<close> is the pair of cardinalities that the instance of the relation \<open>r\<close> from type
  \<open>a\<close> to type \<open>b\<close> declares.
\<close>

definition connect ::
  "('t, 'v, 'r, 'k, 'a) codec \<Rightarrow> ('r \<Rightarrow> 't \<Rightarrow> 't \<Rightarrow> Cardinality \<times> Cardinality) \<Rightarrow>
   ('t, 'v) Res \<Rightarrow> 'r \<Rightarrow> ('t, 'v) Res \<Rightarrow> ('t, 'v, 'r, 'k, 'a) Graph \<Rightarrow> ('t, 'v, 'r, 'k, 'a) Graph" where
  "connect c cards x r y =
     (case cards r (res_type x) (res_type y) of
        (AtMostOne, AtMostOne) \<Rightarrow> connectUnique c x r y
      | (AtMostOne, Unbounded) \<Rightarrow> connectUniqueTo c x r y
      | (Unbounded, AtMostOne) \<Rightarrow> connectUniqueFrom c x r y
      | (Unbounded, Unbounded) \<Rightarrow> connectUnbounded c x r y)"

section \<open>Garbage collection\<close>

text \<open>\<open>go\<close>: what is left white when nothing is grey any more.\<close>

definition next_greys ::
  "('t, 'v, 'r, 'k, 'a) Graph \<Rightarrow> ('t, 'v) Res list \<Rightarrow> ('t, 'v) Res list" where
  "next_greys g grey = concat (map (\<lambda>x. map remote_end (lookupRes x g)) grey)"

function gc_go ::
  "('t, 'v, 'r, 'k, 'a) Graph \<Rightarrow> ('t, 'v) Res list \<Rightarrow> ('t, 'v) Res list \<Rightarrow> ('t, 'v) Res list" where
  "gc_go g white grey =
     (if grey = [] then white
      else let grey' = filter (\<lambda>x. x \<in> set (next_greys g grey)) white in
        gc_go g (filter (\<lambda>x. x \<notin> set grey') white) grey')"
  by pat_completeness auto
termination
proof (relation "measure (\<lambda>(g, white, grey). 2 * length white + (if grey = [] then 0 else 1))", goal_cases)
  case (2 g white grey grey')
  have "length (filter (\<lambda>x. x \<notin> set grey') white) < length white" if "grey' \<noteq> []"
  proof (rule length_filter_less)
    show "hd grey' \<in> set white" "\<not> hd grey' \<notin> set grey'"
      using hd_in_set [OF that] unfolding 2(2) by auto
  qed
  then show ?case
    using 2(1) length_filter_le [of "\<lambda>x. x \<notin> set grey'" white] by (auto split: if_splits)
qed simp

declare gc_go.simps [simp del]

definition garbageCollect ::
  "('t, 'v, 'r, 'k, 'a) codec \<Rightarrow> ('t, 'v) Res list \<Rightarrow> ('t, 'v, 'r, 'k, 'a) Graph \<Rightarrow>
   ('t, 'v, 'r, 'k, 'a) Graph" where
  "garbageCollect c grey g =
     (let white = gc_go g (filter (\<lambda>x. x \<notin> set grey) (map fst (grGraph g))) grey in
      over_both (DeleteKeys (map (encRes c) white)) (fold AList.delete white) g)"

definition garbageCollectRoot ::
  "('t, 'v, 'r, 'k, 'a) codec \<Rightarrow> ('t, 'v, 'r, 'k, 'a) Graph \<Rightarrow> ('t, 'v, 'r, 'k, 'a) Graph" where
  "garbageCollectRoot c g =
     modifySinceGC c (\<lambda>_. 0) (garbageCollect c (grRootNodes (grGraphGCInfo g)) g)"

section \<open>Synchronisation with the store\<close>

definition shouldGC :: "('t, 'v, 'r, 'k, 'a) Graph \<Rightarrow> bool" where
  "shouldGC g = (grGCThreshold (grGraphGCInfo g) > 0 \<and>
     grSinceGC (grGraphGCInfo g) \<ge> grGCThreshold (grGraphGCInfo g))"

text \<open>\<open>sync\<close>, the store being updated at once.\<close>

definition sync ::
  "('t, 'v, 'r, 'k, 'a) codec \<Rightarrow> ('t, 'v, 'r, 'k, 'a) Graph \<Rightarrow> 'k MetaInfo \<times> ('k, 'a) multimap \<Rightarrow>
   ('t, 'v, 'r, 'k, 'a) Graph \<times> 'k MetaInfo \<times> ('k, 'a) multimap" where
  "sync c g st =
     (let g' = (if shouldGC g then garbageCollectRoot c g else g) in
      (g'\<lparr>grChangeLog := emptyChangeLog\<rparr>, updateStore (fromChangeLog (grChangeLog g')) st))"

definition buildGraph ::
  "('t, 'v, 'r, 'k, 'a) codec \<Rightarrow> 'k MetaInfo \<times> ('k, 'a) multimap \<Rightarrow> ('t, 'v, 'r, 'k, 'a) Graph" where
  "buildGraph c st =
     \<lparr>grChangeLog = emptyChangeLog,
      grGraph = foldl (\<lambda>m (k, vs). AList.update (decRes c k) (remdups (map (decRel c) vs)) m) [] (snd st),
      grGraphGCInfo = \<lparr>grSinceGC = miSinceGC (fst st), grGCThreshold = miGCThreshold (fst st),
        grRootNodes = map (decRes c) (miRootNodes (fst st))\<rparr>\<rparr>"

end
