(* ===== verification/Graph_Invariants.thy ===== *)
theory Graph_Invariants
  imports Resource_Graph
begin

text \<open>
  Every operation on the resource graph changes the graph and the change log by the same updates. From
  this follow the invariants of the graph: both ends of an edge know of it, and the cardinalities that
  relations declare are respected. Garbage collection removes what is not connected to the roots.
\<close>

section \<open>Operations as updates\<close>

text \<open>
  \<open>logged c us g g'\<close>: from \<open>g\<close> to \<open>g'\<close> the graph has changed by the updates \<open>us\<close>, and the same updates,
  encoded, have been added to the change log.
\<close>

fun enc_update ::
  "('t, 'v, 'r, 'k, 'a) codec \<Rightarrow> (('t, 'v) Res, ('t, 'v, 'r) Rel) StoreUpdate \<Rightarrow> ('k, 'a) StoreUpdate" where
  "enc_update c (InsertMany kvs) = InsertMany (map (\<lambda>(x, rels). (encRes c x, map (encRel c) rels)) kvs)"
| "enc_update c (DeleteValues kvs) = DeleteValues (map (\<lambda>(x, rels). (encRes c x, map (encRel c) rels)) kvs)"
| "enc_update c (DeleteKeys ks) = DeleteKeys (map (encRes c) ks)"
| "enc_update c (SetMetaInfo mi) = SetMetaInfo \<lparr>miSinceGC = miSinceGC mi,
     miGCThreshold = miGCThreshold mi, miRootNodes = map (encRes c) (miRootNodes mi)\<rparr>"

definition logged ::
  "('t, 'v, 'r, 'k, 'a) codec \<Rightarrow> (('t, 'v) Res, ('t, 'v, 'r) Rel) StoreUpdate list \<Rightarrow>
   ('t, 'v, 'r, 'k, 'a) Graph \<Rightarrow> ('t, 'v, 'r, 'k, 'a) Graph \<Rightarrow> bool" where
  "logged c us g g' \<longleftrightarrow>
     mm_abs (grGraph g') = fold store_update us (mm_abs (grGraph g)) \<and>
     grChangeLog g' = fold updateChangeLog (map (enc_update c) us) (grChangeLog g) \<and>
     (mm_wf (grGraph g) \<longrightarrow> mm_wf (grGraph g'))"

lemma logged_nil: "logged c [] g g"
  by (simp add: logged_def)

lemma logged_append: "logged c us g g1 \<Longrightarrow> logged c vs g1 g2 \<Longrightarrow> logged c (us @ vs) g g2"
  by (simp add: logged_def)

text \<open>The lookups of the graph in terms of its abstraction.\<close>

definition rels :: "('t, 'v, 'r, 'k, 'a) Graph \<Rightarrow> ('t, 'v) Res \<Rightarrow> ('t, 'v, 'r) Rel set" where
  "rels g x = stored (mm_abs (grGraph g) x)"

lemma set_lookupRes: "set (lookupRes x g) = rels g x"
  by (cases "map_of (grGraph g) x") (simp_all add: lookupRes_def rels_def mm_abs_def)

lemma memberResource_abs: "memberResource x g \<longleftrightarrow> mm_abs (grGraph g) x \<noteq> None"
  by (simp add: memberResource_def mm_abs_def)

lemma rels_member: "rel \<in> rels g x \<Longrightarrow> memberResource x g"
  by (cases "mm_abs (grGraph g) x") (auto simp: rels_def memberResource_abs)

lemma memberEdge_rels:
  "memberEdge s r d g \<longleftrightarrow> OutRel r s d \<in> rels g s" "memberEdgeBack s r d g \<longleftrightarrow> InRel r s d \<in> rels g d"
  by (simp_all add: memberEdge_def memberEdgeBack_def set_lookupRes isIn_def)

lemma invert_simps [simp]: "invert (invert rel) = rel" "isOut (invert rel) = (\<not> isOut rel)"
  by (cases rel; simp)+

definition local_end :: "('t, 'v, 'r) Rel \<Rightarrow> ('t, 'v) Res" where
  "local_end rel = remote_end (invert rel)"

lemma ends [simp]:
  "remote_end (OutRel r s d) = d" "remote_end (InRel r s d) = s"
  "local_end (OutRel r s d) = s" "local_end (InRel r s d) = d"
  "local_end (invert rel) = remote_end rel" "remote_end (invert rel) = local_end rel"
  by (simp_all add: remote_end_def local_end_def isIn_def)

subsection \<open>Each operation\<close>

lemma logged_meta: "\<exists>mi. logged c [SetMetaInfo mi] g (modifyGCInfo c f g)"
  by (rule exI [of _ "\<lparr>miSinceGC = grSinceGC (f (grGraphGCInfo g)),
        miGCThreshold = grGCThreshold (f (grGraphGCInfo g)), miRootNodes = grRootNodes (f (grGraphGCInfo g))\<rparr>"])
    (simp add: logged_def modifyGCInfo_def to_meta_def fun_eq_iff)

text \<open>The hash map operations of the source, one entry at a time.\<close>

lemma map_entry_deleteValues: "AList.map_entry x (removeAll rel) m = deleteValues [(x, [rel])] m"
  by (simp add: deleteValues_def)

lemma deleteValues_append: "deleteValues (xs @ ys) m = deleteValues ys (deleteValues xs m)"
  by (simp add: deleteValues_def)

lemma map_default_insertMany:
  "AList.map_default x [rel] (List.union [rel]) m = insertMany [(x, [rel])] m"
  by (simp add: insertMany_def List.union_def)

lemma insertMany_append: "insertMany (xs @ ys) m = insertMany ys (insertMany xs m)"
  by (simp add: insertMany_def)

lemma fold_delete: "fold AList.delete ks m = deleteKeys ks m"
  by (simp add: deleteKeys_def foldl_conv_fold)

lemma foldl_comp: "foldl (\<circ>) f (map h xs) g = f (foldr h xs g)"
  by (induction xs arbitrary: f) simp_all

lemma deleteValues_swap:
  "mm_abs (deleteValues [a] (deleteValues [b] m)) = store_update (DeleteValues [b, a]) (mm_abs m)"
  "mm_abs (deleteValues [a] (deleteValues [b] m)) = store_update (DeleteValues [a, b]) (mm_abs m)"
  unfolding mm.abs_delete_values [symmetric] deleteValues_append [symmetric]
  by (simp_all add: mm.abs_delete_values fun_eq_iff sets_of_Cons Un_commute)

lemma insertMany_swap:
  "mm_abs (insertMany [a] (insertMany [b] m)) = store_update (InsertMany [a, b]) (mm_abs m)"
  by (auto simp: mm.abs_insert fun_eq_iff sets_of_Cons)

text \<open>Removals of edges, which leave keys alone.\<close>

fun removes_edges :: "('k, 'a) StoreUpdate \<Rightarrow> bool" where
  "removes_edges (DeleteValues kvs) = True"
| "removes_edges (SetMetaInfo mi) = True"
| "removes_edges u = False"

definition edge_removal ::
  "('t, 'v, 'r, 'k, 'a) Graph \<Rightarrow> ('t, 'v, 'r) edge \<Rightarrow> (('t, 'v) Res, ('t, 'v, 'r) Rel) StoreUpdate list" where
  "edge_removal g e = (case e of (s, r, d) \<Rightarrow>
     if OutRel r s d \<in> rels g s \<and> memberResource d g
     then [DeleteValues [(s, [OutRel r s d]), (d, [InRel r s d])]] else [])"

lemma logged_deleteEdge: "\<exists>mi. logged c (edge_removal g e @ [SetMetaInfo mi]) g (deleteEdge c e g)"
proof -
  obtain s r d where e: "e = (s, r, d)" by (cases e)
  let ?o = "OutRel r s d"
  let ?g = "if memberResource s g \<and> ?o \<in> set (filter isOut (lookupRes s g)) \<and> memberResource d g
    then over_both (DeleteValues [(encRes c s, [encRel c ?o]), (encRes c d, [encRel c (invert ?o)])])
      (AList.map_entry s (removeAll ?o) \<circ> AList.map_entry d (removeAll (invert ?o))) g
    else g"
  have "logged c (edge_removal g e) g ?g"
    using rels_member [of ?o g s] mm.wf_delete_values [of "grGraph g" "[(d, [invert ?o])]"]
      mm.wf_delete_values [of "deleteValues [(d, [invert ?o])] (grGraph g)" "[(s, [?o])]"]
    by (simp add: logged_def edge_removal_def e over_both_def set_lookupRes map_entry_deleteValues
        deleteValues_swap(2) del: store_update.simps)
  moreover have "deleteEdge c e g = incrementGC c ?g" by (simp add: deleteEdge_def e Let_def)
  moreover obtain mi where "logged c [SetMetaInfo mi] ?g (incrementGC c ?g)"
    using logged_meta unfolding incrementGC_def modifySinceGC_def by blast
  ultimately show ?thesis using logged_append by fastforce
qed

lemma logged_connectUnbounded:
  "logged c [InsertMany [(x, [OutRel r x y]), (y, [InRel r x y])]] g (connectUnbounded c x r y g)"
  by (simp add: logged_def connectUnbounded_def over_both_def map_default_insertMany insertMany_swap
      mm.wf_insert del: store_update.simps)

lemma logged_removeResource:
  fixes g :: "('a, 'b, 'c, 'k, 'm) Graph"
  assumes "memberResource x g"
  shows "logged c [DeleteValues (map (\<lambda>rel. (remote_end rel, [invert rel])) (lookupRes x g)), DeleteKeys [x]]
    g (removeResource c x g)"
proof -
  let ?h = "\<lambda>rel :: ('a, 'b, 'c) Rel. (remote_end rel, [invert rel])"
  have unhook: "foldr (\<lambda>rel. AList.map_entry (remote_end rel) (removeAll (invert rel))) rs m =
      deleteValues (rev (map ?h rs)) m" for rs m
    by (induction rs) (simp_all add: map_entry_deleteValues deleteValues_append, simp add: deleteValues_def)
  have rev: "store_update (DeleteValues (rev kvs)) st = store_update (DeleteValues kvs) st"
    for kvs :: "(('a, 'b) Res \<times> ('a, 'b, 'c) Rel list) list" and st
    by (simp add: fun_eq_iff sets_of_def)
  have "removeResource c x g = g\<lparr>grGraph := deleteKeys [x]
      (foldr (\<lambda>rel. AList.map_entry (remote_end rel) (removeAll (invert rel))) (lookupRes x g) (grGraph g)),
    grChangeLog := updateChangeLog (DeleteKeys [encRes c x]) (updateChangeLog
      (DeleteValues (map (\<lambda>rel. (encRes c (remote_end rel), [encRel c (invert rel)])) (lookupRes x g)))
      (grChangeLog g))\<rparr>"
    using assms by (simp add: removeResource_def Let_def foldl_comp deleteKeys_def)
  then show ?thesis
    by (simp add: logged_def unhook mm.abs_delete_keys mm.wf_delete_keys mm.abs_delete_values
        mm.wf_delete_values rev comp_def del: store_update.simps)
qed

lemma logged_garbageCollect:
  "logged c [DeleteKeys (gc_go g (filter (\<lambda>x. x \<notin> set grey) (map fst (grGraph g))) grey)] g
    (garbageCollect c grey g)"
  by (simp add: logged_def garbageCollect_def Let_def over_both_def fold_delete mm.abs_delete_keys
      mm.wf_delete_keys del: store_update.simps)

section \<open>The graph as nodes and edges\<close>

definition nodes :: "('t, 'v, 'r, 'k, 'a) Graph \<Rightarrow> ('t, 'v) Res set" where
  "nodes g = dom (mm_abs (grGraph g))"

definition edges :: "('t, 'v, 'r, 'k, 'a) Graph \<Rightarrow> ('t, 'v, 'r) edge set" where
  "edges g = {(s, r, d). OutRel r s d \<in> rels g s}"

definition rel_edge :: "('t, 'v, 'r) Rel \<Rightarrow> ('t, 'v, 'r) edge" where
  "rel_edge rel = (rel_src rel, rel_type rel, rel_dst rel)"

lemma rel_edge_simps [simp]:
  "rel_edge (OutRel r s d) = (s, r, d)" "rel_edge (InRel r s d) = (s, r, d)" "rel_edge (invert rel) = rel_edge rel"
  by (simp_all add: rel_edge_def, cases rel, simp_all)

text \<open>Both ends of every edge, and nothing else, have it among their relations.\<close>

definition g_ok :: "('t, 'v, 'r, 'k, 'a) Graph \<Rightarrow> bool" where
  "g_ok g \<longleftrightarrow> mm_wf (grGraph g) \<and>
     (\<forall>x rel. rel \<in> rels g x \<longleftrightarrow> x = local_end rel \<and> rel_edge rel \<in> edges g)"

lemma g_okD:
  assumes "g_ok g"
  shows "mm_wf (grGraph g)" "rel \<in> rels g x \<longleftrightarrow> x = local_end rel \<and> rel_edge rel \<in> edges g"
  using assms by (simp_all add: g_ok_def)

lemma edge_nodes: "g_ok g \<Longrightarrow> (s, r, d) \<in> edges g \<Longrightarrow> memberResource s g \<and> memberResource d g"
  using rels_member [of "OutRel r s d" g s] rels_member [of "InRel r s d" g d] by (simp add: g_okD(2))

lemma memberResource_nodes: "memberResource x g \<longleftrightarrow> x \<in> nodes g"
  by (simp add: memberResource_abs nodes_def domIff)

text \<open>It is enough to know the relations of each resource after a change.\<close>

lemma g_okI:
  assumes "mm_wf (grGraph g)" and "\<And>x rel. rel \<in> rels g x \<longleftrightarrow> x = local_end rel \<and> rel_edge rel \<in> E"
  shows "g_ok g \<and> edges g = E"
proof -
  have "edges g = E" unfolding edges_def using assms(2) by auto
  then show ?thesis using assms by (simp add: g_ok_def)
qed

lemma logged_rels:
  assumes "logged c us g g'"
  shows "rels g' x = stored (fold store_update us (mm_abs (grGraph g)) x)"
    and "nodes g' = dom (fold store_update us (mm_abs (grGraph g)))"
  using assms by (simp_all add: logged_def rels_def nodes_def)

lemma dom_store_update:
  "dom (store_update (InsertMany xs) st) = fst ` set xs \<union> dom st"
  "dom (store_update (DeleteValues xs) st) = dom st"
  "dom (store_update (DeleteKeys ks) st) = dom st - set ks"
  "dom (store_update (SetMetaInfo mi) st) = dom st"
  by (auto simp: dom_def split: if_splits)

lemma g_ok_change:
  assumes "logged c us g g'" and "g_ok g"
    and "\<And>x rel. rel \<in> rels g' x \<longleftrightarrow> x = local_end rel \<and> rel_edge rel \<in> E" and "nodes g' = N"
  shows "g_ok g' \<and> nodes g' = N \<and> edges g' = E"
proof -
  have "mm_wf (grGraph g')" using assms(1) g_okD(1) [OF assms(2)] by (simp add: logged_def)
  from g_okI [OF this assms(3)] assms(4) show ?thesis by simp
qed

lemma deleteEdge_ok:
  assumes "g_ok g"
  shows "g_ok (deleteEdge c e g) \<and> edges (deleteEdge c e g) = edges g - {e} \<and>
    nodes (deleteEdge c e g) = nodes g"
proof -
  obtain s r d where e: "e = (s, r, d)" by (cases e)
  let ?g = "deleteEdge c e g"
  obtain mi where log: "logged c (edge_removal g e @ [SetMetaInfo mi]) g ?g" using logged_deleteEdge by blast
  have cond: "(OutRel r s d \<in> rels g s \<and> memberResource d g) \<longleftrightarrow> e \<in> edges g"
    using edge_nodes [OF assms] by (auto simp: e g_okD(2) [OF assms])
  have rels': "rel \<in> rels ?g x \<longleftrightarrow> x = local_end rel \<and> rel_edge rel \<in> edges g - {e}" for x rel
  proof (cases "e \<in> edges g")
    case True
    then have "rels ?g x = rels g x - sets_of x [(s, [OutRel r s d]), (d, [InRel r s d])]"
      using logged_rels(1) [OF log, of x] cond
      by (simp add: edge_removal_def e rels_def stored_update(2) [simplified])
    then show ?thesis
      by (cases rel) (auto simp: g_okD(2) [OF assms] sets_of_Cons e)
  next
    case False
    then have "rels ?g x = rels g x"
      using logged_rels(1) [OF log, of x] cond by (auto simp: edge_removal_def e rels_def)
    then show ?thesis using False by (auto simp: g_okD(2) [OF assms])
  qed
  have "nodes ?g = nodes g"
    using logged_rels(2) [OF log] by (simp add: edge_removal_def e nodes_def dom_store_update split: if_splits)
  from g_ok_change [OF log assms rels' this] show ?thesis by simp
qed

lemma deleteEdges_ok:
  assumes "g_ok g"
  shows "g_ok (foldr (deleteEdge c) es g) \<and> edges (foldr (deleteEdge c) es g) = edges g - set es \<and>
    nodes (foldr (deleteEdge c) es g) = nodes g"
proof (induction es)
  case (Cons e es)
  then show ?case using deleteEdge_ok [of "foldr (deleteEdge c) es g" c e] by auto
qed (simp add: assms)

lemma decodeRel_iff:
  "decodeRel a r b rel = Some e \<longleftrightarrow>
    e = rel_edge rel \<and> rel_type rel = r \<and> res_type (rel_src rel) = a \<and> res_type (rel_dst rel) = b"
  by (auto simp: decodeRel_def rel_edge_def)

lemma set_edgesFromSrc:
  assumes "g_ok g"
  shows "set (edgesFromSrc x r b g) = {(s, q, d) \<in> edges g. s = x \<and> q = r \<and> res_type d = b}"
proof -
  have "e \<in> set (edgesFromSrc x r b g) \<longleftrightarrow>
      (\<exists>s d. e = (s, r, d) \<and> e \<in> edges g \<and> s = x \<and> res_type d = b)" for e
  proof
    assume "e \<in> set (edgesFromSrc x r b g)"
    then obtain rel where rel: "rel \<in> rels g x" "isOut rel" "decodeRel (res_type x) r b rel = Some e"
      by (auto simp: edgesFromSrc_def in_map_filter set_lookupRes)
    then show "\<exists>s d. e = (s, r, d) \<and> e \<in> edges g \<and> s = x \<and> res_type d = b"
      by (cases rel) (auto simp: decodeRel_iff g_okD(2) [OF assms])
  next
    assume "\<exists>s d. e = (s, r, d) \<and> e \<in> edges g \<and> s = x \<and> res_type d = b"
    then obtain d where d: "e = (x, r, d)" "e \<in> edges g" "res_type d = b" by blast
    then have "OutRel r x d \<in> set (filter isOut (lookupRes x g))"
      by (simp add: set_lookupRes g_okD(2) [OF assms])
    moreover have "decodeRel (res_type x) r b (OutRel r x d) = Some e" using d by (simp add: decodeRel_iff)
    ultimately show "e \<in> set (edgesFromSrc x r b g)" unfolding edgesFromSrc_def in_map_filter by blast
  qed
  then show ?thesis by auto
qed

lemma set_edgesToDst:
  assumes "g_ok g"
  shows "set (edgesToDst a r y g) = {(s, q, d) \<in> edges g. d = y \<and> q = r \<and> res_type s = a}"
proof -
  have "e \<in> set (edgesToDst a r y g) \<longleftrightarrow>
      (\<exists>s d. e = (s, r, d) \<and> e \<in> edges g \<and> d = y \<and> res_type s = a)" for e
  proof
    assume "e \<in> set (edgesToDst a r y g)"
    then obtain rel where rel: "rel \<in> rels g y" "\<not> isOut rel" "decodeRel a r (res_type y) rel = Some e"
      by (auto simp: edgesToDst_def in_map_filter set_lookupRes isIn_def)
    then show "\<exists>s d. e = (s, r, d) \<and> e \<in> edges g \<and> d = y \<and> res_type s = a"
      by (cases rel) (auto simp: decodeRel_iff g_okD(2) [OF assms])
  next
    assume "\<exists>s d. e = (s, r, d) \<and> e \<in> edges g \<and> d = y \<and> res_type s = a"
    then obtain s where s: "e = (s, r, y)" "e \<in> edges g" "res_type s = a" by blast
    then have "InRel r s y \<in> set (filter isIn (lookupRes y g))"
      by (simp add: set_lookupRes g_okD(2) [OF assms] isIn_def)
    moreover have "decodeRel a r (res_type y) (InRel r s y) = Some e" using s by (simp add: decodeRel_iff)
    ultimately show "e \<in> set (edgesToDst a r y g)" unfolding edgesToDst_def in_map_filter by blast
  qed
  then show ?thesis by auto
qed

lemma disconnectAll_ok:
  assumes "g_ok g"
  shows "g_ok (disconnectAllFrom c x r b g) \<and> nodes (disconnectAllFrom c x r b g) = nodes g \<and>
      edges (disconnectAllFrom c x r b g) = edges g - {(s, q, d). s = x \<and> q = r \<and> res_type d = b}"
    and "g_ok (disconnectAllTo c a r y g) \<and> nodes (disconnectAllTo c a r y g) = nodes g \<and>
      edges (disconnectAllTo c a r y g) = edges g - {(s, q, d). d = y \<and> q = r \<and> res_type s = a}"
  using deleteEdges_ok [OF assms]
  by (auto simp: disconnectAllFrom_def disconnectAllTo_def foldl_comp set_edgesFromSrc [OF assms]
      set_edgesToDst [OF assms])

lemma connectUnbounded_ok:
  assumes "g_ok g"
  shows "g_ok (connectUnbounded c x r y g) \<and> nodes (connectUnbounded c x r y g) = nodes g \<union> {x, y} \<and>
    edges (connectUnbounded c x r y g) = insert (x, r, y) (edges g)"
proof -
  let ?g = "connectUnbounded c x r y g"
  note log = logged_connectUnbounded [of c x r y g]
  have "rels ?g z = rels g z \<union> sets_of z [(x, [OutRel r x y]), (y, [InRel r x y])]" for z
    using logged_rels(1) [OF log, of z] by (simp add: rels_def stored_update(1) [simplified] Un_commute)
  then have rels': "rel \<in> rels ?g z \<longleftrightarrow> z = local_end rel \<and> rel_edge rel \<in> insert (x, r, y) (edges g)" for z rel
    by (cases rel) (auto simp: g_okD(2) [OF assms] sets_of_Cons)
  have "nodes ?g = nodes g \<union> {x, y}"
    using logged_rels(2) [OF log] by (auto simp: nodes_def dom_store_update)
  then show ?thesis by (rule g_ok_change [OF log assms rels'])
qed

lemma removeResource_ok:
  assumes "g_ok g"
  shows "g_ok (removeResource c x g) \<and> nodes (removeResource c x g) = nodes g - {x} \<and>
    edges (removeResource c x g) = edges g - {(s, r, d). s = x \<or> d = x}"
proof (cases "memberResource x g")
  case True
  let ?g = "removeResource c x g"
  let ?us = "map (\<lambda>rel. (remote_end rel, [invert rel])) (lookupRes x g)"
  note log = logged_removeResource [OF True, of c]
  have unhooked: "y \<in> sets_of z ?us \<longleftrightarrow> invert y \<in> rels g x \<and> local_end y = z" for y z
  proof
    assume "y \<in> sets_of z ?us"
    then show "invert y \<in> rels g x \<and> local_end y = z" by (auto simp: sets_of_def set_lookupRes split: if_splits)
  next
    assume y: "invert y \<in> rels g x \<and> local_end y = z"
    then have "(z, [y]) \<in> set ?us" by (force simp: set_lookupRes)
    then show "y \<in> sets_of z ?us" by (force simp: sets_of_def)
  qed
  have "rels ?g z = (if z = x then {} else rels g z - sets_of z ?us)" for z
    using logged_rels(1) [OF log, of z] by (simp add: rels_def stored_update(2) [simplified])
  then have rels': "rel \<in> rels ?g z \<longleftrightarrow>
      z = local_end rel \<and> rel_edge rel \<in> edges g - {(s, r, d). s = x \<or> d = x}" for z rel
    by (cases rel) (auto simp: unhooked g_okD(2) [OF assms])
  have "nodes ?g = nodes g - {x}"
    using logged_rels(2) [OF log] by (simp add: nodes_def dom_store_update)
  then show ?thesis by (rule g_ok_change [OF log assms rels'])
next
  case False
  then have "removeResource c x g = g" by (simp add: removeResource_def)
  moreover have "edges g - {(s, r, d). s = x \<or> d = x} = edges g" using edge_nodes [OF assms] False by auto
  ultimately show ?thesis using assms False by (auto simp: memberResource_nodes)
qed

lemma modifyGCInfo_ok:
  assumes "g_ok g"
  shows "g_ok (modifyGCInfo c f g) \<and> nodes (modifyGCInfo c f g) = nodes g \<and>
    edges (modifyGCInfo c f g) = edges g"
proof -
  have same: "rels (modifyGCInfo c f g) = rels g" "grGraph (modifyGCInfo c f g) = grGraph g"
    by (simp_all add: rels_def modifyGCInfo_def fun_eq_iff)
  then have "edges (modifyGCInfo c f g) = edges g" "nodes (modifyGCInfo c f g) = nodes g"
    by (simp_all add: edges_def nodes_def)
  with same assms show ?thesis unfolding g_ok_def by simp
qed

section \<open>Garbage collection\<close>

text \<open>The resources connected to the roots by edges in any direction.\<close>

inductive connected :: "('t, 'v, 'r) edge set \<Rightarrow> ('t, 'v) Res set \<Rightarrow> ('t, 'v) Res \<Rightarrow> bool"
  for E :: "('t, 'v, 'r) edge set" and roots :: "('t, 'v) Res set" where
  root: "x \<in> roots \<Longrightarrow> connected E roots x"
| outgoing: "connected E roots s \<Longrightarrow> (s, r, d) \<in> E \<Longrightarrow> connected E roots d"
| incoming: "connected E roots d \<Longrightarrow> (s, r, d) \<in> E \<Longrightarrow> connected E roots s"

lemma connected_rel:
  assumes "g_ok g" and "rel \<in> rels g x" and "connected (edges g) roots x"
  shows "connected (edges g) roots (remote_end rel)"
proof (cases rel)
  case (InRel r s d)
  then have "x = d" "(s, r, d) \<in> edges g" using assms(2) by (simp_all add: g_okD(2) [OF assms(1)])
  then show ?thesis using connected.incoming [of "edges g" roots d s r] assms(3) by (simp add: InRel)
next
  case (OutRel r s d)
  then have "x = s" "(s, r, d) \<in> edges g" using assms(2) by (simp_all add: g_okD(2) [OF assms(1)])
  then show ?thesis using connected.outgoing [of "edges g" roots s r d] assms(3) by (simp add: OutRel)
qed

lemma set_next_greys: "set (next_greys g grey) = (\<Union>x \<in> set grey. remote_end ` rels g x)"
  by (simp add: next_greys_def set_lookupRes)

text \<open>Nothing that has been dealt with has an edge to a white resource.\<close>

lemma gc_go_white:
  assumes "g_ok g" and "\<And>x rel. x \<notin> set white \<Longrightarrow> x \<notin> set grey \<Longrightarrow> rel \<in> rels g x \<Longrightarrow> remote_end rel \<notin> set white"
    and "\<And>x. x \<in> set grey \<Longrightarrow> connected (edges g) roots x"
  shows "set (gc_go g white grey) \<subseteq> set white \<and>
    (\<forall>x \<in> set white - set (gc_go g white grey). connected (edges g) roots x) \<and>
    (\<forall>x rel. x \<notin> set (gc_go g white grey) \<longrightarrow> rel \<in> rels g x \<longrightarrow> remote_end rel \<notin> set (gc_go g white grey))"
  using assms
proof (induction g white grey rule: gc_go.induct)
  case (1 g white grey)
  show ?case
  proof (cases "grey = []")
    case True
    have "gc_go g white grey = white" using True by (subst gc_go.simps) simp
    moreover have "remote_end rel \<notin> set white" if "x \<notin> set white" "rel \<in> rels g x" for x rel
      using 1(3) [of x rel] that True by simp
    ultimately show ?thesis by simp
  next
    case False
    define grey' where "grey' = filter (\<lambda>x. x \<in> set (next_greys g grey)) white"
    define white' where "white' = filter (\<lambda>x. x \<notin> set grey') white"
    have parts: "set white = set white' \<union> set grey'" by (auto simp: white'_def grey'_def)
    have step: "gc_go g white grey = gc_go g white' grey'"
      using False by (subst gc_go.simps) (simp add: grey'_def white'_def Let_def)
    have closed: "remote_end rel \<notin> set white'" if "x \<notin> set white'" "x \<notin> set grey'" "rel \<in> rels g x" for x rel
    proof (cases "x \<in> set grey")
      case True
      then have "remote_end rel \<in> set (next_greys g grey)" using that(3) by (auto simp: set_next_greys)
      then show ?thesis by (auto simp: white'_def grey'_def)
    next
      case False
      then show ?thesis using 1(3) [of x rel] that parts by simp
    qed
    have reached: "connected (edges g) roots x" if x: "x \<in> set grey'" for x
    proof -
      obtain y rel where "y \<in> set grey" "rel \<in> rels g y" "x = remote_end rel"
        using x by (auto simp: grey'_def set_next_greys)
      then show ?thesis using connected_rel [OF 1(2)] 1(4) by blast
    qed
    have IH: "set (gc_go g white' grey') \<subseteq> set white' \<and>
      (\<forall>x \<in> set white' - set (gc_go g white' grey'). connected (edges g) roots x) \<and>
      (\<forall>x rel. x \<notin> set (gc_go g white' grey') \<longrightarrow> rel \<in> rels g x \<longrightarrow> remote_end rel \<notin> set (gc_go g white' grey'))"
      by (rule 1(1) [OF False grey'_def 1(2), folded white'_def], erule (2) closed, erule reached)
    moreover have "connected (edges g) roots x" if "x \<in> set white - set (gc_go g white' grey')" for x
    proof (cases "x \<in> set grey'")
      case True
      then show ?thesis by (rule reached)
    next
      case False
      then show ?thesis using IH that parts by simp
    qed
    ultimately show ?thesis unfolding step using parts by (simp add: subset_iff)
  qed
qed

lemma gc_go_exact:
  assumes "g_ok g"
  shows "set (gc_go g (filter (\<lambda>x. x \<notin> set roots) (map fst (grGraph g))) roots) =
    {x \<in> nodes g. \<not> connected (edges g) (set roots) x}"
proof -
  let ?white = "filter (\<lambda>x. x \<notin> set roots) (map fst (grGraph g))"
  let ?left = "set (gc_go g ?white roots)"
  have white: "set ?white = nodes g - set roots"
    unfolding nodes_def mm.keys_to_list [OF g_okD(1) [OF assms], symmetric] by auto
  have no_rels: "rels g x = {}" if "x \<notin> nodes g" for x
    using that by (cases "mm_abs (grGraph g) x") (auto simp: rels_def nodes_def)
  have start: "remote_end rel \<notin> set ?white" if "x \<notin> set ?white" "x \<notin> set roots" "rel \<in> rels g x" for x rel
    using that no_rels [of x] white by blast
  have gc: "?left \<subseteq> set ?white \<and> (\<forall>x \<in> set ?white - ?left. connected (edges g) (set roots) x) \<and>
      (\<forall>x rel. x \<notin> ?left \<longrightarrow> rel \<in> rels g x \<longrightarrow> remote_end rel \<notin> ?left)"
    by (rule gc_go_white [OF assms], erule (2) start, erule connected.root)
  have left: "?left \<subseteq> set ?white" using gc by blast
  have closed: "remote_end rel \<notin> ?left" if "x \<notin> ?left" "rel \<in> rels g x" for x rel using gc that by blast
  have "x \<notin> ?left" if "connected (edges g) (set roots) x" for x
    using that
  proof (induction rule: connected.induct)
    case (root x)
    then show ?case using left white by blast
  next
    case (outgoing s r d)
    then show ?case using closed [of s "OutRel r s d"] by (simp add: g_okD(2) [OF assms])
  next
    case (incoming d s r)
    then show ?case using closed [of d "InRel r s d"] by (simp add: g_okD(2) [OF assms])
  qed
  moreover have "connected (edges g) (set roots) x" if "x \<in> nodes g" "x \<notin> ?left" for x
    using gc that white connected.root [of x "set roots" "edges g"] by blast
  ultimately show ?thesis using left white by blast
qed

lemma garbageCollect_ok:
  fixes roots :: "('t, 'v) Res list"
  assumes "g_ok g"
  defines "live \<equiv> connected (edges g) (set roots)"
  shows "g_ok (garbageCollect c roots g) \<and> nodes (garbageCollect c roots g) = {x \<in> nodes g. live x} \<and>
    edges (garbageCollect c roots g) = {(s, r, d) \<in> edges g. live s}"
proof -
  let ?g = "garbageCollect c roots g"
  note log = logged_garbageCollect [of c g roots]
  have rels': "rels ?g z = (if z \<in> nodes g \<and> \<not> live z then {} else rels g z)" for z
    using logged_rels(1) [OF log, of z] by (simp add: gc_go_exact [OF assms(1)] rels_def live_def)
  have ends: "s \<in> nodes g \<and> d \<in> nodes g" "live s \<longleftrightarrow> live d" if "(s, r, d) \<in> edges g" for s r d
    using edge_nodes [OF assms(1) that] connected.outgoing [OF _ that] connected.incoming [OF _ that]
    by (auto simp: memberResource_nodes live_def)
  have edges': "rel \<in> rels ?g z \<longleftrightarrow> z = local_end rel \<and> rel_edge rel \<in> {(s, r, d) \<in> edges g. live s}" for z rel
  proof (cases rel)
    case (InRel r s d)
    show ?thesis
      using ends [of s r d] by (cases "(s, r, d) \<in> edges g") (auto simp: InRel rels' g_okD(2) [OF assms(1)])
  next
    case (OutRel r s d)
    show ?thesis
      using ends(1) [of s r d] by (cases "(s, r, d) \<in> edges g") (auto simp: OutRel rels' g_okD(2) [OF assms(1)])
  qed
  have "nodes ?g = {x \<in> nodes g. live x}"
    using logged_rels(2) [OF log]
    by (auto simp: gc_go_exact [OF assms(1)] nodes_def live_def dom_store_update)
  then show ?thesis by (rule g_ok_change [OF log assms(1) edges'])
qed

end
