(* ===== verification/Graph_Merge.thy ===== *)
theory Graph_Merge
  imports Graph_Invariants
begin

text \<open>
  \<open>mergeResources\<close> of \<^verbatim>\<open>ResourceGraph.hs\<close>: several resources of a type become one, which takes over their
  edges. Edges between the merged resources are dropped.
\<close>

section \<open>The operation\<close>

fun updateLocalEnd :: "('t, 'v) Res \<Rightarrow> ('t, 'v, 'r) Rel \<Rightarrow> ('t, 'v, 'r) Rel" where
  "updateLocalEnd y' (InRel r x y) = (if res_type y = res_type y' then InRel r x y' else InRel r x y)"
| "updateLocalEnd x' (OutRel r x y) = (if res_type x = res_type x' then OutRel r x' y else OutRel r x y)"

fun doesNotMakeSelfLink :: "('t, 'v) Res list \<Rightarrow> ('t, 'v, 'r) Rel \<Rightarrow> bool" where
  "doesNotMakeSelfLink xs (InRel r y z) = (y \<notin> set xs)"
| "doesNotMakeSelfLink xs (OutRel r z y) = (y \<notin> set xs)"

text \<open>Hash maps of hash sets, united key by key.\<close>

definition unionWith :: "('k, 'a) multimap \<Rightarrow> ('k, 'a) multimap \<Rightarrow> ('k, 'a) multimap" where
  "unionWith m1 m2 = insertMany m2 m1"

fun both_ends :: "('t, 'v, 'r) Rel \<Rightarrow> (('t, 'v) Res \<times> ('t, 'v, 'r) Rel list) list" where
  "both_ends (InRel r a b) = [(a, [invert (InRel r a b)]), (b, [InRel r a b])]"
| "both_ends (OutRel r a b) = [(a, [OutRel r a b]), (b, [invert (OutRel r a b)])]"

definition mkUpdateMap :: "('t, 'v, 'r) Rel list \<Rightarrow> (('t, 'v) Res, ('t, 'v, 'r) Rel) multimap" where
  "mkUpdateMap rs = insertMany (concat (map both_ends rs)) []"

fun removeNodes :: "'a list \<Rightarrow> 'a list option \<Rightarrow> 'a list option" where
  "removeNodes v None = None"
| "removeNodes v (Some w) = (let z = filter (\<lambda>a. a \<notin> set v) w in if z = [] then None else Some z)"

definition insertNodes :: "'a list \<Rightarrow> 'a list option \<Rightarrow> 'a list option" where
  "insertNodes v w = Some (List.union v (case w of None \<Rightarrow> [] | Some w' \<Rightarrow> w'))"

definition alter ::
  "('a list option \<Rightarrow> 'a list option) \<Rightarrow> 'k \<Rightarrow> ('k, 'a) multimap \<Rightarrow> ('k, 'a) multimap" where
  "alter fz k m = (case fz (map_of m k) of None \<Rightarrow> AList.delete k m | Some v \<Rightarrow> AList.update k v m)"

definition mkAdjustements ::
  "('a list \<Rightarrow> 'a list option \<Rightarrow> 'a list option) \<Rightarrow> ('k, 'a) multimap \<Rightarrow> ('k, 'a) multimap \<Rightarrow>
   ('k, 'a) multimap" where
  "mkAdjustements action m z = foldl (\<lambda>g' (k, v). alter (action v) k g') z m"

definition mkAction ::
  "('t, 'v, 'r, 'k, 'a) codec \<Rightarrow> (('t, 'v) Res, ('t, 'v, 'r) Rel) multimap \<Rightarrow> ('k \<times> 'a list) list" where
  "mkAction c m = map (\<lambda>(x, rs). (encRes c x, map (encRel c) rs)) m"

text \<open>The relations of the merged resources, before and after, and the maps made of them.\<close>

definition oldRels :: "('t, 'v) Res list \<Rightarrow> ('t, 'v, 'r, 'k, 'a) Graph \<Rightarrow> ('t, 'v, 'r) Rel list" where
  "oldRels xs g = foldl List.union [] (List.map_filter (map_of (grGraph g)) xs)"

definition newRels ::
  "('t, 'v) Res \<Rightarrow> ('t, 'v) Res list \<Rightarrow> ('t, 'v, 'r, 'k, 'a) Graph \<Rightarrow> ('t, 'v, 'r) Rel list" where
  "newRels newX xs g =
     filter (doesNotMakeSelfLink (newX # xs)) (remdups (map (updateLocalEnd newX) (oldRels xs g)))"

definition deleteValuesMap ::
  "('t, 'v) Res list \<Rightarrow> ('t, 'v, 'r, 'k, 'a) Graph \<Rightarrow> (('t, 'v) Res, ('t, 'v, 'r) Rel) multimap" where
  "deleteValuesMap xs g = unionWith (map (\<lambda>x. (x, [])) (remdups xs)) (mkUpdateMap (oldRels xs g))"

definition insertValuesMap ::
  "('t, 'v) Res \<Rightarrow> ('t, 'v) Res list \<Rightarrow> ('t, 'v, 'r, 'k, 'a) Graph \<Rightarrow>
   (('t, 'v) Res, ('t, 'v, 'r) Rel) multimap" where
  "insertValuesMap newX xs g = unionWith [(newX, [])] (mkUpdateMap (newRels newX xs g))"

text \<open>The merged resources have the type \<open>t\<close> and the values \<open>vs\<close>.\<close>

definition mergeResources ::
  "('t, 'v, 'r, 'k, 'a) codec \<Rightarrow> ('v list \<Rightarrow> 'v) \<Rightarrow> 't \<Rightarrow> 'v list \<Rightarrow> ('t, 'v, 'r, 'k, 'a) Graph \<Rightarrow>
   ('t, 'v, 'r, 'k, 'a) Graph" where
  "mergeResources c f t vs g =
     (if vs = [] then g
      else let newX = Res t (f vs); xs = map (Res t) vs in
        g\<lparr>grChangeLog :=
            updateChangeLog (InsertMany (mkAction c (insertValuesMap newX xs g)))
              (updateChangeLog (DeleteKeys (map (encRes c) xs))
                (updateChangeLog (DeleteValues (mkAction c (deleteValuesMap xs g))) (grChangeLog g))),
          grGraph :=
            mkAdjustements insertNodes (insertValuesMap newX xs g)
              (mkAdjustements removeNodes (deleteValuesMap xs g) (grGraph g))\<rparr>)"

section \<open>The maps\<close>

lemma mm_wf_Nil: "mm_wf []"
  by (simp add: mm_wf_def)

lemma mm_abs_Nil [simp]: "mm_abs [] = (\<lambda>_. None)"
  by (simp add: mm_abs_def fun_eq_iff)

lemma wf_mkUpdateMap: "mm_wf (mkUpdateMap rs)"
  unfolding mkUpdateMap_def by (rule mm.wf_insert [OF mm_wf_Nil])

lemma wf_maps: "mm_wf (deleteValuesMap xs g)" "mm_wf (insertValuesMap newX xs g)"
proof -
  show "mm_wf (deleteValuesMap xs g)"
    unfolding deleteValuesMap_def unionWith_def by (rule mm.wf_insert) (auto simp: mm_wf_def comp_def)
  show "mm_wf (insertValuesMap newX xs g)"
    unfolding insertValuesMap_def unionWith_def by (rule mm.wf_insert) (simp add: mm_wf_def)
qed

lemma sets_of_append: "sets_of k (xs @ ys) = sets_of k xs \<union> sets_of k ys"
  by (auto simp: sets_of_def)

lemma sets_of_both_ends:
  "rel \<in> sets_of k (concat (map both_ends rs)) \<longleftrightarrow>
    k = local_end rel \<and> (rel \<in> set rs \<or> invert rel \<in> set rs)"
proof (induction rs)
  case (Cons q rs)
  have "rel \<in> sets_of k (both_ends q) \<longleftrightarrow> k = local_end rel \<and> (rel = q \<or> invert rel = q)"
    by (cases q; cases rel) (auto simp: sets_of_Cons)
  then show ?case using Cons by (auto simp: sets_of_append)
qed simp

lemma keys_both_ends:
  "k \<in> fst ` set (concat (map both_ends rs)) \<longleftrightarrow> (\<exists>rel \<in> set rs. k = local_end rel \<or> k = remote_end rel)"
proof (induction rs)
  case (Cons q rs)
  have "k \<in> fst ` set (both_ends q) \<longleftrightarrow> k = local_end q \<or> k = remote_end q" by (cases q) auto
  then show ?case using Cons by auto
qed simp

lemma abs_mkUpdateMap:
  "stored (mm_abs (mkUpdateMap rs) k) = {rel. k = local_end rel \<and> (rel \<in> set rs \<or> invert rel \<in> set rs)}"
  "mm_abs (mkUpdateMap rs) k \<noteq> None \<longleftrightarrow> (\<exists>rel \<in> set rs. k = local_end rel \<or> k = remote_end rel)"
  unfolding mkUpdateMap_def mm.abs_insert stored_update keys_both_ends [symmetric]
  by (auto simp: sets_of_both_ends)

lemma abs_unionWith:
  assumes "mm_wf m2"
  shows "stored (mm_abs (unionWith m1 m2) k) = stored (mm_abs m1 k) \<union> stored (mm_abs m2 k)"
    and "mm_abs (unionWith m1 m2) k \<noteq> None \<longleftrightarrow> mm_abs m1 k \<noteq> None \<or> mm_abs m2 k \<noteq> None"
proof -
  show "stored (mm_abs (unionWith m1 m2) k) = stored (mm_abs m1 k) \<union> stored (mm_abs m2 k)"
    unfolding unionWith_def mm.abs_insert stored_update mm.sets_to_list [OF assms] by blast
  have "k \<in> fst ` set m2 \<longleftrightarrow> mm_abs m2 k \<noteq> None" using keys_mm [OF assms] by (simp add: domIff)
  then show "mm_abs (unionWith m1 m2) k \<noteq> None \<longleftrightarrow> mm_abs m1 k \<noteq> None \<or> mm_abs m2 k \<noteq> None"
    unfolding unionWith_def mm.abs_insert by auto
qed

lemma alter_map_of: "map_of (alter fz k m) = (map_of m)(k := fz (map_of m k))"
  by (cases "fz (map_of m k)") (simp_all add: alter_def AList.delete_conv' AList.update_conv')

text \<open>The entries of a map have different keys, so that each is adjusted on its own.\<close>

lemma mkAdjustements_map_of:
  assumes "distinct (map fst m)"
  shows "map_of (mkAdjustements action m z) k =
    (case map_of m k of None \<Rightarrow> map_of z k | Some v \<Rightarrow> action v (map_of z k))"
  using assms
proof (induction m arbitrary: z)
  case (Cons p m)
  obtain k' v where p: "p = (k', v)" by (cases p)
  have "map_of m k' = None" using Cons.prems by (simp add: p map_of_eq_None_iff)
  then show ?case
    using Cons.IH [of "alter (action v) k' z"] Cons.prems
    by (auto simp: p mkAdjustements_def alter_map_of split: option.split)
qed (simp add: mkAdjustements_def)

section \<open>What is removed and inserted\<close>

lemma set_foldl_union: "set (foldl List.union acc ls) = set acc \<union> (\<Union>l \<in> set ls. set l)"
  by (induction ls arbitrary: acc) auto

lemma set_oldRels:
  assumes "g_ok g"
  shows "set (oldRels xs g) = {rel. local_end rel \<in> set xs \<and> rel_edge rel \<in> edges g}"
proof -
  have entry: "(\<exists>rs. map_of (grGraph g) x = Some rs \<and> rel \<in> set rs) \<longleftrightarrow> rel \<in> rels g x" for x rel
    by (cases "map_of (grGraph g) x") (simp_all add: rels_def mm_abs_def)
  have "rel \<in> set (oldRels xs g) \<longleftrightarrow> (\<exists>x \<in> set xs. \<exists>rs. map_of (grGraph g) x = Some rs \<and> rel \<in> set rs)" for rel
    unfolding oldRels_def set_foldl_union UN_iff Un_iff Bex_def in_map_filter by auto
  then show ?thesis unfolding entry by (auto simp: g_okD(2) [OF assms])
qed

lemma doesNotMakeSelfLink_iff: "doesNotMakeSelfLink xs rel \<longleftrightarrow> remote_end rel \<notin> set xs"
  by (cases rel) simp_all

lemma updateLocalEnd_ends:
  "remote_end (updateLocalEnd x rel) = remote_end rel"
  "res_type (local_end rel) = res_type x \<Longrightarrow> local_end (updateLocalEnd x rel) = x"
  "res_type (local_end rel) = res_type x \<Longrightarrow> updateLocalEnd (local_end rel) (updateLocalEnd x rel) = rel"
  by (cases rel; simp)+

lemma set_newRels:
  assumes "g_ok g" and "\<forall>x \<in> set xs. res_type x = res_type newX"
  shows "rel \<in> set (newRels newX xs g) \<longleftrightarrow>
    local_end rel = newX \<and> remote_end rel \<notin> set (newX # xs) \<and>
    (\<exists>x \<in> set xs. rel_edge (updateLocalEnd x rel) \<in> edges g)"
proof
  assume "rel \<in> set (newRels newX xs g)"
  then obtain q where q: "rel = updateLocalEnd newX q" "local_end q \<in> set xs" "rel_edge q \<in> edges g"
      "remote_end rel \<notin> set (newX # xs)"
    by (auto simp: newRels_def set_oldRels [OF assms(1)] doesNotMakeSelfLink_iff)
  then have "updateLocalEnd (local_end q) rel = q" "local_end rel = newX"
    using updateLocalEnd_ends(2,3) [of q newX] assms(2) by auto
  then show "local_end rel = newX \<and> remote_end rel \<notin> set (newX # xs) \<and>
      (\<exists>x \<in> set xs. rel_edge (updateLocalEnd x rel) \<in> edges g)"
    using q by metis
next
  assume "local_end rel = newX \<and> remote_end rel \<notin> set (newX # xs) \<and>
    (\<exists>x \<in> set xs. rel_edge (updateLocalEnd x rel) \<in> edges g)"
  then obtain x where x: "local_end rel = newX" "remote_end rel \<notin> set (newX # xs)" "x \<in> set xs"
      "rel_edge (updateLocalEnd x rel) \<in> edges g" by blast
  have "updateLocalEnd newX (updateLocalEnd x rel) = rel" "local_end (updateLocalEnd x rel) = x"
    using updateLocalEnd_ends(2,3) [of rel x] x(1) bspec [OF assms(2) x(3)] by simp_all
  then have "updateLocalEnd x rel \<in> set (oldRels xs g)" using x by (simp add: set_oldRels [OF assms(1)])
  then have "updateLocalEnd newX (updateLocalEnd x rel) \<in> set (map (updateLocalEnd newX) (oldRels xs g))" by simp
  then show "rel \<in> set (newRels newX xs g)"
    using x(2) \<open>updateLocalEnd newX (updateLocalEnd x rel) = rel\<close>
    by (simp add: newRels_def doesNotMakeSelfLink_iff)
qed

text \<open>The edges of the merged resources to others, which the new resource takes over.\<close>

definition taken_over ::
  "('t, 'v) Res \<Rightarrow> ('t, 'v) Res set \<Rightarrow> ('t, 'v, 'r) edge set \<Rightarrow> ('t, 'v, 'r) edge set" where
  "taken_over newX X E =
     {(s, r, d). s = newX \<and> d \<notin> insert newX X \<and> (\<exists>x \<in> X. (x, r, d) \<in> E)} \<union>
     {(s, r, d). d = newX \<and> s \<notin> insert newX X \<and> (\<exists>x \<in> X. (s, r, x) \<in> E)}"

lemma newRels_ends:
  assumes "g_ok g" and "\<forall>x \<in> set xs. res_type x = res_type newX"
  shows "OutRel r s d \<in> set (newRels newX xs g) \<longleftrightarrow>
      s = newX \<and> d \<notin> insert newX (set xs) \<and> (\<exists>x \<in> set xs. (x, r, d) \<in> edges g)"
    and "InRel r s d \<in> set (newRels newX xs g) \<longleftrightarrow>
      d = newX \<and> s \<notin> insert newX (set xs) \<and> (\<exists>x \<in> set xs. (s, r, x) \<in> edges g)"
  using assms(2) by (auto simp: set_newRels [OF assms])

lemma newRels_edges:
  assumes "g_ok g" and "\<forall>x \<in> set xs. res_type x = res_type newX"
  shows "rel \<in> set (newRels newX xs g) \<or> invert rel \<in> set (newRels newX xs g) \<longleftrightarrow>
    rel_edge rel \<in> taken_over newX (set xs) (edges g)"
  by (cases rel) (auto simp: taken_over_def newRels_ends [OF assms])

lemma deleteValuesMap_abs:
  assumes "g_ok g"
  shows "stored (mm_abs (deleteValuesMap xs g) k) =
      {rel. k = local_end rel \<and> rel_edge rel \<in> edges g \<and> (local_end rel \<in> set xs \<or> remote_end rel \<in> set xs)}"
    and "mm_abs (deleteValuesMap xs g) k \<noteq> None \<longleftrightarrow>
      k \<in> set xs \<or> (\<exists>rel. rel_edge rel \<in> edges g \<and> local_end rel = k \<and> remote_end rel \<in> set xs)"
proof -
  let ?base = "map (\<lambda>x. (x, [] :: ('a, 'b, 'c) Rel list)) (remdups xs)"
  have base: "mm_abs ?base k = (if k \<in> set xs then Some {} else None)"
    by (induction xs) (auto simp: mm_abs_def)
  show "stored (mm_abs (deleteValuesMap xs g) k) =
      {rel. k = local_end rel \<and> rel_edge rel \<in> edges g \<and> (local_end rel \<in> set xs \<or> remote_end rel \<in> set xs)}"
    unfolding deleteValuesMap_def abs_unionWith(1) [OF wf_mkUpdateMap] abs_mkUpdateMap(1) base set_oldRels [OF assms]
    by auto
  have "(\<exists>rel. rel_edge rel \<in> edges g \<and> local_end rel \<in> set xs \<and> k = remote_end rel) \<longleftrightarrow>
      (\<exists>rel. rel_edge rel \<in> edges g \<and> local_end rel = k \<and> remote_end rel \<in> set xs)"
    by (metis ends(5,6) invert_simps(1) rel_edge_simps(3))
  then show "mm_abs (deleteValuesMap xs g) k \<noteq> None \<longleftrightarrow>
      k \<in> set xs \<or> (\<exists>rel. rel_edge rel \<in> edges g \<and> local_end rel = k \<and> remote_end rel \<in> set xs)"
    unfolding deleteValuesMap_def abs_unionWith(2) [OF wf_mkUpdateMap] abs_mkUpdateMap(2) base set_oldRels [OF assms]
    by auto
qed

lemma insertValuesMap_abs:
  assumes "g_ok g" and "\<forall>x \<in> set xs. res_type x = res_type newX"
  shows "stored (mm_abs (insertValuesMap newX xs g) k) =
      {rel. k = local_end rel \<and> rel_edge rel \<in> taken_over newX (set xs) (edges g)}"
    and "mm_abs (insertValuesMap newX xs g) k \<noteq> None \<longleftrightarrow>
      k = newX \<or> (\<exists>rel. local_end rel = k \<and> rel_edge rel \<in> taken_over newX (set xs) (edges g))"
proof -
  have base: "mm_abs [(newX, [] :: ('a, 'b, 'c) Rel list)] k = (if k = newX then Some {} else None)"
    by (simp add: mm_abs_def)
  show "stored (mm_abs (insertValuesMap newX xs g) k) =
      {rel. k = local_end rel \<and> rel_edge rel \<in> taken_over newX (set xs) (edges g)}"
    unfolding insertValuesMap_def abs_unionWith(1) [OF wf_mkUpdateMap] abs_mkUpdateMap(1) base
    by (simp add: newRels_edges [OF assms])
  have "(\<exists>rel \<in> set (newRels newX xs g). k = local_end rel \<or> k = remote_end rel) \<longleftrightarrow>
      (\<exists>rel. local_end rel = k \<and> rel_edge rel \<in> taken_over newX (set xs) (edges g))"
    unfolding newRels_edges [OF assms, symmetric] by (metis ends(5,6) invert_simps(1))
  then show "mm_abs (insertValuesMap newX xs g) k \<noteq> None \<longleftrightarrow>
      k = newX \<or> (\<exists>rel. local_end rel = k \<and> rel_edge rel \<in> taken_over newX (set xs) (edges g))"
    unfolding insertValuesMap_def abs_unionWith(2) [OF wf_mkUpdateMap] abs_mkUpdateMap(2) base by auto
qed

lemma insertValuesMap_keys:
  assumes "g_ok g" and "\<forall>x \<in> set xs. res_type x = res_type newX"
  shows "dom (mm_abs (insertValuesMap newX xs g)) \<subseteq> nodes g - set xs \<union> {newX}"
proof
  fix x
  assume "x \<in> dom (mm_abs (insertValuesMap newX xs g))"
  then consider "x = newX" | rel where "local_end rel = x" "rel_edge rel \<in> taken_over newX (set xs) (edges g)"
    using insertValuesMap_abs(2) [OF assms, of x] unfolding domIff by blast
  then show "x \<in> nodes g - set xs \<union> {newX}"
  proof cases
    case 2
    then show ?thesis
      using edge_nodes [OF assms(1)] by (cases rel) (auto simp: taken_over_def memberResource_nodes)
  qed simp
qed

subsection \<open>Adjusting the graph\<close>

lemma abs_insertNodes:
  assumes "mm_wf m"
  shows "mm_abs (mkAdjustements insertNodes m z) = store_update (InsertMany m) (mm_abs z)"
proof
  fix k
  have m: "distinct (map fst m)" using assms by (simp add: mm_wf_def)
  have "k \<in> fst ` set m \<longleftrightarrow> map_of m k \<noteq> None" by (simp add: map_of_eq_None_iff)
  then show "mm_abs (mkAdjustements insertNodes m z) k = store_update (InsertMany m) (mm_abs z) k"
    using sets_mm [OF assms, of k]
    by (cases "map_of m k"; cases "map_of z k")
      (simp_all add: mm_abs_def mkAdjustements_map_of [OF m] insertNodes_def)
qed

lemma abs_removeNodes:
  assumes "mm_wf m"
  shows "mm_abs (mkAdjustements removeNodes m z) k =
    (case mm_abs z k of None \<Rightarrow> None
     | Some w \<Rightarrow> if mm_abs m k \<noteq> None \<and> w \<subseteq> stored (mm_abs m k) then None else Some (w - stored (mm_abs m k)))"
proof -
  have m: "distinct (map fst m)" using assms by (simp add: mm_wf_def)
  show ?thesis
    by (cases "map_of m k"; cases "map_of z k")
      (auto simp: mm_abs_def mkAdjustements_map_of [OF m] Let_def filter_empty_conv)
qed

lemma wf_alter:
  assumes "mm_wf m" and "\<And>v w. fz w = Some v \<Longrightarrow> (\<And>u. w = Some u \<Longrightarrow> distinct u) \<Longrightarrow> distinct v"
  shows "mm_wf (alter fz k m)"
proof (cases "fz (map_of m k)")
  case None
  then show ?thesis
    using assms(1) AList.distinct_delete [of m k] by (auto simp: alter_def mm_wf_def AList.delete_eq)
next
  case (Some v)
  have "distinct u" if "map_of m k = Some u" for u using map_of_SomeD [OF that] assms(1) by (auto simp: mm_wf_def)
  then have "distinct v" using assms(2) [OF Some] by blast
  moreover have "p \<in> set (AList.update k v m) \<Longrightarrow> p = (k, v) \<or> p \<in> set m" for p
    by (induction m) (auto split: if_splits)
  ultimately show ?thesis
    using assms(1) Some AList.distinct_update [of m k v] by (fastforce simp: alter_def mm_wf_def)
qed

lemma wf_mkAdjustements:
  assumes "mm_wf z" and "\<And>s v w. action s w = Some v \<Longrightarrow> (\<And>u. w = Some u \<Longrightarrow> distinct u) \<Longrightarrow> distinct v"
  shows "mm_wf (mkAdjustements action m z)"
  using assms(1)
proof (induction m arbitrary: z)
  case (Cons p m)
  obtain k v where p: "p = (k, v)" by (cases p)
  have "mm_wf (alter (action v) k z)" by (rule wf_alter [OF Cons.prems assms(2)])
  then show ?case using Cons.IH by (simp add: mkAdjustements_def p)
qed (simp add: mkAdjustements_def)

lemma distinct_nodes:
  "removeNodes s w = Some v \<Longrightarrow> (\<And>u. w = Some u \<Longrightarrow> distinct u) \<Longrightarrow> distinct v"
  "insertNodes s w = Some v \<Longrightarrow> (\<And>u. w = Some u \<Longrightarrow> distinct u) \<Longrightarrow> distinct v"
  by (cases w; auto simp: Let_def insertNodes_def split: if_splits)+

lemma wf_nodes:
  assumes "mm_wf z"
  shows "mm_wf (mkAdjustements removeNodes m z)" "mm_wf (mkAdjustements insertNodes m z)"
proof -
  show "mm_wf (mkAdjustements removeNodes m z)" by (rule wf_mkAdjustements [OF assms]) (rule distinct_nodes(1))
  show "mm_wf (mkAdjustements insertNodes m z)" by (rule wf_mkAdjustements [OF assms]) (rule distinct_nodes(2))
qed

section \<open>Merging as updates, and on nodes and edges\<close>

text \<open>A resource that loses its last relation in the first adjustment gets a new one in the second.\<close>

lemma emptied_is_inserted:
  assumes "g_ok g" and "\<forall>x \<in> set xs. res_type x = res_type newX" and "k \<notin> set xs"
    and "mm_abs (deleteValuesMap xs g) k \<noteq> None"
  shows "mm_abs (insertValuesMap newX xs g) k \<noteq> None"
proof (cases "k = newX")
  case True
  then show ?thesis by (simp only: insertValuesMap_abs(2) [OF assms(1,2)] simp_thms)
next
  case False
  obtain rel where rel: "rel_edge rel \<in> edges g" "local_end rel = k" "remote_end rel \<in> set xs"
    using assms(3,4) unfolding deleteValuesMap_abs(2) [OF assms(1)] by blast
  have "\<exists>q. local_end q = k \<and> rel_edge q \<in> taken_over newX (set xs) (edges g)"
  proof (cases rel)
    case (OutRel r s d)
    then show ?thesis
      using rel False assms(3) by (intro exI [of _ "OutRel r s newX"]) (auto simp: taken_over_def)
  next
    case (InRel r s d)
    then show ?thesis
      using rel False assms(3) by (intro exI [of _ "InRel r newX d"]) (auto simp: taken_over_def)
  qed
  then show ?thesis unfolding insertValuesMap_abs(2) [OF assms(1,2)] by blast
qed

definition merge_updates ::
  "('t, 'v) Res \<Rightarrow> ('t, 'v) Res list \<Rightarrow> ('t, 'v, 'r, 'k, 'a) Graph \<Rightarrow>
   (('t, 'v) Res, ('t, 'v, 'r) Rel) StoreUpdate list" where
  "merge_updates newX xs g =
     [DeleteValues (deleteValuesMap xs g), DeleteKeys xs, InsertMany (insertValuesMap newX xs g)]"

lemma merge_abs:
  assumes "g_ok g" and "\<forall>x \<in> set xs. res_type x = res_type newX"
  shows "mm_abs (mkAdjustements insertNodes (insertValuesMap newX xs g)
      (mkAdjustements removeNodes (deleteValuesMap xs g) (grGraph g))) =
    fold store_update (merge_updates newX xs g) (mm_abs (grGraph g))"
proof
  fix k
  define dv where "dv = deleteValuesMap xs g"
  define iv where "iv = insertValuesMap newX xs g"
  define z where "z = mkAdjustements removeNodes dv (grGraph g)"
  have dv: "sets_of k dv = stored (mm_abs dv k)" unfolding dv_def by (rule sets_mm [OF wf_maps(1)])
  have keys: "k \<in> fst ` set iv \<longleftrightarrow> mm_abs iv k \<noteq> None"
    using keys_mm [OF wf_maps(2), of newX xs g] by (simp add: iv_def domIff)
  have z: "mm_abs z k = (case mm_abs (grGraph g) k of None \<Rightarrow> None
      | Some w \<Rightarrow> if mm_abs dv k \<noteq> None \<and> w \<subseteq> stored (mm_abs dv k) then None else Some (w - stored (mm_abs dv k)))"
    unfolding z_def dv_def by (rule abs_removeNodes [OF wf_maps(1)])
  have "store_update (InsertMany iv) (mm_abs z) k =
      store_update (InsertMany iv) (store_update (DeleteKeys xs) (store_update (DeleteValues dv) (mm_abs (grGraph g)))) k"
  proof (cases "k \<in> set xs")
    case True
    have "mm_abs dv k \<noteq> None" unfolding dv_def deleteValuesMap_abs(2) [OF assms(1)] using True by simp
    moreover have "rels g k \<subseteq> stored (mm_abs dv k)"
      unfolding dv_def deleteValuesMap_abs(1) [OF assms(1)] using True g_okD(2) [OF assms(1)] by auto
    ultimately have "mm_abs z k = None" unfolding z by (cases "mm_abs (grGraph g) k") (simp_all add: rels_def)
    then show ?thesis using True by simp
  next
    case False
    show ?thesis
    proof (cases "mm_abs dv k = None")
      case True
      then show ?thesis using False by (cases "mm_abs (grGraph g) k") (simp_all add: z dv)
    next
      case more: False
      then have "mm_abs iv k \<noteq> None"
        using emptied_is_inserted [OF assms False] unfolding dv_def iv_def by blast
      then have "k \<in> fst ` set iv" by (simp only: keys simp_thms)
      then show ?thesis using False more by (cases "mm_abs (grGraph g) k") (auto simp: z dv)
    qed
  qed
  then show "mm_abs (mkAdjustements insertNodes (insertValuesMap newX xs g)
      (mkAdjustements removeNodes (deleteValuesMap xs g) (grGraph g))) k =
    fold store_update (merge_updates newX xs g) (mm_abs (grGraph g)) k"
    unfolding abs_insertNodes [OF wf_maps(2)] merge_updates_def by (simp add: z_def dv_def iv_def del: store_update.simps)
qed

lemma logged_mergeResources:
  assumes "g_ok g" and "vs \<noteq> []"
  shows "logged c (merge_updates (Res t (f vs)) (map (Res t) vs) g) g (mergeResources c f t vs g)"
proof -
  let ?newX = "Res t (f vs)" and ?xs = "map (Res t) vs"
  have "\<forall>x \<in> set ?xs. res_type x = res_type ?newX" by simp
  note abs = merge_abs [OF assms(1) this]
  have "mergeResources c f t vs g = g\<lparr>grChangeLog := fold updateChangeLog
        (map (enc_update c) (merge_updates ?newX ?xs g)) (grChangeLog g),
      grGraph := mkAdjustements insertNodes (insertValuesMap ?newX ?xs g)
        (mkAdjustements removeNodes (deleteValuesMap ?xs g) (grGraph g))\<rparr>"
    using assms(2) by (simp add: mergeResources_def Let_def mkAction_def merge_updates_def)
  then show ?thesis by (simp add: logged_def abs wf_nodes del: store_update.simps)
qed

text \<open>What a merge means for the nodes and the edges.\<close>

definition merged ::
  "('t, 'v) Res \<Rightarrow> ('t, 'v) Res set \<Rightarrow> ('t, 'v) Res set \<times> ('t, 'v, 'r) edge set \<Rightarrow>
   ('t, 'v) Res set \<times> ('t, 'v, 'r) edge set" where
  "merged newX X G = (case G of (N, E) \<Rightarrow>
     (N - X \<union> {newX}, E - {(s, r, d). s \<in> X \<or> d \<in> X} \<union> taken_over newX X E))"

lemma mergeResources_ok:
  assumes "g_ok g" and "vs \<noteq> []"
  shows "g_ok (mergeResources c f t vs g) \<and>
    (nodes (mergeResources c f t vs g), edges (mergeResources c f t vs g)) =
      merged (Res t (f vs)) (Res t ` set vs) (nodes g, edges g)"
proof -
  let ?newX = "Res t (f vs)" and ?xs = "map (Res t) vs" and ?g = "mergeResources c f t vs g"
  let ?E = "edges g - {(s, r, d). s \<in> set ?xs \<or> d \<in> set ?xs} \<union> taken_over ?newX (set ?xs) (edges g)"
  let ?dv = "deleteValuesMap ?xs g" and ?iv = "insertValuesMap ?newX ?xs g"
  define X where "X = set ?xs"
  have types: "\<forall>x \<in> set ?xs. res_type x = res_type ?newX" by simp
  note log = logged_mergeResources [OF assms, of c t f]
  note iv = insertValuesMap_abs [OF assms(1) types] and dv = deleteValuesMap_abs [OF assms(1), of ?xs]
  have rels': "rel \<in> rels ?g x \<longleftrightarrow> x = local_end rel \<and> rel_edge rel \<in> ?E" for x rel
  proof -
    have "rels ?g x = stored (mm_abs ?iv x) \<union> (if x \<in> set ?xs then {} else rels g x - stored (mm_abs ?dv x))"
      unfolding logged_rels(1) [OF log] unfolding merge_updates_def fold.simps comp_apply id_apply stored_update
        sets_mm [OF wf_maps(1)] sets_mm [OF wf_maps(2)] rels_def ..
    moreover have "x = local_end rel \<Longrightarrow> rel_edge rel \<in> {(s, r, d). s \<in> set ?xs \<or> d \<in> set ?xs} \<longleftrightarrow>
        x \<in> set ?xs \<or> remote_end rel \<in> set ?xs"
      by (cases rel) auto
    ultimately show ?thesis unfolding iv(1) dv(1) X_def [symmetric] by (auto simp: g_okD(2) [OF assms(1)])
  qed
  have "nodes ?g = dom (mm_abs ?iv) \<union> (nodes g - set ?xs)"
    unfolding logged_rels(2) [OF log] unfolding merge_updates_def fold.simps comp_apply id_apply dom_store_update
      keys_mm [OF wf_maps(2)] nodes_def ..
  moreover have "dom (mm_abs ?iv) \<subseteq> nodes g - set ?xs \<union> {?newX}" "?newX \<in> dom (mm_abs ?iv)"
    using insertValuesMap_keys [OF assms(1) types] iv(2) [of ?newX] by (simp_all only: domIff simp_thms)
  ultimately have "nodes ?g = nodes g - set ?xs \<union> {?newX}" by blast
  from g_ok_change [OF log assms(1) rels' this] show ?thesis by (simp add: merged_def)
qed

end
