(* ===== verification/Graph_Sync.thy ===== *)
theory Graph_Sync
  imports Graph_Merge
begin

text \<open>
  Histories of a resource graph and its store: any sequence of the operations of \<^verbatim>\<open>ResourceGraph.hs\<close> with
  synchronisations in between. The graph refines a set of nodes and a set of edges; both ends of an edge
  agree; cardinalities are respected; garbage collection removes what is not connected to the roots.
\<close>

section \<open>Histories\<close>

datatype ('t, 'v, 'r) request =
    Connect "('t, 'v) Res" 'r "('t, 'v) Res"
  | Disconnect "('t, 'v) Res" 'r "('t, 'v) Res"
  | DisconnectAllFrom "('t, 'v) Res" 'r 't
  | DisconnectAllTo 't 'r "('t, 'v) Res"
  | RemoveResource "('t, 'v) Res"
  | is_MergeResources: MergeResources "'v list \<Rightarrow> 'v" 't "'v list"
  | GarbageCollect "('t, 'v) Res list"
  | AddRootNode "('t, 'v) Res"
  | RemoveRootNode "('t, 'v) Res"
  | SetSinceGC int
  | SetGCThreshold int
  | Sync

type_synonym ('t, 'v, 'r, 'k, 'a) replicated =
  "('t, 'v, 'r, 'k, 'a) Graph \<times> 'k MetaInfo \<times> ('k, 'a) multimap"

fun perform ::
  "('t, 'v, 'r, 'k, 'a) codec \<Rightarrow> ('r \<Rightarrow> 't \<Rightarrow> 't \<Rightarrow> Cardinality \<times> Cardinality) \<Rightarrow> ('t, 'v, 'r) request \<Rightarrow>
   ('t, 'v, 'r, 'k, 'a) replicated \<Rightarrow> ('t, 'v, 'r, 'k, 'a) replicated" where
  "perform c cards (Connect x r y) (g, st) = (connect c cards x r y g, st)"
| "perform c cards (Disconnect x r y) (g, st) = (deleteEdge c (x, r, y) g, st)"
| "perform c cards (DisconnectAllFrom x r b) (g, st) = (disconnectAllFrom c x r b g, st)"
| "perform c cards (DisconnectAllTo a r y) (g, st) = (disconnectAllTo c a r y g, st)"
| "perform c cards (RemoveResource x) (g, st) = (removeResource c x g, st)"
| "perform c cards (MergeResources f t vs) (g, st) = (mergeResources c f t vs g, st)"
| "perform c cards (GarbageCollect roots) (g, st) = (garbageCollect c roots g, st)"
| "perform c cards (AddRootNode x) (g, st) = (modifyRootNodes c ((#) x) g, st)"
| "perform c cards (RemoveRootNode x) (g, st) = (modifyRootNodes c (remove1 x) g, st)"
| "perform c cards (SetSinceGC n) (g, st) = (modifySinceGC c (\<lambda>_. n) g, st)"
| "perform c cards (SetGCThreshold n) (g, st) = (modifyGCThreshold c (\<lambda>_. n) g, st)"
| "perform c cards Sync (g, st) = sync c g st"

definition history ::
  "('t, 'v, 'r, 'k, 'a) codec \<Rightarrow> ('r \<Rightarrow> 't \<Rightarrow> 't \<Rightarrow> Cardinality \<times> Cardinality) \<Rightarrow> ('t, 'v, 'r) request list \<Rightarrow>
   ('t, 'v, 'r, 'k, 'a) replicated" where
  "history c cards reqs = fold (perform c cards) reqs (emptyGraph, defaultMetaInfo, [])"

section \<open>Nodes and edges\<close>

text \<open>
  What the operations mean on a set of nodes and a set of edges. A synchronisation may collect what
  is not connected to the roots.
\<close>

definition uniquely :: "Cardinality \<Rightarrow> 'e set \<Rightarrow> 'e set" where
  "uniquely q E = (case q of AtMostOne \<Rightarrow> E | Unbounded \<Rightarrow> {})"

definition collected ::
  "('t, 'v) Res set \<Rightarrow> ('t, 'v) Res set \<times> ('t, 'v, 'r) edge set \<Rightarrow>
   ('t, 'v) Res set \<times> ('t, 'v, 'r) edge set" where
  "collected roots G = (case G of (N, E) \<Rightarrow>
     ({x \<in> N. connected E roots x}, {(s, r, d) \<in> E. connected E roots s}))"

fun graph_spec ::
  "('r \<Rightarrow> 't \<Rightarrow> 't \<Rightarrow> Cardinality \<times> Cardinality) \<Rightarrow> ('t, 'v, 'r) request \<Rightarrow>
   ('t, 'v) Res set \<times> ('t, 'v, 'r) edge set \<Rightarrow> (('t, 'v) Res set \<times> ('t, 'v, 'r) edge set) set" where
  "graph_spec cards (Connect x r y) (N, E) =
     (case cards r (res_type x) (res_type y) of (cf, ct) \<Rightarrow>
        {(N \<union> {x, y},
          insert (x, r, y)
            (E - uniquely cf {(s, q, d). d = y \<and> q = r \<and> res_type s = res_type x}
               - uniquely ct {(s, q, d). s = x \<and> q = r \<and> res_type d = res_type y}))})"
| "graph_spec cards (Disconnect x r y) (N, E) = {(N, E - {(x, r, y)})}"
| "graph_spec cards (DisconnectAllFrom x r b) (N, E) =
     {(N, E - {(s, q, d). s = x \<and> q = r \<and> res_type d = b})}"
| "graph_spec cards (DisconnectAllTo a r y) (N, E) =
     {(N, E - {(s, q, d). d = y \<and> q = r \<and> res_type s = a})}"
| "graph_spec cards (RemoveResource x) (N, E) = {(N - {x}, E - {(s, r, d). s = x \<or> d = x})}"
| "graph_spec cards (MergeResources f t vs) (N, E) =
     {if vs = [] then (N, E) else merged (Res t (f vs)) (Res t ` set vs) (N, E)}"
| "graph_spec cards (GarbageCollect roots) (N, E) = {collected (set roots) (N, E)}"
| "graph_spec cards Sync (N, E) = {(N, E)} \<union> {collected roots (N, E) | roots. True}"
| "graph_spec cards _ (N, E) = {(N, E)}"

lemma connect_ok:
  assumes "g_ok g"
  shows "g_ok (connect c cards x r y g)"
    and "(nodes (connect c cards x r y g), edges (connect c cards x r y g)) \<in>
      graph_spec cards (Connect x r y) (nodes g, edges g)"
proof -
  obtain cf ct where cards: "cards r (res_type x) (res_type y) = (cf, ct)" by fastforce
  define g1 where "g1 = (case cf of AtMostOne \<Rightarrow> disconnectAllTo c (res_type x) r y g | Unbounded \<Rightarrow> g)"
  define g2 where "g2 = (case ct of AtMostOne \<Rightarrow> disconnectAllFrom c x r (res_type y) g1 | Unbounded \<Rightarrow> g1)"
  have eq: "connect c cards x r y g = connectUnbounded c x r y g2"
    by (cases cf; cases ct)
      (simp_all add: connect_def cards connectUnique_def connectUniqueTo_def connectUniqueFrom_def g1_def g2_def)
  have g1: "g_ok g1 \<and> nodes g1 = nodes g \<and>
      edges g1 = edges g - uniquely cf {(s, q, d). d = y \<and> q = r \<and> res_type s = res_type x}"
  proof (cases cf)
    case AtMostOne
    then show ?thesis unfolding g1_def using disconnectAll_ok(2) [OF assms, of c "res_type x" r y] by (simp add: uniquely_def)
  next
    case Unbounded
    then show ?thesis unfolding g1_def using assms by (simp add: uniquely_def)
  qed
  have g2: "g_ok g2 \<and> nodes g2 = nodes g \<and>
      edges g2 = edges g1 - uniquely ct {(s, q, d). s = x \<and> q = r \<and> res_type d = res_type y}"
  proof (cases ct)
    case AtMostOne
    then show ?thesis
      unfolding g2_def using g1 disconnectAll_ok(1) [of g1 c x r "res_type y"] by (simp add: uniquely_def)
  next
    case Unbounded
    then show ?thesis unfolding g2_def using g1 by (simp add: uniquely_def)
  qed
  note new = connectUnbounded_ok [OF conjunct1 [OF g2], of c x r y]
  show "g_ok (connect c cards x r y g)" unfolding eq using new by simp
  show "(nodes (connect c cards x r y g), edges (connect c cards x r y g)) \<in>
      graph_spec cards (Connect x r y) (nodes g, edges g)"
    unfolding eq using new g1 g2 by (simp add: cards)
qed

lemma sync_ok:
  fixes g :: "('a, 'b, 'c, 'd, 'e) Graph"
  assumes "g_ok g"
  shows "g_ok (fst (sync c g st))"
    and "(nodes (fst (sync c g st)), edges (fst (sync c g st))) \<in> graph_spec cards Sync (nodes g, edges g)"
proof -
  have rels: "rels (h\<lparr>grChangeLog := cl\<rparr>) = rels h" for h :: "('a, 'b, 'c, 'd, 'e) Graph" and cl
    by (simp add: rels_def fun_eq_iff)
  then have clear: "edges (h\<lparr>grChangeLog := cl\<rparr>) = edges h" "nodes (h\<lparr>grChangeLog := cl\<rparr>) = nodes h"
    for h :: "('a, 'b, 'c, 'd, 'e) Graph" and cl
    by (simp_all add: nodes_def edges_def)
  have ok: "g_ok (h\<lparr>grChangeLog := cl\<rparr>) = g_ok h" for h :: "('a, 'b, 'c, 'd, 'e) Graph" and cl
    unfolding g_ok_def clear rels by simp
  let ?roots = "grRootNodes (grGraphGCInfo g)"
  have gc: "g_ok (garbageCollectRoot c g)" "nodes (garbageCollectRoot c g) = nodes (garbageCollect c ?roots g)"
      "edges (garbageCollectRoot c g) = edges (garbageCollect c ?roots g)"
    using modifyGCInfo_ok [of "garbageCollect c ?roots g"] garbageCollect_ok [OF assms, of c ?roots]
    unfolding garbageCollectRoot_def modifySinceGC_def by simp_all
  show "g_ok (fst (sync c g st))" using gc(1) assms by (simp add: sync_def Let_def ok)
  show "(nodes (fst (sync c g st)), edges (fst (sync c g st))) \<in> graph_spec cards Sync (nodes g, edges g)"
  proof (cases "shouldGC g")
    case True
    then have "nodes (fst (sync c g st)) = nodes (garbageCollect c ?roots g)"
        "edges (fst (sync c g st)) = edges (garbageCollect c ?roots g)"
      by (simp_all add: sync_def Let_def clear gc(2,3))
    then show ?thesis using garbageCollect_ok [OF assms, of c ?roots] by (auto simp: collected_def)
  next
    case False
    then show ?thesis by (simp add: sync_def Let_def clear)
  qed
qed

lemma perform_ok:
  assumes "g_ok (fst s)"
  shows "g_ok (fst (perform c cards req s)) \<and>
    (nodes (fst (perform c cards req s)), edges (fst (perform c cards req s))) \<in>
      graph_spec cards req (nodes (fst s), edges (fst s))"
proof -
  obtain g st where s: "s = (g, st)" by (cases s)
  have g: "g_ok g" using assms by (simp add: s)
  show ?thesis
  proof (cases req)
    case (Connect x r y)
    then show ?thesis using connect_ok [OF g, of c cards x r y] by (simp add: s del: graph_spec.simps)
  next
    case Sync
    then show ?thesis using sync_ok(1) [OF g, of c st] sync_ok(2) [OF g, of c st cards] by (simp add: s del: graph_spec.simps)
  next
    case (MergeResources f t vs)
    then show ?thesis using mergeResources_ok [OF g, of vs c f t] g by (auto simp: s mergeResources_def)
  next
    case (GarbageCollect roots)
    then show ?thesis using garbageCollect_ok [OF g, of c roots] by (simp add: s collected_def)
  qed (simp_all add: s modifyRootNodes_def modifySinceGC_def modifyGCThreshold_def deleteEdge_ok [OF g]
      disconnectAll_ok [OF g] removeResource_ok [OF g] modifyGCInfo_ok [OF g])
qed

text \<open>The cardinalities that the relations declare, at both ends.\<close>

definition cards_ok :: "('r \<Rightarrow> 't \<Rightarrow> 't \<Rightarrow> Cardinality \<times> Cardinality) \<Rightarrow> ('t, 'v, 'r) edge set \<Rightarrow> bool" where
  "cards_ok cards E \<longleftrightarrow>
     (\<forall>x r y z. (x, r, y) \<in> E \<and> (x, r, z) \<in> E \<and> res_type y = res_type z \<and>
        snd (cards r (res_type x) (res_type y)) = AtMostOne \<longrightarrow> y = z) \<and>
     (\<forall>x r y z. (x, r, y) \<in> E \<and> (z, r, y) \<in> E \<and> res_type x = res_type z \<and>
        fst (cards r (res_type x) (res_type y)) = AtMostOne \<longrightarrow> x = z)"

lemma cards_okD:
  assumes "cards_ok cards E"
  shows "(x, r, y) \<in> E \<Longrightarrow> (x, r, z) \<in> E \<Longrightarrow> res_type y = b \<Longrightarrow> res_type z = b \<Longrightarrow>
      snd (cards r (res_type x) b) = AtMostOne \<Longrightarrow> y = z"
    and "(x, r, y) \<in> E \<Longrightarrow> (z, r, y) \<in> E \<Longrightarrow> res_type x = a \<Longrightarrow> res_type z = a \<Longrightarrow>
      fst (cards r a (res_type y)) = AtMostOne \<Longrightarrow> x = z"
  using assms unfolding cards_ok_def by (metis, metis)

lemma cards_ok_subset:
  assumes "cards_ok cards E" and "F \<subseteq> E"
  shows "cards_ok cards F"
  using assms unfolding cards_ok_def by (intro conjI allI impI) (elim conjE, blast)+

lemma cards_ok_connect:
  assumes "cards_ok cards E" and "cards r (res_type x) (res_type y) = (cf, ct)"
  shows "cards_ok cards (insert (x, r, y)
    (E - uniquely cf {(s, q, d). d = y \<and> q = r \<and> res_type s = res_type x}
       - uniquely ct {(s, q, d). s = x \<and> q = r \<and> res_type d = res_type y}))"
proof -
  define F where "F = E - uniquely cf {(s, q, d). d = y \<and> q = r \<and> res_type s = res_type x}
    - uniquely ct {(s, q, d). s = x \<and> q = r \<and> res_type d = res_type y}"
  have F: "cards_ok cards F" unfolding F_def by (rule cards_ok_subset [OF assms(1)]) auto
  have to: "(x, r, z) \<notin> F" if "res_type z = res_type y" "ct = AtMostOne" for z
    using that by (simp add: F_def uniquely_def)
  have source: "(z, r, y) \<notin> F" if "res_type z = res_type x" "cf = AtMostOne" for z
    using that by (simp add: F_def uniquely_def)
  show ?thesis
    unfolding cards_ok_def F_def [symmetric]
  proof (intro conjI allI impI)
    fix u q v w
    assume a: "(u, q, v) \<in> insert (x, r, y) F \<and> (u, q, w) \<in> insert (x, r, y) F \<and>
      res_type v = res_type w \<and> snd (cards q (res_type u) (res_type v)) = AtMostOne"
    show "v = w"
    proof (cases "(u, q, v) \<in> F \<and> (u, q, w) \<in> F")
      case True
      then show ?thesis using F a unfolding cards_ok_def by blast
    next
      case False
      then have "u = x" "q = r" "v = y \<or> w = y" using a by auto
      then have "ct = AtMostOne" "res_type v = res_type y" "res_type w = res_type y" using a assms(2) by auto
      then show ?thesis using a to [of v] to [of w] \<open>u = x\<close> \<open>q = r\<close> by auto
    qed
  next
    fix u q v w
    assume a: "(u, q, v) \<in> insert (x, r, y) F \<and> (w, q, v) \<in> insert (x, r, y) F \<and>
      res_type u = res_type w \<and> fst (cards q (res_type u) (res_type v)) = AtMostOne"
    show "u = w"
    proof (cases "(u, q, v) \<in> F \<and> (w, q, v) \<in> F")
      case True
      then show ?thesis using F a unfolding cards_ok_def by blast
    next
      case False
      then have "v = y" "q = r" "u = x \<or> w = x" using a by auto
      then have "cf = AtMostOne" "res_type u = res_type x" "res_type w = res_type x" using a assms(2) by auto
      then show ?thesis using a source [of u] source [of w] \<open>v = y\<close> \<open>q = r\<close> by auto
    qed
  qed
qed

lemma cards_ok_spec:
  assumes "cards_ok cards E" and "(N', E') \<in> graph_spec cards req (N, E)" and "\<not> is_MergeResources req"
  shows "cards_ok cards E'"
proof (cases req)
  case (Connect x r y)
  obtain cf ct where "cards r (res_type x) (res_type y) = (cf, ct)" by fastforce
  then show ?thesis using cards_ok_connect [OF assms(1)] assms(2) by (simp add: Connect)
qed (use assms(2,3) in \<open>auto simp: collected_def intro!: cards_ok_subset [OF assms(1)]\<close>)

section \<open>Invariants of all histories\<close>

definition history_step ::
  "(('t, 'v, 'r) request \<Rightarrow> bool) \<Rightarrow> ('t, 'v, 'r, 'k, 'a) codec \<Rightarrow>
   ('r \<Rightarrow> 't \<Rightarrow> 't \<Rightarrow> Cardinality \<times> Cardinality) \<Rightarrow>
   ('t, 'v, 'r, 'k, 'a) replicated \<Rightarrow> ('t, 'v, 'r, 'k, 'a) replicated \<Rightarrow> bool" where
  "history_step allowed c cards s t \<longleftrightarrow> (\<exists>req. allowed req \<and> t = perform c cards req s)"

lemma rels_empty [simp]: "rels emptyGraph x = {}"
  by (simp add: rels_def emptyGraph_def mm_abs_def)

lemma edges_empty [simp]: "edges emptyGraph = {}"
  by (simp add: edges_def)

lemma empty_ok: "g_ok emptyGraph"
  unfolding g_ok_def by (simp, simp add: emptyGraph_def mm_wf_def)

interpretation graph: invariant_system "\<lambda>s. s = (emptyGraph, defaultMetaInfo, [])"
  "history_step (\<lambda>_. True) c cards" "\<lambda>s. g_ok (fst s)" for c cards
  by unfold_locales (auto simp: empty_ok history_step_def perform_ok)

interpretation unique: invariant_system "\<lambda>s. s = (emptyGraph, defaultMetaInfo, [])"
  "history_step (\<lambda>req. \<not> is_MergeResources req) c cards" "\<lambda>s. g_ok (fst s) \<and> cards_ok cards (edges (fst s))"
  for c cards
proof
  fix s t :: "('a, 'b, 'c, 'd, 'e) replicated"
  show "s = (emptyGraph, defaultMetaInfo, []) \<Longrightarrow> g_ok (fst s) \<and> cards_ok cards (edges (fst s))"
    by (simp add: empty_ok cards_ok_def)
  assume inv: "g_ok (fst s) \<and> cards_ok cards (edges (fst s))"
    and "history_step (\<lambda>req. \<not> is_MergeResources req) c cards s t"
  then obtain req where "t = perform c cards req s" "\<not> is_MergeResources req" by (auto simp: history_step_def)
  then show "g_ok (fst t) \<and> cards_ok cards (edges (fst t))"
    using perform_ok [of s c cards req] cards_ok_spec inv by blast
qed

lemma history_reachable:
  assumes "list_all allowed reqs"
  shows "(history_step allowed c cards)\<^sup>*\<^sup>* (emptyGraph, defaultMetaInfo, []) (history c cards reqs)"
  using assms
proof (induction reqs rule: rev_induct)
  case (snoc req reqs)
  have "history_step allowed c cards (history c cards reqs) (history c cards (reqs @ [req]))"
    using snoc.prems by (auto simp: history_step_def history_def)
  with snoc show ?case by (simp add: rtranclp.rtrancl_into_rtrancl)
qed (simp add: history_def)

lemma history_ok: "g_ok (fst (history c cards reqs))"
  by (rule graph.reachable_inv [OF refl history_reachable [where allowed = "\<lambda>_. True"]]) (simp add: list_all_iff)

lemma history_cards:
  "list_all (\<lambda>req. \<not> is_MergeResources req) reqs \<Longrightarrow> cards_ok cards (edges (fst (history c cards reqs)))"
  using unique.reachable_inv [OF refl history_reachable] by blast


text \<open>
  C9. \<open>memberEdge\<close> and \<open>memberEdgeBack\<close> give identical results all of the time, as the source claims:
  after any history an edge is known at its source exactly if it is known at its destination.
\<close>

theorem memberEdge_back:
  "memberEdge s r d (fst (history c cards reqs)) = memberEdgeBack s r d (fst (history c cards reqs))"
  by (simp add: memberEdge_rels g_okD(2) [OF history_ok])

lemma distinct_lookupRes:
  assumes "g_ok g"
  shows "distinct (lookupRes x g)"
proof (cases "map_of (grGraph g) x")
  case (Some rs)
  then have "(x, rs) \<in> set (grGraph g)" by (rule map_of_SomeD)
  then show ?thesis using g_okD(1) [OF assms] Some by (fastforce simp: lookupRes_def mm_wf_def)
qed (simp add: lookupRes_def)

lemma at_most_one:
  assumes "distinct xs" and "\<And>a b. a \<in> set xs \<Longrightarrow> b \<in> set xs \<Longrightarrow> a = b"
  shows "length xs \<le> 1"
proof (rule ccontr)
  assume "\<not> length xs \<le> 1"
  then have "Suc 0 < length xs" "xs \<noteq> []" by auto
  then have "xs ! 0 \<noteq> xs ! 1" "xs ! 0 \<in> set xs" "xs ! 1 \<in> set xs"
    using nth_eq_iff_index_eq [OF assms(1), of 0 1] by (simp_all add: nth_mem)
  then show False using assms(2) by blast
qed

lemma connected_edges:
  assumes "g_ok g"
  shows "set (connectedTo x r b g) = {y. (x, r, y) \<in> edges g \<and> res_type y = b}"
    and "set (connectedFrom a r y g) = {x. (x, r, y) \<in> edges g \<and> res_type x = a}"
proof -
  have "y \<in> set (connectedTo x r b g) \<longleftrightarrow> (x, r, y) \<in> edges g \<and> res_type y = b" for y
  proof
    assume "y \<in> set (connectedTo x r b g)"
    then obtain rel where "rel \<in> rels g x" "isOut rel" "rel_type rel = r" "y = rel_dst rel" "res_type y = b"
      by (auto simp: connectedTo_def anyConnectedTo_def set_lookupRes)
    then show "(x, r, y) \<in> edges g \<and> res_type y = b" by (cases rel) (auto simp: g_okD(2) [OF assms])
  next
    assume "(x, r, y) \<in> edges g \<and> res_type y = b"
    then show "y \<in> set (connectedTo x r b g)"
      using image_eqI [of y rel_dst "OutRel r x y"]
      by (simp add: connectedTo_def anyConnectedTo_def set_lookupRes g_okD(2) [OF assms])
  qed
  then show "set (connectedTo x r b g) = {y. (x, r, y) \<in> edges g \<and> res_type y = b}" by blast
  have "x \<in> set (connectedFrom a r y g) \<longleftrightarrow> (x, r, y) \<in> edges g \<and> res_type x = a" for x
  proof
    assume "x \<in> set (connectedFrom a r y g)"
    then obtain rel where "rel \<in> rels g y" "\<not> isOut rel" "rel_type rel = r" "x = rel_src rel" "res_type x = a"
      by (auto simp: connectedFrom_def anyConnectedFrom_def set_lookupRes isIn_def)
    then show "(x, r, y) \<in> edges g \<and> res_type x = a" by (cases rel) (auto simp: g_okD(2) [OF assms])
  next
    assume "(x, r, y) \<in> edges g \<and> res_type x = a"
    then show "x \<in> set (connectedFrom a r y g)"
      using image_eqI [of x rel_src "InRel r x y"]
      by (simp add: connectedFrom_def anyConnectedFrom_def set_lookupRes isIn_def g_okD(2) [OF assms])
  qed
  then show "set (connectedFrom a r y g) = {x. (x, r, y) \<in> edges g \<and> res_type x = a}" by blast
qed

lemma distinct_connected:
  assumes "g_ok g"
  shows "distinct (connectedTo x r b g)" "distinct (connectedFrom a r y g)"
proof -
  have "inj_on rel_dst {rel \<in> rels g x. isOut rel \<and> rel_type rel = r}"
    by (rule inj_onI) (auto simp: g_okD(2) [OF assms] elim!: isOut.elims)
  then show "distinct (connectedTo x r b g)"
    by (auto simp: connectedTo_def anyConnectedTo_def distinct_map set_lookupRes distinct_lookupRes [OF assms]
        intro!: distinct_filter elim!: inj_on_subset)
  have "inj_on rel_src {rel \<in> rels g y. \<not> isOut rel \<and> rel_type rel = r}"
    by (rule inj_onI) (auto simp: g_okD(2) [OF assms] elim!: isOut.elims)
  then show "distinct (connectedFrom a r y g)"
    by (auto simp: connectedFrom_def anyConnectedFrom_def distinct_map set_lookupRes isIn_def
        distinct_lookupRes [OF assms] intro!: distinct_filter elim!: inj_on_subset)
qed

text \<open>
  C10. Cardinalities. After any history without merges, a relation that is declared to have at most one destination of
  a type yields at most one for a source, and likewise at most one source for a destination: the
  caller, who gets the first, loses nothing.
\<close>

theorem cardinalities_respected:
  assumes "list_all (\<lambda>req. \<not> is_MergeResources req) reqs"
  shows "(snd (cards r (res_type x) b) = AtMostOne \<longrightarrow>
      length (connectedTo x r b (fst (history c cards reqs))) \<le> 1) \<and>
   (fst (cards r a (res_type y)) = AtMostOne \<longrightarrow>
      length (connectedFrom a r y (fst (history c cards reqs))) \<le> 1)"
proof (intro conjI impI)
  note ok = history_ok [of c cards reqs] history_cards [OF assms, of cards c]
  note edges = connected_edges [OF ok(1)] and distinct = distinct_connected [OF ok(1)]
  show "length (connectedTo x r b (fst (history c cards reqs))) \<le> 1"
    if "snd (cards r (res_type x) b) = AtMostOne"
  proof (rule at_most_one [OF distinct(1)])
    fix y z
    assume "y \<in> set (connectedTo x r b (fst (history c cards reqs)))"
      "z \<in> set (connectedTo x r b (fst (history c cards reqs)))"
    then show "y = z" using cards_okD(1) [OF ok(2), of x r y z b] that by (simp add: edges)
  qed
  show "length (connectedFrom a r y (fst (history c cards reqs))) \<le> 1"
    if "fst (cards r a (res_type y)) = AtMostOne"
  proof (rule at_most_one [OF distinct(2)])
    fix x z
    assume "x \<in> set (connectedFrom a r y (fst (history c cards reqs)))"
      "z \<in> set (connectedFrom a r y (fst (history c cards reqs)))"
    then show "x = z" using cards_okD(2) [OF ok(2), of x r y z a] that by (simp add: edges)
  qed
qed

definition plain_codec :: "('t, 'v, 'r, ('t, 'v) Res, ('t, 'v, 'r) Rel) codec" where
  "plain_codec = \<lparr>encRes = id, encRel = id, decRes = id, decRel = id\<rparr>"

theorem cardinalities_respected_witness:
  "length (connectedTo (Res 0 1) () 1 (fst (history plain_codec (\<lambda>_ _ _. (Unbounded, AtMostOne))
     [Connect (Res (0 :: nat) (1 :: nat)) () (Res 1 2), Connect (Res 0 1) () (Res 1 3)]))) \<le> 1"
  using cardinalities_respected [where cards = "\<lambda>_ _ _. (Unbounded, AtMostOne)" and r = "()" and
      x = "Res (0 :: nat) (1 :: nat)" and b = 1 and c = plain_codec and
      reqs = "[Connect (Res 0 1) () (Res 1 2), Connect (Res 0 1) () (Res 1 3)]"]
  by simp

text \<open>
  A merge does not respect cardinalities: two resources of which each is connected to at most one
  other are merged into one that is connected to both, and a caller sees only one of them.
\<close>

theorem merge_exceeds_cardinality:
  "length (connectedTo (Res 0 1) () 1 (fst (history plain_codec (\<lambda>_ _ _. (Unbounded, AtMostOne))
     [Connect (Res (0 :: nat) (1 :: nat)) () (Res 1 3), Connect (Res 0 2) () (Res 1 4),
      MergeResources hd 0 [1, 2]]))) = 2"
  by code_simp

lemma garbageCollect_rels:
  assumes ok: "g_ok g"
  shows "rels (garbageCollect c roots g) x = (if connected (edges g) (set roots) x then rels g x else {})"
proof -
  note gc = garbageCollect_ok [OF ok, of c roots]
  have "rel \<in> rels (garbageCollect c roots g) x \<longleftrightarrow> rel \<in> rels g x \<and> connected (edges g) (set roots) x" for rel
  proof (cases "x = local_end rel \<and> rel_edge rel \<in> edges g")
    case True
    then have "connected (edges g) (set roots) (rel_src rel) = connected (edges g) (set roots) x"
      by (cases rel) (auto dest: connected.outgoing connected.incoming)
    then show ?thesis
      using True gc by (simp add: g_okD(2) [OF ok] g_okD(2) [OF conjunct1 [OF gc]] rel_edge_def)
  next
    case False
    then show ?thesis using gc by (auto simp: g_okD(2) [OF ok] g_okD(2) [OF conjunct1 [OF gc]])
  qed
  then show ?thesis by auto
qed

text \<open>
  C11. Garbage collection is exact: a resource survives if and only if a path of edges, followed in
  either direction, connects it with one of the given roots, and survivors keep all of their relations.
\<close>

theorem garbage_collection_exact:
  "(memberResource x (garbageCollect c roots (fst (history c cards reqs))) \<longleftrightarrow>
      memberResource x (fst (history c cards reqs)) \<and>
      connected (edges (fst (history c cards reqs))) (set roots) x) \<and>
    set (lookupRes x (garbageCollect c roots (fst (history c cards reqs)))) =
      (if connected (edges (fst (history c cards reqs))) (set roots) x
       then set (lookupRes x (fst (history c cards reqs))) else {})"
proof -
  note ok = history_ok [of c cards reqs]
  show ?thesis
    using garbageCollect_ok [OF ok, of c roots] unfolding set_lookupRes garbageCollect_rels [OF ok]
    by (simp add: memberResource_nodes)
qed

end
