(* ===== verification/Graph_Reload.thy ===== *)
theory Graph_Reload
  imports Graph_Sync
begin

text \<open>
  What is read back from the store. Between two synchronisations the change log, applied to the store,
  gives the graph, unless a resource that has been removed is connected again; after a synchronisation
  \<open>buildGraph\<close> therefore gives the graph back. In the remaining case edges that were removed reappear.
\<close>

section \<open>What is stored\<close>

text \<open>The serialisation can be undone.\<close>

definition codec_ok :: "('t, 'v, 'r, 'k, 'a) codec \<Rightarrow> bool" where
  "codec_ok c \<longleftrightarrow> (\<forall>x. decRes c (encRes c x) = x) \<and> (\<forall>rel. decRel c (encRel c rel) = rel)"

text \<open>A graph as a store of encoded resources and relations.\<close>

definition enc_abs ::
  "('t, 'v, 'r, 'k, 'a) codec \<Rightarrow> (('t, 'v) Res \<Rightarrow> ('t, 'v, 'r) Rel set option) \<Rightarrow> 'k \<Rightarrow> 'a set option" where
  "enc_abs c G k =
     (if encRes c (decRes c k) = k then map_option (\<lambda>s. encRel c ` s) (G (decRes c k)) else None)"

lemma codec_okD:
  assumes "codec_ok c"
  shows "decRes c (encRes c x) = x" "decRel c (encRel c rel) = rel" "inj (encRes c)" "inj (encRel c)"
proof -
  show dec: "decRes c (encRes c x) = x" "decRel c (encRel c rel) = rel" for x rel
    using assms unfolding codec_ok_def by simp_all
  show "inj (encRes c)" by (rule inj_on_inverseI) (rule dec(1))
  show "inj (encRel c)" by (rule inj_on_inverseI) (rule dec(2))
qed

lemma enc_abs_enc: "codec_ok c \<Longrightarrow> enc_abs c G (encRes c x) = map_option (\<lambda>s. encRel c ` s) (G x)"
  by (simp add: enc_abs_def codec_okD)

lemma enc_keys:
  assumes "codec_ok c"
  shows "encRes c x \<in> fst ` set (map (\<lambda>(x, rels). (encRes c x, map (encRel c) rels)) kvs) \<longleftrightarrow> x \<in> fst ` set kvs"
    and "sets_of (encRes c x) (map (\<lambda>(x, rels). (encRes c x, map (encRel c) rels)) kvs) = encRel c ` sets_of x kvs"
proof -
  note eq = inj_eq [OF codec_okD(3) [OF assms]]
  show "encRes c x \<in> fst ` set (map (\<lambda>(x, rels). (encRes c x, map (encRel c) rels)) kvs) \<longleftrightarrow> x \<in> fst ` set kvs"
    by (induction kvs) (simp_all add: eq split_beta)
  show "sets_of (encRes c x) (map (\<lambda>(x, rels). (encRes c x, map (encRel c) rels)) kvs) = encRel c ` sets_of x kvs"
    by (induction kvs) (simp_all add: eq split_beta sets_of_Cons sets_of_Nil image_Un)
qed

lemma store_update_other:
  assumes "k \<notin> range (encRes c)" and "st k = None"
  shows "store_update (enc_update c u) st k = None"
proof -
  have "k \<noteq> encRes c x" for x using assms(1) by (metis rangeI)
  then have "k \<notin> fst ` set (map (\<lambda>(x, rels). (encRes c x, map (encRel c) rels)) kvs)" for kvs
    by (induction kvs) (simp_all add: split_beta)
  then show ?thesis using assms(2) by (cases u) simp_all
qed

lemma enc_store_update:
  assumes "codec_ok c"
  shows "enc_abs c (store_update u G) = store_update (enc_update c u) (enc_abs c G)"
proof
  fix k
  show "enc_abs c (store_update u G) k = store_update (enc_update c u) (enc_abs c G) k"
  proof (cases "k \<in> range (encRes c)")
    case True
    then obtain x where k: "k = encRes c x" by blast
    note inj = codec_okD(3,4) [OF assms]
    show ?thesis
    proof (cases u)
      case (InsertMany kvs)
      show ?thesis
        unfolding k InsertMany enc_abs_enc [OF assms] enc_update.simps store_update.simps enc_keys [OF assms]
        by (cases "G x") (simp_all add: image_Un)
    next
      case (DeleteValues kvs)
      show ?thesis
        unfolding k DeleteValues enc_abs_enc [OF assms] enc_update.simps store_update.simps enc_keys [OF assms]
        by (cases "G x") (simp_all add: image_set_diff [OF inj(2)])
    next
      case (DeleteKeys ks)
      show ?thesis
        unfolding k DeleteKeys enc_abs_enc [OF assms] enc_update.simps store_update.simps
        by (simp add: inj_image_mem_iff [OF inj(1)])
    next
      case (SetMetaInfo mi)
      show ?thesis unfolding k SetMetaInfo enc_abs_enc [OF assms] by (simp add: enc_abs_enc [OF assms])
    qed
  next
    case False
    then have "encRes c (decRes c k) \<noteq> k" by (metis rangeI)
    then have "enc_abs c H k = None" for H by (simp add: enc_abs_def)
    then show ?thesis using store_update_other [OF False, of "enc_abs c G" u] by simp
  qed
qed

text \<open>
  The store, once it has been sent the change log, will hold the graph, and the information about
  garbage collection.
\<close>

definition tracks_meta :: "('t, 'v, 'r, 'k, 'a) codec \<Rightarrow> ('t, 'v, 'r, 'k, 'a) Graph \<Rightarrow> 'k MetaInfo \<Rightarrow> bool" where
  "tracks_meta c g mi \<longleftrightarrow>
     (case cl_mi (grChangeLog g) of None \<Rightarrow> mi | Some m \<Rightarrow> m) = to_meta c (grGraphGCInfo g)"

definition tracks ::
  "('t, 'v, 'r, 'k, 'a) codec \<Rightarrow> ('t, 'v, 'r, 'k, 'a) Graph \<Rightarrow> 'k MetaInfo \<times> ('k, 'a) multimap \<Rightarrow> bool" where
  "tracks c g st \<longleftrightarrow> cl_inv (grChangeLog g) \<and> mm_wf (snd st) \<and>
     cl_abs (grChangeLog g) (mm_abs (snd st)) = enc_abs c (mm_abs (grGraph g)) \<and> tracks_meta c g (fst st)"

fun ok_log :: "('t, 'v, 'r, 'k, 'a) codec \<Rightarrow> (('t, 'v) Res, ('t, 'v, 'r) Rel) StoreUpdate list \<Rightarrow>
    ('k, 'a) ChangeLog \<Rightarrow> bool" where
  "ok_log c [] cl \<longleftrightarrow> True"
| "ok_log c (u # us) cl \<longleftrightarrow> \<not> reinserts (enc_update c u) cl \<and> ok_log c us (updateChangeLog (enc_update c u) cl)"

lemma log_abs:
  assumes "codec_ok c" and "cl_inv cl" and "ok_log c us cl" and "cl_abs cl st = enc_abs c G"
  shows "cl_inv (fold updateChangeLog (map (enc_update c) us) cl) \<and>
    cl_abs (fold updateChangeLog (map (enc_update c) us) cl) st = enc_abs c (fold store_update us G)"
  using assms(2-)
proof (induction us arbitrary: cl G)
  case (Cons u us)
  have "cl_abs (updateChangeLog (enc_update c u) cl) st = enc_abs c (store_update u G)"
    using updateChangeLog_eff [OF Cons.prems(1)] Cons.prems(2,3) by (simp add: enc_store_update [OF assms(1)])
  then show ?case using Cons.IH [OF cl_inv_update [OF Cons.prems(1)]] Cons.prems(2) by simp
qed simp

lemma tracks_logged:
  assumes "codec_ok c" and "tracks c g st" and "logged c us g g'" and "ok_log c us (grChangeLog g)"
    and "tracks_meta c g' (fst st)"
  shows "tracks c g' st"
  using assms log_abs [OF assms(1) _ assms(4), of "mm_abs (snd st)" "mm_abs (grGraph g)"]
  by (simp add: tracks_def logged_def)

subsection \<open>Each operation\<close>

lemma cl_mi_update: "cl_mi (updateChangeLog u cl) = (case u of SetMetaInfo m \<Rightarrow> Some m | _ \<Rightarrow> cl_mi cl)"
  by (cases u; cases cl) simp_all

lemma cl_dks_update:
  "cl_dks (updateChangeLog (DeleteValues kvs) cl) = cl_dks cl" "cl_dks (updateChangeLog (SetMetaInfo m) cl) = cl_dks cl"
  by (cases cl; simp)+

lemma tracks_meta_modify: "tracks_meta c (modifyGCInfo c f g) mi"
  by (simp add: tracks_meta_def modifyGCInfo_def cl_mi_update)

lemma modifyGCInfo_tracks:
  assumes "codec_ok c" and "tracks c g st"
  shows "tracks c (modifyGCInfo c f g) st" "cl_dks (grChangeLog (modifyGCInfo c f g)) = cl_dks (grChangeLog g)"
proof -
  obtain mi where log: "logged c [SetMetaInfo mi] g (modifyGCInfo c f g)" using logged_meta by blast
  show "tracks c (modifyGCInfo c f g) st"
    by (rule tracks_logged [OF assms log]) (simp_all add: tracks_meta_modify)
  show "cl_dks (grChangeLog (modifyGCInfo c f g)) = cl_dks (grChangeLog g)"
    by (simp add: modifyGCInfo_def cl_dks_update)
qed

lemma deleteEdge_tracks:
  assumes "codec_ok c" and "tracks c g st"
  shows "tracks c (deleteEdge c e g) st \<and> cl_dks (grChangeLog (deleteEdge c e g)) = cl_dks (grChangeLog g)"
proof
  obtain mi where log: "logged c (edge_removal g e @ [SetMetaInfo mi]) g (deleteEdge c e g)"
    using logged_deleteEdge by blast
  have removal: "ok_log c (edge_removal g e @ [SetMetaInfo mi]) (grChangeLog g)"
    by (simp add: edge_removal_def split: prod.split)
  have "tracks_meta c (deleteEdge c e g) (fst st)"
    by (cases e) (simp add: deleteEdge_def incrementGC_def modifySinceGC_def tracks_meta_modify)
  from tracks_logged [OF assms log removal this] show "tracks c (deleteEdge c e g) st" .
  have "grChangeLog (deleteEdge c e g) =
      fold updateChangeLog (map (enc_update c) (edge_removal g e @ [SetMetaInfo mi])) (grChangeLog g)"
    using log by (simp add: logged_def)
  then show "cl_dks (grChangeLog (deleteEdge c e g)) = cl_dks (grChangeLog g)"
    by (simp add: edge_removal_def cl_dks_update split: prod.split)
qed

lemma deleteEdges_tracks:
  assumes "codec_ok c" and "tracks c g st"
  shows "tracks c (foldr (deleteEdge c) es g) st \<and>
    cl_dks (grChangeLog (foldr (deleteEdge c) es g)) = cl_dks (grChangeLog g)"
proof (induction es)
  case (Cons e es)
  then show ?case using deleteEdge_tracks [OF assms(1), of "foldr (deleteEdge c) es g" st e] by simp
qed (simp add: assms)

lemma disconnectAll_tracks:
  assumes "codec_ok c" and "tracks c g st"
  shows "tracks c (disconnectAllFrom c x r b g) st \<and>
      cl_dks (grChangeLog (disconnectAllFrom c x r b g)) = cl_dks (grChangeLog g)"
    and "tracks c (disconnectAllTo c a r y g) st \<and>
      cl_dks (grChangeLog (disconnectAllTo c a r y g)) = cl_dks (grChangeLog g)"
  using deleteEdges_tracks [OF assms] by (simp_all add: disconnectAllFrom_def disconnectAllTo_def foldl_comp)

lemma connectUnbounded_tracks:
  assumes "codec_ok c" and "tracks c g st" and "encRes c x \<notin> set (cl_dks (grChangeLog g))"
    and "encRes c y \<notin> set (cl_dks (grChangeLog g))"
  shows "tracks c (connectUnbounded c x r y g) st"
proof (rule tracks_logged [OF assms(1,2) logged_connectUnbounded])
  show "tracks_meta c (connectUnbounded c x r y g) (fst st)"
    using assms(2) by (simp add: tracks_def tracks_meta_def connectUnbounded_def over_both_def cl_mi_update)
qed (use assms(3,4) in simp)

lemma connect_tracks:
  assumes "codec_ok c" and "tracks c g st" and "encRes c x \<notin> set (cl_dks (grChangeLog g))"
    and "encRes c y \<notin> set (cl_dks (grChangeLog g))"
  shows "tracks c (connect c cards x r y g) st"
proof -
  obtain cf ct where cards: "cards r (res_type x) (res_type y) = (cf, ct)" by fastforce
  note all = disconnectAll_tracks [OF assms(1)]
  show ?thesis
    using all(2) [OF assms(2), of "res_type x" r y] all(1) [OF assms(2), of x r "res_type y"]
      all(1) [of "disconnectAllTo c (res_type x) r y g" st x r "res_type y"] assms
    by (cases cf; cases ct)
      (simp_all add: connect_def cards connectUnique_def connectUniqueTo_def connectUniqueFrom_def
        connectUnbounded_tracks)
qed

lemma removeResource_tracks:
  assumes "codec_ok c" and "tracks c g st"
  shows "tracks c (removeResource c x g) st"
proof (cases "memberResource x g")
  case True
  show ?thesis
  proof (rule tracks_logged [OF assms logged_removeResource [OF True]])
    show "tracks_meta c (removeResource c x g) (fst st)"
      using assms(2) by (simp add: tracks_def tracks_meta_def removeResource_def Let_def cl_mi_update)
  qed simp
qed (simp add: removeResource_def assms)

lemma garbageCollect_tracks:
  assumes "codec_ok c" and "tracks c g st"
  shows "tracks c (garbageCollect c roots g) st"
proof (rule tracks_logged [OF assms logged_garbageCollect])
  show "tracks_meta c (garbageCollect c roots g) (fst st)"
    using assms(2) by (simp add: tracks_def tracks_meta_def garbageCollect_def Let_def over_both_def cl_mi_update)
qed simp

text \<open>What the change log removes is not in the graph.\<close>

lemma removed_absent:
  assumes "codec_ok c" and "tracks c g st" and "encRes c x \<in> set (cl_dks (grChangeLog g))"
  shows "x \<notin> nodes g"
proof -
  obtain "is" dvs dks mi where cl: "grChangeLog g = ChangeLog is dvs dks mi" by (cases "grChangeLog g")
  have "mm_wf is" "mm_wf dvs" using assms(2) by (simp_all add: cl tracks_def cl_inv_def)
  then have "cl_abs (grChangeLog g) (mm_abs (snd st)) (encRes c x) = None"
    using assms(3) by (simp add: cl cl_abs_eff eff_update)
  then have "map_option (\<lambda>s. encRel c ` s) (mm_abs (grGraph g) x) = None"
    using assms(2) by (simp add: tracks_def enc_abs_enc [OF assms(1)])
  then show ?thesis by (simp add: nodes_def domIff)
qed

lemma mergeResources_tracks:
  assumes "codec_ok c" and "g_ok g" and "tracks c g st" and "vs \<noteq> []"
    and "f vs \<notin> set vs" and "encRes c (Res t (f vs)) \<notin> set (cl_dks (grChangeLog g))"
  shows "tracks c (mergeResources c f t vs g) st"
proof (rule tracks_logged [OF assms(1,3) logged_mergeResources [OF assms(2,4)]])
  let ?newX = "Res t (f vs)" and ?xs = "map (Res t) vs"
  show "tracks_meta c (mergeResources c f t vs g) (fst st)"
    using assms(3,4) by (simp add: tracks_def tracks_meta_def mergeResources_def Let_def cl_mi_update)
  have dks: "set (cl_dks (updateChangeLog (DeleteKeys ks) cl)) = set (cl_dks cl) \<union> set ks" for ks :: "'d list" and cl
    by (cases cl) (simp add: set_foldr)
  have "encRes c x \<notin> set (cl_dks (grChangeLog g)) \<union> encRes c ` set ?xs"
    if "x \<in> fst ` set (insertValuesMap ?newX ?xs g)" for x
  proof -
    have "x \<in> nodes g - set ?xs \<union> {?newX}"
      using that insertValuesMap_keys [OF assms(2), of ?xs ?newX] by (auto simp: keys_mm [OF wf_maps(2)])
    then have "x \<notin> set ?xs" "encRes c x \<notin> set (cl_dks (grChangeLog g))"
      using assms(5,6) removed_absent [OF assms(1,3), of x] by auto
    then show ?thesis using inj_image_mem_iff [OF codec_okD(3) [OF assms(1)]] by blast
  qed
  then show "ok_log c (merge_updates ?newX ?xs g) (grChangeLog g)"
    by (force simp: merge_updates_def dks cl_dks_update)
qed

subsection \<open>Synchronisation\<close>

lemma cl_abs_empty: "cl_abs emptyChangeLog st = st"
  by (simp add: cl_abs_def emptyChangeLog_def fun_eq_iff option.map_ident)

lemma cl_mi_empty [simp]: "cl_mi emptyChangeLog = None"
  by (simp add: emptyChangeLog_def)

lemma updateStore_meta:
  "fst (updateStore (fromChangeLog cl) st) = (case cl_mi cl of None \<Rightarrow> fst st | Some m \<Rightarrow> m)"
  by (cases cl) (simp add: updateStore_def split: option.split)

text \<open>After a synchronisation the store itself holds the graph.\<close>

lemma sync_tracks:
  assumes "codec_ok c" and "tracks c g st"
  shows "tracks c (fst (sync c g st)) (snd (sync c g st)) \<and> grChangeLog (fst (sync c g st)) = emptyChangeLog"
proof -
  define g1 where "g1 = (if shouldGC g then garbageCollectRoot c g else g)"
  have g1: "tracks c g1 st"
    using assms(2) garbageCollect_tracks [OF assms] modifyGCInfo_tracks(1) [OF assms(1)]
    by (simp add: g1_def garbageCollectRoot_def modifySinceGC_def)
  let ?st = "updateStore (fromChangeLog (grChangeLog g1)) st"
  have "sync c g st = (g1\<lparr>grChangeLog := emptyChangeLog\<rparr>, ?st)" by (simp add: sync_def g1_def Let_def)
  moreover have "mm_wf (snd ?st)" using g1 wf_updateStore unfolding tracks_def by blast
  moreover have "mm_abs (snd ?st) = enc_abs c (mm_abs (grGraph g1))"
    using g1 unfolding tracks_def abs_updateStore cl_abs_def by simp
  moreover have "fst ?st = to_meta c (grGraphGCInfo g1)"
    using g1 by (simp add: tracks_def tracks_meta_def updateStore_meta)
  ultimately show ?thesis by (simp add: tracks_def tracks_meta_def cl_inv_empty cl_abs_empty)
qed

text \<open>
  A request connects a resource that has been removed since the last synchronisation, or merges
  resources into such a one or into one of themselves.
\<close>

fun reconnects :: "('t, 'v, 'r, 'k, 'a) codec \<Rightarrow> ('t, 'v, 'r) request \<Rightarrow> ('t, 'v, 'r, 'k, 'a) Graph \<Rightarrow> bool" where
  "reconnects c (Connect x r y) g \<longleftrightarrow>
     encRes c x \<in> set (cl_dks (grChangeLog g)) \<or> encRes c y \<in> set (cl_dks (grChangeLog g))"
| "reconnects c (MergeResources f t vs) g \<longleftrightarrow>
     vs \<noteq> [] \<and> (f vs \<in> set vs \<or> encRes c (Res t (f vs)) \<in> set (cl_dks (grChangeLog g)))"
| "reconnects c _ g \<longleftrightarrow> False"

fun never_reconnects ::
  "('t, 'v, 'r, 'k, 'a) codec \<Rightarrow> ('r \<Rightarrow> 't \<Rightarrow> 't \<Rightarrow> Cardinality \<times> Cardinality) \<Rightarrow>
   ('t, 'v, 'r) request list \<Rightarrow> ('t, 'v, 'r, 'k, 'a) replicated \<Rightarrow> bool" where
  "never_reconnects c cards [] s \<longleftrightarrow> True"
| "never_reconnects c cards (req # reqs) s \<longleftrightarrow>
     \<not> reconnects c req (fst s) \<and> never_reconnects c cards reqs (perform c cards req s)"

lemma perform_tracks:
  assumes "codec_ok c" and "g_ok (fst s)" and "tracks c (fst s) (snd s)" and "\<not> reconnects c req (fst s)"
  shows "tracks c (fst (perform c cards req s)) (snd (perform c cards req s))"
proof -
  obtain g st where s: "s = (g, st)" by (cases s)
  have g: "g_ok g" and tr: "tracks c g st" using assms(2,3) by (simp_all add: s)
  show ?thesis
  proof (cases req)
    case (Connect x r y)
    then show ?thesis using assms(4) connect_tracks [OF assms(1) tr, of x y cards r] by (simp add: s)
  next
    case (MergeResources f t vs)
    then show ?thesis
      using assms(4) tr mergeResources_tracks [OF assms(1) g tr, of vs f t] by (cases "vs = []") (simp_all add: s mergeResources_def)
  qed (simp_all add: s deleteEdge_tracks [OF assms(1) tr] disconnectAll_tracks [OF assms(1) tr]
      removeResource_tracks [OF assms(1) tr] garbageCollect_tracks [OF assms(1) tr] sync_tracks [OF assms(1) tr]
      modifyRootNodes_def modifySinceGC_def modifyGCThreshold_def modifyGCInfo_tracks(1) [OF assms(1) tr])
qed

lemma requests_track:
  assumes "codec_ok c" and "g_ok (fst s)" and "tracks c (fst s) (snd s)" and "never_reconnects c cards reqs s"
  shows "tracks c (fst (fold (perform c cards) reqs s)) (snd (fold (perform c cards) reqs s))"
  using assms(2-)
proof (induction reqs arbitrary: s)
  case (Cons req reqs)
  then show ?case using perform_ok [of s c cards req] perform_tracks [OF assms(1), of s req cards] by simp
qed simp

lemma empty_tracks: "tracks c emptyGraph (defaultMetaInfo, [])"
  by (simp add: tracks_def tracks_meta_def emptyGraph_def cl_inv_empty cl_abs_empty mm_wf_def enc_abs_def
      fun_eq_iff mm_abs_def to_meta_def defaultMetaInfo_def)

subsection \<open>Reading the graph\<close>

lemma map_of_decoded:
  assumes "codec_ok c" and "distinct (map fst m)" and "\<And>k. k \<in> fst ` set m \<Longrightarrow> encRes c (decRes c k) = k"
  shows "map_of (foldl (\<lambda>m (k, vs). AList.update (decRes c k) (remdups (map (decRel c) vs)) m) acc m) x =
    (case map_of m (encRes c x) of None \<Rightarrow> map_of acc x | Some vs \<Rightarrow> Some (remdups (map (decRel c) vs)))"
  using assms(2,3)
proof (induction m arbitrary: acc)
  case (Cons p m)
  obtain k vs where p: "p = (k, vs)" by (cases p)
  have "decRes c k = x \<longleftrightarrow> k = encRes c x" using Cons.prems(2) [of k] codec_okD(1) [OF assms(1)] by (auto simp: p)
  moreover have "map_of m k = None" using Cons.prems(1) by (simp add: p map_of_eq_None_iff)
  ultimately show ?case
    using Cons.IH [of "AList.update (decRes c k) (remdups (map (decRel c) vs)) acc"] Cons.prems
    by (auto simp: p AList.update_conv' split: option.split)
qed simp

lemma buildGraph_abs:
  assumes "codec_ok c" and "mm_wf (snd st)" and "mm_abs (snd st) = enc_abs c G"
  shows "mm_abs (grGraph (buildGraph c st)) = G"
proof
  fix x
  have keys: "encRes c (decRes c k) = k" if "k \<in> fst ` set (snd st)" for k
  proof -
    have "enc_abs c G k \<noteq> None" using that keys_mm [OF assms(2)] assms(3) by (auto simp: domIff)
    then show ?thesis by (auto simp: enc_abs_def split: if_splits)
  qed
  have "map_option set (map_of (snd st) (encRes c x)) = map_option (\<lambda>s. encRel c ` s) (G x)"
    using fun_cong [OF assms(3), of "encRes c x"] by (simp add: mm_abs_def enc_abs_enc [OF assms(1)])
  moreover have "distinct (map fst (snd st))" using assms(2) by (simp add: mm_wf_def)
  moreover have "decRel c ` encRel c ` s = s" for s
    using codec_okD(2) [OF assms(1)] by (simp add: image_image)
  ultimately show "mm_abs (grGraph (buildGraph c st)) x = G x"
    using map_of_decoded [OF assms(1) _ keys, where acc = "[]" and x = x]
    by (cases "map_of (snd st) (encRes c x)"; cases "G x") (simp_all add: buildGraph_def mm_abs_def)
qed

lemma buildGraph_meta:
  assumes "codec_ok c" and "fst st = to_meta c gi"
  shows "grGraphGCInfo (buildGraph c st) = gi"
  using assms codec_okD(1) [OF assms(1)] by (simp add: buildGraph_def to_meta_def comp_def)

text \<open>
  C7. What a synchronisation has stored is the graph: after any requests and a synchronisation, a node
  that reads the graph from the store has the same resources, the same relations of each and the same
  garbage collection information as the graph in memory. This is for a serialisation that can be undone
  and for requests that never connect a resource which was removed since the synchronisation before,
  and never merge resources into such a one or into one of themselves.
\<close>

theorem sync_roundtrip:
  assumes "codec_ok c" and "never_reconnects c cards reqs (emptyGraph, defaultMetaInfo, [])"
  shows "case history c cards (reqs @ [Sync]) of (g, st) \<Rightarrow>
    (\<forall>x. memberResource x (buildGraph c st) = memberResource x g \<and>
      set (lookupRes x (buildGraph c st)) = set (lookupRes x g)) \<and>
    grGraphGCInfo (buildGraph c st) = grGraphGCInfo g"
proof -
  obtain g0 st0 where before: "history c cards reqs = (g0, st0)"
    by (cases "history c cards reqs")
  obtain g st where after: "history c cards (reqs @ [Sync]) = (g, st)"
    by (cases "history c cards (reqs @ [Sync])")
  have "tracks c g0 st0" using requests_track [OF assms(1) _ _ assms(2)] empty_tracks [of c] empty_ok before
    by (simp add: history_def)
  from sync_tracks [OF assms(1) this] have "tracks c g st" "grChangeLog g = emptyChangeLog"
    using before after by (simp_all add: history_def)
  then have "mm_abs (grGraph (buildGraph c st)) = mm_abs (grGraph g)"
      "grGraphGCInfo (buildGraph c st) = grGraphGCInfo g"
    using buildGraph_abs [OF assms(1), of st] buildGraph_meta [OF assms(1), of st]
    by (simp_all add: tracks_def tracks_meta_def cl_abs_empty)
  then show ?thesis by (simp add: after set_lookupRes rels_def memberResource_abs)
qed

theorem sync_roundtrip_witness:
  "case history plain_codec (\<lambda>_ _ _. (Unbounded, AtMostOne))
      ([Connect (Res (0 :: nat) (1 :: nat)) () (Res 1 2), Sync, RemoveResource (Res 1 2),
        Connect (Res 0 1) () (Res 1 3), Connect (Res 0 4) () (Res 1 5), AddRootNode (Res 0 1),
        MergeResources (\<lambda>_. 6) 1 [3, 5]] @ [Sync]) of (g, st) \<Rightarrow>
    (\<forall>x. memberResource x (buildGraph plain_codec st) = memberResource x g \<and>
      set (lookupRes x (buildGraph plain_codec st)) = set (lookupRes x g)) \<and>
    grGraphGCInfo (buildGraph plain_codec st) = grGraphGCInfo g"
proof (rule sync_roundtrip)
  show "codec_ok plain_codec" by (simp add: codec_ok_def plain_codec_def)
qed code_simp


end
