(* ===== verification/Event_Queue.thy ===== *)
theory Event_Queue
  imports HPrelude
begin

text \<open>
  The event queue (\<^verbatim>\<open>HA/EventQueue/Process.hs\<close>): the replicated state that holds events until they are
  handled, the functions that replicas apply to it, and the poller that forwards new events to the
  recovery coordinator. A map is an association list; where the source lists a map in the order of its
  keys, so does the model. A sequence number is a natural number below 2^64; the print and the payload
  of a message are one value.
\<close>

section \<open>The replicated state\<close>

datatype ('u, 'p) PersistMessage = PersistMessage (persistMessageId: 'u) (persistMessage: 'p)

record ('u, 'p) EventQueue =
  eqSN :: nat
  eqMap :: "('u \<times> ('u, 'p) PersistMessage \<times> nat) list"
  eqSnMap :: "(nat \<times> 'u) list"

definition emptyEventQueue :: "('u, 'p) EventQueue" where
  "emptyEventQueue = \<lparr>eqSN = 0, eqMap = [], eqSnMap = []\<rparr>"

text \<open>\<open>succ\<close> on 64 bits, which raises an exception at the bound.\<close>

definition succ_sn :: "nat \<Rightarrow> nat option" where
  "succ_sn n = (if n + 1 < 2 ^ 64 then Some (n + 1) else None)"

definition addSerializedEvent :: "('u, 'p) PersistMessage \<Rightarrow> ('u, 'p) EventQueue \<Rightarrow> ('u, 'p) EventQueue option" where
  "addSerializedEvent msg eq =
     (case map_of (eqMap eq) (persistMessageId msg) of
        None \<Rightarrow> (case succ_sn (eqSN eq) of
          None \<Rightarrow> None
        | Some sn' \<Rightarrow> Some (eq\<lparr>eqSN := sn',
            eqMap := AList.update (persistMessageId msg) (msg, eqSN eq) (eqMap eq),
            eqSnMap := AList.update (eqSN eq) (persistMessageId msg) (eqSnMap eq)\<rparr>))
      | Some _ \<Rightarrow> Some eq)"

definition filterEvent :: "'u \<Rightarrow> ('u, 'p) EventQueue \<Rightarrow> ('u, 'p) EventQueue" where
  "filterEvent eid eq =
     eq\<lparr>eqMap := AList.delete eid (eqMap eq),
        eqSnMap := (case map_of (eqMap eq) eid of
          None \<Rightarrow> eqSnMap eq | Some me \<Rightarrow> AList.delete (snd me) (eqSnMap eq))\<rparr>"

definition clearQueue :: "('u, 'p) EventQueue \<Rightarrow> ('u, 'p) EventQueue" where
  "clearQueue eq = emptyEventQueue"

definition elems :: "(nat \<times> 'u) list \<Rightarrow> 'u list" where
  "elems m = map snd (sort_key fst m)"

definition eqReadEvents :: "nat \<Rightarrow> ('u, 'p) EventQueue \<Rightarrow> nat \<times> ('u, 'p) PersistMessage list" where
  "eqReadEvents sn eq =
     (let muuid = map_of (eqSnMap eq) sn;
          evs = filter (\<lambda>(n, u). sn < n) (eqSnMap eq) in
      (eqSN eq,
       List.map_filter (\<lambda>uuid. map_option fst (map_of (eqMap eq) uuid))
         ((case muuid of None \<Rightarrow> id | Some u \<Rightarrow> (#) u) (elems evs))))"

section \<open>The queue with its poller\<close>

text \<open>
  What happens to the queue, in the order in which the replicas agree on it. The poller of a recovery
  coordinator starts with the sequence number 0 and forwards what each reading returns.
\<close>

datatype ('u, 'p) eq_event =
    Add "('u, 'p) PersistMessage" | Trim 'u | is_Clear: Clear | Rc_spawned | Poll

record ('u, 'p) eq_system =
  queue :: "('u, 'p) EventQueue"
  poller_sn :: nat
  forwarded :: "('u, 'p) PersistMessage list"

definition poll :: "('u, 'p) eq_system \<Rightarrow> ('u, 'p) eq_system" where
  "poll s = (case eqReadEvents (poller_sn s) (queue s) of (sn', ms) \<Rightarrow>
     s\<lparr>poller_sn := sn', forwarded := forwarded s @ ms\<rparr>)"

fun eq_step :: "('u, 'p) eq_event \<Rightarrow> ('u, 'p) eq_system \<Rightarrow> ('u, 'p) eq_system option" where
  "eq_step (Add msg) s = map_option (\<lambda>eq. s\<lparr>queue := eq\<rparr>) (addSerializedEvent msg (queue s))"
| "eq_step (Trim eid) s = Some (s\<lparr>queue := filterEvent eid (queue s)\<rparr>)"
| "eq_step Clear s = Some (s\<lparr>queue := clearQueue (queue s)\<rparr>)"
| "eq_step Rc_spawned s = Some (s\<lparr>poller_sn := 0\<rparr>)"
| "eq_step Poll s = Some (poll s)"

fun eq_run :: "('u, 'p) eq_event list \<Rightarrow> ('u, 'p) eq_system \<Rightarrow> ('u, 'p) eq_system option" where
  "eq_run [] s = Some s"
| "eq_run (e # es) s = (case eq_step e s of None \<Rightarrow> None | Some t \<Rightarrow> eq_run es t)"

definition eq_start :: "('u, 'p) eq_system" where
  "eq_start = \<lparr>queue = emptyEventQueue, poller_sn = 0, forwarded = []\<rparr>"

section \<open>Invariant\<close>

text \<open>
  The two maps are each other's inverse, sequence numbers are below the next one and in the order of
  arrival, and every event is filed under its own identifier.
\<close>

definition eq_ok :: "('u, 'p) EventQueue \<Rightarrow> bool" where
  "eq_ok eq \<longleftrightarrow>
     sorted_wrt (<) (map fst (eqSnMap eq)) \<and> distinct (map fst (eqMap eq)) \<and>
     (\<forall>n u. map_of (eqSnMap eq) n = Some u \<longleftrightarrow> (\<exists>m. map_of (eqMap eq) u = Some (m, n))) \<and>
     (\<forall>u m n. map_of (eqMap eq) u = Some (m, n) \<longrightarrow> persistMessageId m = u \<and> n < eqSN eq)"

lemma eq_okD:
  assumes "eq_ok eq"
  shows "sorted_wrt (<) (map fst (eqSnMap eq))" "distinct (map fst (eqMap eq))"
    "map_of (eqSnMap eq) n = Some u \<longleftrightarrow> (\<exists>m. map_of (eqMap eq) u = Some (m, n))"
    "map_of (eqMap eq) u = Some (m, n) \<Longrightarrow> persistMessageId m = u \<and> n < eqSN eq"
  using assms by (auto simp: eq_ok_def)

lemma strict_distinct: "sorted_wrt (<) xs \<Longrightarrow> distinct (xs :: nat list)"
  by (induction xs) auto

lemma sn_distinct: "eq_ok eq \<Longrightarrow> distinct (map fst (eqSnMap eq))"
  by (rule strict_distinct [OF eq_okD(1)])

lemma sn_bound: "eq_ok eq \<Longrightarrow> (n, u) \<in> set (eqSnMap eq) \<Longrightarrow> n < eqSN eq"
  using eq_okD(3,4) map_of_is_SomeI [OF sn_distinct] by metis

lemma empty_queue_ok: "eq_ok emptyEventQueue"
  by (simp add: eq_ok_def emptyEventQueue_def)

lemma add_queue:
  assumes "eq_ok eq" and "addSerializedEvent msg eq = Some eq'"
  shows "eq' = eq \<and> map_of (eqMap eq) (persistMessageId msg) \<noteq> None \<or>
    map_of (eqMap eq) (persistMessageId msg) = None \<and> eqSN eq' = eqSN eq + 1 \<and>
    eqMap eq' = eqMap eq @ [(persistMessageId msg, msg, eqSN eq)] \<and>
    eqSnMap eq' = eqSnMap eq @ [(eqSN eq, persistMessageId msg)]"
proof (cases "map_of (eqMap eq) (persistMessageId msg)")
  case None
  have "eqSN eq \<notin> fst ` set (eqSnMap eq)" using sn_bound [OF assms(1)] by force
  moreover have "persistMessageId msg \<notin> fst ` set (eqMap eq)" using None by (simp add: map_of_eq_None_iff)
  ultimately show ?thesis
    using assms(2) None
    by (auto simp: addSerializedEvent_def succ_sn_def update_absent split: if_splits option.splits)
next
  case (Some p)
  then show ?thesis using assms(2) by (simp add: addSerializedEvent_def)
qed

lemma add_ok:
  assumes "eq_ok eq" and "addSerializedEvent msg eq = Some eq'"
  shows "eq_ok eq'"
proof (cases "map_of (eqMap eq) (persistMessageId msg)")
  case None
  let ?u = "persistMessageId msg"
  have new: "eqSN eq' = eqSN eq + 1" "eqMap eq' = eqMap eq @ [(?u, msg, eqSN eq)]"
      "eqSnMap eq' = eqSnMap eq @ [(eqSN eq, ?u)]"
    using add_queue [OF assms] None by auto
  have m: "map_of (eqMap eq') = (map_of (eqMap eq))(?u \<mapsto> (msg, eqSN eq))"
    using None by (auto simp: new map_add_def fun_eq_iff split: option.split)
  have "map_of (eqSnMap eq) (eqSN eq) = None"
    using sn_bound [OF assms(1)] by (force simp: map_of_eq_None_iff)
  then have sn: "map_of (eqSnMap eq') = (map_of (eqSnMap eq))(eqSN eq \<mapsto> ?u)"
    by (auto simp: new map_add_def fun_eq_iff split: option.split)
  show ?thesis
    unfolding eq_ok_def
  proof (intro conjI allI)
    show "sorted_wrt (<) (map fst (eqSnMap eq'))"
      using eq_okD(1) [OF assms(1)] sn_bound [OF assms(1)] by (force simp: new sorted_wrt_append)
    show "distinct (map fst (eqMap eq'))"
      using eq_okD(2) [OF assms(1)] None by (simp add: new map_of_eq_None_iff)
    show "map_of (eqSnMap eq') n = Some u \<longleftrightarrow> (\<exists>m. map_of (eqMap eq') u = Some (m, n))" for n u
      using eq_okD(3) [OF assms(1), of n u] eq_okD(4) [OF assms(1), of u _ n] None by (auto simp: m sn)
    show "map_of (eqMap eq') u = Some (k, n) \<longrightarrow> persistMessageId k = u \<and> n < eqSN eq'" for u k n
      using eq_okD(4) [OF assms(1), of u k n] by (auto simp: m new(1))
  qed
next
  case Some
  then show ?thesis using add_queue [OF assms] assms(1) by simp
qed

lemma filterEvent_sn:
  assumes "eq_ok eq"
  shows "eqSnMap (filterEvent eid eq) = filter (\<lambda>(n, u). u \<noteq> eid) (eqSnMap eq)"
proof -
  have in_map: "(n, u) \<in> set (eqSnMap eq) \<longleftrightarrow> (\<exists>m. map_of (eqMap eq) u = Some (m, n))" for n u
    unfolding map_of_eq_Some_iff [OF sn_distinct [OF assms], symmetric] by (rule eq_okD(3) [OF assms])
  show ?thesis
  proof (cases "map_of (eqMap eq) eid")
    case None
    then have "(n, eid) \<notin> set (eqSnMap eq)" for n using in_map [of n eid] by simp
    then have "\<forall>p \<in> set (eqSnMap eq). snd p \<noteq> eid" by auto
    then show ?thesis using None by (simp add: filterEvent_def split_beta filter_id_conv)
  next
    case (Some me)
    obtain m n where me: "me = (m, n)" by (cases me)
    have here: "(n, eid) \<in> set (eqSnMap eq)" using in_map [of n eid] Some by (simp add: me)
    have "k = n \<longleftrightarrow> u = eid" if "(k, u) \<in> set (eqSnMap eq)" for k u
    proof
      show "u = eid" if "k = n"
        using eq_key_imp_eq_value [OF sn_distinct [OF assms] here] that \<open>(k, u) \<in> set (eqSnMap eq)\<close> by simp
      show "k = n" if "u = eid"
        using in_map [of k eid] that \<open>(k, u) \<in> set (eqSnMap eq)\<close> Some by (simp add: me)
    qed
    note same = this
    have "filter (\<lambda>(k', _). snd me \<noteq> k') (eqSnMap eq) = filter (\<lambda>(n, u). u \<noteq> eid) (eqSnMap eq)"
    proof (rule filter_cong [OF refl])
      fix q
      assume "q \<in> set (eqSnMap eq)"
      moreover obtain k u where q: "q = (k, u)" by (cases q)
      ultimately have "k = n \<longleftrightarrow> u = eid" using same by blast
      then show "(case q of (k', _) \<Rightarrow> snd me \<noteq> k') = (case q of (n, u) \<Rightarrow> u \<noteq> eid)"
        unfolding q me prod.case snd_conv by blast
    qed
    then show ?thesis using Some by (simp add: filterEvent_def AList.delete_eq)
  qed
qed

lemma filter_ok:
  assumes "eq_ok eq"
  shows "eq_ok (filterEvent eid eq)"
proof -
  let ?eq = "filterEvent eid eq"
  have m: "map_of (eqMap ?eq) = (map_of (eqMap eq))(eid := None)" by (simp add: filterEvent_def AList.delete_conv')
  have sub: "sorted_wrt (<) (map fst (eqSnMap ?eq))"
    using eq_okD(1) [OF assms] by (simp add: filterEvent_sn [OF assms] sorted_wrt_map sorted_wrt_filter)
  have "map_of (eqSnMap ?eq) n = Some u \<longleftrightarrow> u \<noteq> eid \<and> map_of (eqSnMap eq) n = Some u" for n u
    unfolding map_of_eq_Some_iff [OF strict_distinct [OF sub]] map_of_eq_Some_iff [OF sn_distinct [OF assms]]
    by (auto simp: filterEvent_sn [OF assms])
  then show ?thesis
    using sub eq_okD(2-4) [OF assms] AList.distinct_delete [of "eqMap eq" eid]
    by (auto simp: eq_ok_def m) (auto simp: filterEvent_def)
qed

section \<open>What is read\<close>

definition from_sn :: "nat \<Rightarrow> ('u, 'p) EventQueue \<Rightarrow> ('u, 'p) PersistMessage list" where
  "from_sn p eq = map (\<lambda>(n, u). fst (the (map_of (eqMap eq) u))) (filter (\<lambda>(n, u). p \<le> n) (eqSnMap eq))"

lemma split_lookup:
  fixes m :: "(nat \<times> 'u) list"
  assumes "sorted_wrt (<) (map fst m)"
  shows "(case map_of m p of None \<Rightarrow> id | Some u \<Rightarrow> (#) u) (map snd (filter (\<lambda>(n, u). p < n) m)) =
    map snd (filter (\<lambda>(n, u). p \<le> n) m)"
  using assms
proof (induction m)
  case (Cons q m)
  obtain n u where q: "q = (n, u)" by (cases q)
  show ?case
  proof (cases "p \<le> n")
    case True
    have "\<forall>r \<in> set m. n < fst r" using Cons.prems by (simp add: q)
    then have later: "\<forall>r \<in> set m. p < fst r" using True by fastforce
    then have "map_of m p = None" by (force simp: map_of_eq_None_iff)
    moreover have "filter (\<lambda>(n, u). p < n) m = m" "filter (\<lambda>(n, u). p \<le> n) m = m"
      using later by (force simp: filter_id_conv)+
    ultimately show ?thesis using True by (auto simp: q)
  qed (use Cons in \<open>auto simp: q\<close>)
qed simp

lemma read_events:
  assumes "eq_ok eq"
  shows "eqReadEvents p eq = (eqSN eq, from_sn p eq)"
proof -
  have "sorted (map fst (filter (\<lambda>(n, u). p < n) (eqSnMap eq)))"
    using eq_okD(1) [OF assms] by (intro sorted_filter) (simp add: strict_sorted_imp_sorted)
  then have "elems (filter (\<lambda>(n, u). p < n) (eqSnMap eq)) = map snd (filter (\<lambda>(n, u). p < n) (eqSnMap eq))"
    unfolding elems_def by (simp add: sort_key_id_if_sorted)
  moreover have "List.map_filter (\<lambda>uuid. map_option fst (map_of (eqMap eq) uuid)) (map snd xs) =
      map (\<lambda>(n, u). fst (the (map_of (eqMap eq) u))) xs" if "set xs \<subseteq> set (eqSnMap eq)" for xs
    using that
  proof (induction xs)
    case (Cons q xs)
    obtain n u where q: "q = (n, u)" by (cases q)
    have "map_of (eqSnMap eq) n = Some u" using Cons.prems map_of_is_SomeI [OF sn_distinct [OF assms]] by (simp add: q)
    then obtain m where "map_of (eqMap eq) u = Some (m, n)" using eq_okD(3) [OF assms] by blast
    then show ?case using Cons by (simp add: q List.map_filter_simps)
  qed (simp add: List.map_filter_simps)
  ultimately show ?thesis
    by (simp add: eqReadEvents_def Let_def split_lookup [OF eq_okD(1) [OF assms]] from_sn_def)
qed

section \<open>The queue and its poller as lists\<close>

text \<open>
  The events held, those among them the current recovery coordinator has not been sent, and all that
  were sent, each in the order of arrival.
\<close>

type_synonym ('u, 'p) eq_lists =
  "('u, 'p) PersistMessage list \<times> ('u, 'p) PersistMessage list \<times> ('u, 'p) PersistMessage list"

fun eq_spec :: "('u, 'p) eq_event \<Rightarrow> ('u, 'p) eq_lists \<Rightarrow> ('u, 'p) eq_lists" where
  "eq_spec (Add msg) (held, unsent, sent) =
     (if persistMessageId msg \<in> persistMessageId ` set held then (held, unsent, sent)
      else (held @ [msg], unsent @ [msg], sent))"
| "eq_spec (Trim eid) (held, unsent, sent) =
     (filter (\<lambda>m. persistMessageId m \<noteq> eid) held, filter (\<lambda>m. persistMessageId m \<noteq> eid) unsent, sent)"
| "eq_spec Clear (held, unsent, sent) = ([], [], sent)"
| "eq_spec Rc_spawned (held, unsent, sent) = (held, held, sent)"
| "eq_spec Poll (held, unsent, sent) = (held, [], sent @ unsent)"

definition eq_abs :: "('u, 'p) eq_system \<Rightarrow> ('u, 'p) eq_lists" where
  "eq_abs s = (from_sn 0 (queue s), from_sn (poller_sn s) (queue s), forwarded s)"

definition sys_ok :: "('u, 'p) eq_system \<Rightarrow> bool" where
  "sys_ok s \<longleftrightarrow> eq_ok (queue s) \<and> poller_sn s \<le> eqSN (queue s)"

lemma entry_message:
  assumes "eq_ok eq" and "(n, u) \<in> set (eqSnMap eq)"
  obtains m where "map_of (eqMap eq) u = Some (m, n)" "persistMessageId m = u"
proof -
  have "map_of (eqSnMap eq) n = Some u" using assms(2) map_of_is_SomeI [OF sn_distinct [OF assms(1)]] by simp
  then obtain m where "map_of (eqMap eq) u = Some (m, n)" using eq_okD(3) [OF assms(1)] by blast
  then show ?thesis using that eq_okD(4) [OF assms(1)] by blast
qed

lemma held_ids:
  assumes "eq_ok eq"
  shows "persistMessageId ` set (from_sn 0 eq) = fst ` set (eqMap eq)"
proof -
  have "persistMessageId (fst (the (map_of (eqMap eq) u))) = u" if "(n, u) \<in> set (eqSnMap eq)" for n u
    using entry_message [OF assms that] by (metis fst_conv option.sel)
  then have "map persistMessageId (from_sn 0 eq) = map snd (eqSnMap eq)" by (auto simp: from_sn_def)
  then have "persistMessageId ` set (from_sn 0 eq) = snd ` set (eqSnMap eq)" by (metis set_map)
  also have "\<dots> = dom (map_of (eqMap eq))"
  proof (intro set_eqI iffI)
    fix u
    show "u \<in> dom (map_of (eqMap eq))" if "u \<in> snd ` set (eqSnMap eq)"
      using that by (auto elim!: entry_message [OF assms])
    assume "u \<in> dom (map_of (eqMap eq))"
    then obtain m n where "map_of (eqMap eq) u = Some (m, n)" by auto
    then have "map_of (eqSnMap eq) n = Some u" using eq_okD(3) [OF assms] by blast
    then show "u \<in> snd ` set (eqSnMap eq)" by (force dest: map_of_SomeD)
  qed
  finally show ?thesis by (simp add: dom_map_of_conv_image_fst)
qed

lemma from_sn_add:
  assumes "eq_ok eq" and "addSerializedEvent msg eq = Some eq'" and "p \<le> eqSN eq"
  shows "from_sn p eq' =
    (if persistMessageId msg \<in> persistMessageId ` set (from_sn 0 eq) then from_sn p eq else from_sn p eq @ [msg])"
proof (cases "map_of (eqMap eq) (persistMessageId msg)")
  case None
  let ?u = "persistMessageId msg"
  have new: "eqMap eq' = eqMap eq @ [(?u, msg, eqSN eq)]" "eqSnMap eq' = eqSnMap eq @ [(eqSN eq, ?u)]"
    using add_queue [OF assms(1,2)] None by auto
  have same: "map_of (eqMap eq') u = map_of (eqMap eq) u" if here: "(n, u) \<in> set (eqSnMap eq)" for n u
  proof -
    obtain m where "map_of (eqMap eq) u = Some (m, n)" by (rule entry_message [OF assms(1) here])
    then show ?thesis by (simp add: new(1) map_add_find_right)
  qed
  have "map (\<lambda>(n, u). fst (the (map_of (eqMap eq') u))) (filter (\<lambda>(n, u). p \<le> n) (eqSnMap eq)) = from_sn p eq"
    unfolding from_sn_def by (rule map_cong [OF refl]) (auto simp: same)
  moreover have "map_of (eqMap eq') ?u = Some (msg, eqSN eq)" using None by (simp add: new(1) map_add_def)
  ultimately have "from_sn p eq' = from_sn p eq @ [msg]"
    using assms(3) unfolding from_sn_def new(2) by simp
  then show ?thesis using None by (simp add: held_ids [OF assms(1)] map_of_eq_None_iff)
next
  case (Some v)
  then have "persistMessageId msg \<in> fst ` set (eqMap eq)" by (force dest: map_of_SomeD)
  then show ?thesis using add_queue [OF assms(1,2)] Some by (auto simp: held_ids [OF assms(1)])
qed

lemma from_sn_filter:
  assumes "eq_ok eq"
  shows "from_sn p (filterEvent eid eq) = filter (\<lambda>m. persistMessageId m \<noteq> eid) (from_sn p eq)"
proof -
  have "map (\<lambda>(n, u). fst (the (map_of (eqMap (filterEvent eid eq)) u))) (filter (\<lambda>(n, u). u \<noteq> eid) xs) =
      filter (\<lambda>m. persistMessageId m \<noteq> eid) (map (\<lambda>(n, u). fst (the (map_of (eqMap eq) u))) xs)"
    if "set xs \<subseteq> set (eqSnMap eq)" for xs
    using that
  proof (induction xs)
    case (Cons q xs)
    obtain n u where q: "q = (n, u)" by (cases q)
    obtain m where "map_of (eqMap eq) u = Some (m, n)" "persistMessageId m = u"
      using Cons.prems entry_message [OF assms, of n u] by (auto simp: q)
    then show ?case using Cons by (simp add: q filterEvent_def AList.delete_conv')
  qed simp
  from this [of "filter (\<lambda>(n, u). p \<le> n) (eqSnMap eq)"] show ?thesis
    unfolding from_sn_def filterEvent_sn [OF assms]
    by (subst filter_swap) (simp only: filter_is_subset simp_thms)
qed

lemma from_sn_all: "eq_ok eq \<Longrightarrow> from_sn (eqSN eq) eq = []"
  using sn_bound by (fastforce simp: from_sn_def filter_empty_conv)

lemma eq_step_ok:
  assumes "sys_ok s" and "\<not> is_Clear e" and "eq_step e s = Some t"
  shows "sys_ok t \<and> eq_abs t = eq_spec e (eq_abs s)"
proof -
  have ok: "eq_ok (queue s)" "poller_sn s \<le> eqSN (queue s)" using assms(1) by (simp_all add: sys_ok_def)
  show ?thesis
  proof (cases e)
    case (Add msg)
    then obtain q where q: "addSerializedEvent msg (queue s) = Some q" "t = s\<lparr>queue := q\<rparr>" using assms(3) by auto
    have "eqSN (queue s) \<le> eqSN q" using add_queue [OF ok(1) q(1)] by auto
    then show ?thesis
      using ok(2) add_ok [OF ok(1) q(1)] from_sn_add [OF ok(1) q(1) ok(2)] from_sn_add [OF ok(1) q(1), of 0]
      by (simp add: Add sys_ok_def eq_abs_def q(2))
  next
    case (Trim eid)
    then have t: "t = s\<lparr>queue := filterEvent eid (queue s)\<rparr>" using assms(3) by simp
    have "eqSN (filterEvent eid (queue s)) = eqSN (queue s)" by (simp add: filterEvent_def)
    then show ?thesis
      using ok(2) filter_ok [OF ok(1)] by (simp add: Trim t sys_ok_def eq_abs_def from_sn_filter [OF ok(1)])
  next
    case Clear
    then show ?thesis using assms(2) by simp
  next
    case Rc_spawned
    then have "t = s\<lparr>poller_sn := 0\<rparr>" using assms(3) by simp
    then show ?thesis using ok(1) by (simp add: Rc_spawned sys_ok_def eq_abs_def)
  next
    case Poll
    then have "t = poll s" using assms(3) by simp
    then show ?thesis
      using ok(1) by (simp add: Poll poll_def read_events [OF ok(1)] sys_ok_def eq_abs_def from_sn_all [OF ok(1)])
  qed
qed

text \<open>A run does not fail before the sequence numbers are used up.\<close>

lemma eq_step_some:
  assumes "eqSN (queue s) + 1 < 2 ^ 64"
  shows "\<exists>t. eq_step e s = Some t \<and> eqSN (queue t) \<le> eqSN (queue s) + 1"
  using assms
  by (cases e)
    (auto simp: addSerializedEvent_def succ_sn_def filterEvent_def clearQueue_def emptyEventQueue_def poll_def
      split: option.split prod.split)

lemma eq_run_refines:
  assumes "sys_ok s" and "list_all (\<lambda>e. \<not> is_Clear e) es" and "eqSN (queue s) + length es < 2 ^ 64"
  shows "\<exists>t. eq_run es s = Some t \<and> sys_ok t \<and> eq_abs t = fold eq_spec es (eq_abs s)"
  using assms
proof (induction es arbitrary: s)
  case (Cons e es)
  obtain t where t: "eq_step e s = Some t" "eqSN (queue t) \<le> eqSN (queue s) + 1"
    using eq_step_some [of s e] Cons.prems(3) by auto
  have "sys_ok t \<and> eq_abs t = eq_spec e (eq_abs s)"
    using eq_step_ok [OF Cons.prems(1) _ t(1)] Cons.prems(2) by simp
  then show ?case using Cons.IH [of t] Cons.prems(2,3) t by simp
qed simp

lemma start_ok: "sys_ok eq_start" "eq_abs eq_start = ([], [], [])" "eqSN (queue eq_start) = 0"
  by (simp_all add: sys_ok_def eq_start_def empty_queue_ok eq_abs_def from_sn_def)
    (simp_all add: emptyEventQueue_def)

text \<open>
  C12. The event queue forwards every event, in the order of arrival and once to each recovery
  coordinator: for any sequence of events added, removed and polled, with new coordinators spawned in
  between, what the poller forwards is what a list of the events held and a list of those not yet
  sent give. An event whose identifier is already in the queue is not added again. This is for a queue
  that is not cleared, and fewer than 2^64 steps.
\<close>

theorem event_queue_refines:
  assumes "list_all (\<lambda>e. \<not> is_Clear e) es" and "length es < 2 ^ 64"
  shows "\<exists>s. eq_run es eq_start = Some s \<and> eq_abs s = fold eq_spec es ([], [], [])"
proof -
  obtain s where "eq_run es eq_start = Some s" "eq_abs s = fold eq_spec es (eq_abs eq_start)"
    using eq_run_refines [OF start_ok(1) assms(1)] assms(2) by (auto simp: start_ok(3))
  then show ?thesis by (simp add: start_ok(2))
qed

theorem event_queue_refines_witness:
  "\<exists>s. eq_run [Add (PersistMessage (1 :: nat) ''a''), Add (PersistMessage 2 ''b''), Poll, Trim 1, Poll,
      Rc_spawned, Poll] eq_start = Some s \<and>
    eq_abs s = fold eq_spec [Add (PersistMessage 1 ''a''), Add (PersistMessage 2 ''b''), Poll, Trim 1, Poll,
      Rc_spawned, Poll] ([], [], [])"
  by (rule event_queue_refines) simp_all

section \<open>Clearing the queue\<close>

text \<open>An event below the poller's sequence number stays there, and is not forwarded.\<close>

definition stuck :: "('u, 'p) PersistMessage \<Rightarrow> ('u, 'p) eq_system \<Rightarrow> bool" where
  "stuck msg s \<longleftrightarrow> sys_ok s \<and>
     (\<exists>n < poller_sn s. map_of (eqMap (queue s)) (persistMessageId msg) = Some (msg, n))"

lemma stuck_not_read:
  assumes "stuck msg s"
  shows "msg \<notin> set (from_sn (poller_sn s) (queue s))"
proof
  obtain n where n: "n < poller_sn s" "map_of (eqMap (queue s)) (persistMessageId msg) = Some (msg, n)" and
    ok: "eq_ok (queue s)" using assms by (auto simp: stuck_def sys_ok_def)
  assume "msg \<in> set (from_sn (poller_sn s) (queue s))"
  then obtain k u where k: "(k, u) \<in> set (eqSnMap (queue s))" "poller_sn s \<le> k"
      "msg = fst (the (map_of (eqMap (queue s)) u))" by (auto simp: from_sn_def)
  obtain m where "map_of (eqMap (queue s)) u = Some (m, k)" "persistMessageId m = u"
    by (rule entry_message [OF ok k(1)])
  then have "map_of (eqMap (queue s)) (persistMessageId msg) = Some (msg, k)" using k(3) by simp
  then show False using n k(2) by simp
qed

lemma stuck_step:
  assumes "stuck msg s" and "\<not> is_Clear e" and "e \<noteq> Rc_spawned" and "e \<noteq> Trim (persistMessageId msg)"
    and "eq_step e s = Some t"
  shows "stuck msg t \<and> (\<exists>ms. forwarded t = forwarded s @ ms \<and> msg \<notin> set ms)"
proof -
  have ok: "sys_ok s" "eq_ok (queue s)" using assms(1) by (auto simp: stuck_def sys_ok_def)
  have t: "sys_ok t" using eq_step_ok [OF ok(1) assms(2,5)] by simp
  show ?thesis
  proof (cases e)
    case (Add new)
    then obtain q where q: "addSerializedEvent new (queue s) = Some q" "t = s\<lparr>queue := q\<rparr>" using assms(5) by auto
    then have "map_of (eqMap q) (persistMessageId msg) = map_of (eqMap (queue s)) (persistMessageId msg)"
      using add_queue [OF ok(2) q(1)] assms(1) by (auto simp: stuck_def map_add_find_right)
    then show ?thesis using assms(1) t by (simp add: stuck_def q(2))
  next
    case (Trim eid)
    then have "t = s\<lparr>queue := filterEvent eid (queue s)\<rparr>" "eid \<noteq> persistMessageId msg" using assms(4,5) by auto
    then show ?thesis using assms(1) t by (simp add: stuck_def filterEvent_def AList.delete_conv')
  next
    case Poll
    then have "t = poll s" using assms(5) by simp
    then show ?thesis
      using assms(1) t stuck_not_read [OF assms(1)]
      by (auto simp: stuck_def poll_def read_events [OF ok(2)] sys_ok_def)
  qed (use assms(2,3) in auto)
qed



end
