(* ===== verification/Cep_Buffer.thy ===== *)
theory Cep_Buffer
  imports HPrelude "HOL-Library.Product_Lexorder"
begin

text \<open>
  The message buffer of the rule engine (\<^verbatim>\<open>Network/CEP/Buffer.hs\<close>): messages of any type, found by type in
  the order of their arrival. A dynamic value is its type and its value; the map from types and indices
  is an association list, and what the source looks up in the order of its keys is looked up in a
  sorted one.
\<close>

section \<open>The buffer\<close>

datatype FIFOType = Unbounded | Bounded int

record ('ty, 'v) Buffer =
  buf_map :: "(('ty \<times> int) \<times> 'ty \<times> 'v) list"
  buf_idx :: int

definition initIndex :: int where
  "initIndex = - 1"

definition fifoBuffer :: "('ty, 'v) Buffer" where
  "fifoBuffer = \<lparr>buf_map = [], buf_idx = 0\<rparr>"

definition bufferDrop :: "int \<Rightarrow> ('ty, 'v) Buffer \<Rightarrow> ('ty, 'v) Buffer" where
  "bufferDrop i b = b\<lparr>buf_map := filter (\<lambda>((_, ei), _). ei \<ge> i) (buf_map b)\<rparr>"

definition bufferInsert :: "FIFOType \<Rightarrow> 'ty \<times> 'v \<Rightarrow> ('ty, 'v) Buffer \<Rightarrow> ('ty, 'v) Buffer" where
  "bufferInsert tpe e b =
     (let b' = b\<lparr>buf_map := AList.update (fst e, buf_idx b) e (buf_map b), buf_idx := buf_idx b + 1\<rparr> in
      case tpe of
        Bounded limit \<Rightarrow>
          if int (length (buf_map b)) \<ge> limit then bufferDrop (buf_idx b' - limit) b' else b'
      | Unbounded \<Rightarrow> b')"

definition lookupGT :: "'k :: linorder \<Rightarrow> ('k \<times> 'v) list \<Rightarrow> ('k \<times> 'v) option" where
  "lookupGT k m = (case filter (\<lambda>p. k < fst p) (sort_key fst m) of [] \<Rightarrow> None | p # _ \<Rightarrow> Some p)"

definition fromDynamic :: "'ty \<Rightarrow> 'ty \<times> 'v \<Rightarrow> 'v option" where
  "fromDynamic ty d = (if fst d = ty then Some (snd d) else None)"

definition bufferGetWithIndex ::
  "'ty :: linorder \<Rightarrow> int \<Rightarrow> ('ty, 'v) Buffer \<Rightarrow> (int \<times> 'v \<times> ('ty, 'v) Buffer) option" where
  "bufferGetWithIndex ty i b =
     (case lookupGT (ty, i) (buf_map b) of
        None \<Rightarrow> None
      | Some (k, d) \<Rightarrow> (case fromDynamic ty d of
          None \<Rightarrow> None
        | Some e \<Rightarrow> Some (snd k, e, b\<lparr>buf_map := AList.delete k (buf_map b)\<rparr>)))"

definition bufferGet :: "'ty :: linorder \<Rightarrow> ('ty, 'v) Buffer \<Rightarrow> (int \<times> 'v \<times> ('ty, 'v) Buffer) option" where
  "bufferGet ty = bufferGetWithIndex ty initIndex"

definition bufferPeek :: "'ty :: linorder \<Rightarrow> int \<Rightarrow> ('ty, 'v) Buffer \<Rightarrow> (int \<times> 'v) option" where
  "bufferPeek ty i b = map_option (\<lambda>(i, a, _). (i, a)) (bufferGetWithIndex ty i b)"

definition bufferLength :: "('ty, 'v) Buffer \<Rightarrow> nat" where
  "bufferLength b = length (buf_map b)"

definition bufferEmpty :: "('ty, 'v) Buffer \<Rightarrow> bool" where
  "bufferEmpty b = (bufferLength b = 0)"

section \<open>Looking up the next key\<close>

lemma lookupGT_None: "lookupGT k m = None \<longleftrightarrow> (\<forall>p \<in> set m. \<not> k < fst p)"
  by (auto simp: lookupGT_def filter_empty_conv split: list.split)
    (metis filter_empty_conv list.distinct(1) set_sort)

lemma lookupGT_Some:
  assumes "lookupGT k m = Some p"
  shows "p \<in> set m \<and> k < fst p \<and> (\<forall>q \<in> set m. k < fst q \<longrightarrow> fst p \<le> fst q)"
proof -
  obtain ps where ps: "filter (\<lambda>p. k < fst p) (sort_key fst m) = p # ps"
    using assms by (auto simp: lookupGT_def split: list.splits)
  have "p \<in> set (filter (\<lambda>p. k < fst p) (sort_key fst m))" by (simp add: ps)
  moreover have "sorted (map fst (p # ps))"
    unfolding ps [symmetric] by (rule sorted_filter) simp
  moreover have "q \<in> set (p # ps)" if "q \<in> set m" "k < fst q" for q
    unfolding ps [symmetric] using that by simp
  ultimately show ?thesis by fastforce
qed

section \<open>Messages in the order of arrival\<close>

text \<open>
  What a buffer promises: a list of messages with increasing indices, and the next index.
\<close>

type_synonym ('ty, 'v) fifo = "(int \<times> 'ty \<times> 'v) list \<times> int"

definition spec_insert :: "FIFOType \<Rightarrow> 'ty \<times> 'v \<Rightarrow> ('ty, 'v) fifo \<Rightarrow> ('ty, 'v) fifo" where
  "spec_insert tpe e f = (case f of (ms, n) \<Rightarrow>
     (case tpe of
        Bounded limit \<Rightarrow> if int (length ms) \<ge> limit then filter (\<lambda>m. fst m > n - limit) (ms @ [(n, e)])
          else ms @ [(n, e)]
      | Unbounded \<Rightarrow> ms @ [(n, e)], n + 1))"

definition spec_get :: "'ty \<Rightarrow> int \<Rightarrow> ('ty, 'v) fifo \<Rightarrow> (int \<times> 'v \<times> ('ty, 'v) fifo) option" where
  "spec_get ty i f = (case f of (ms, n) \<Rightarrow>
     map_option (\<lambda>m. (fst m, snd (snd m), filter (\<lambda>m'. fst m' \<noteq> fst m) ms, n))
       (List.find (\<lambda>m. fst (snd m) = ty \<and> i < fst m) ms))"

definition spec_drop :: "int \<Rightarrow> ('ty, 'v) fifo \<Rightarrow> ('ty, 'v) fifo" where
  "spec_drop i f = (filter (\<lambda>m. fst m \<ge> i) (fst f), snd f)"

definition buf_rel :: "('ty, 'v) Buffer \<Rightarrow> ('ty, 'v) fifo \<Rightarrow> bool" where
  "buf_rel b f \<longleftrightarrow> distinct (map fst (buf_map b)) \<and> sorted_wrt (<) (map fst (fst f)) \<and>
     (\<forall>m \<in> set (fst f). fst m < snd f) \<and> buf_idx b = snd f \<and> length (buf_map b) = length (fst f) \<and>
     set (buf_map b) = (\<lambda>m. ((fst (snd m), fst m), snd m)) ` set (fst f)"

lemma fifo_empty: "buf_rel fifoBuffer ([], 0)"
  by (simp add: buf_rel_def fifoBuffer_def)

lemma fifo_distinct: "sorted_wrt (<) (map fst ms) \<Longrightarrow> distinct (map (fst :: int \<times> 'm \<Rightarrow> int) ms)"
  by (induction ms) auto

lemma buf_length:
  assumes "distinct (map fst bm)" and "sorted_wrt (<) (map fst ms)"
    and "set bm = (\<lambda>m. ((fst (snd m), fst m), snd m)) ` set (ms :: (int \<times> 'ty \<times> 'v) list)"
  shows "length bm = length ms"
proof -
  have "length bm = card (set bm)" using assms(1) by (simp add: distinct_card distinct_map)
  also have "\<dots> = card (set ms)" unfolding assms(3) by (rule card_image) (auto simp: inj_on_def)
  also have "\<dots> = length ms" using fifo_distinct [OF assms(2)] by (simp add: distinct_card distinct_map)
  finally show ?thesis .
qed

lemma buf_relI:
  assumes "distinct (map fst (buf_map b))" and "sorted_wrt (<) (map fst ms)" and "\<forall>m \<in> set ms. fst m < n"
    and "buf_idx b = n" and "set (buf_map b) = (\<lambda>m. ((fst (snd m), fst m), snd m)) ` set ms"
  shows "buf_rel b (ms, n)"
  using assms buf_length [OF assms(1,2,5)] by (simp add: buf_rel_def)

lemma drop_rel:
  assumes "buf_rel b f"
  shows "buf_rel (bufferDrop i b) (spec_drop i f)"
proof -
  obtain ms n where f: "f = (ms, n)" by (cases f)
  show ?thesis
    unfolding spec_drop_def f fst_conv snd_conv
  proof (rule buf_relI)
    show "distinct (map fst (buf_map (bufferDrop i b)))"
      using assms by (simp add: buf_rel_def bufferDrop_def distinct_map_filter)
    show "sorted_wrt (<) (map fst (filter (\<lambda>m. i \<le> fst m) ms))"
      using assms by (simp add: buf_rel_def f sorted_wrt_map sorted_wrt_filter)
  qed (use assms in \<open>auto simp: buf_rel_def bufferDrop_def f\<close>)
qed

lemma append_rel:
  assumes "buf_rel b (ms, n)"
  shows "buf_rel (b\<lparr>buf_map := AList.update (fst e, n) e (buf_map b), buf_idx := n + 1\<rparr>) (ms @ [(n, e)], n + 1)"
proof (rule buf_relI)
  have new: "(fst e, n) \<notin> fst ` set (buf_map b)" using assms by (auto simp: buf_rel_def)
  then have "AList.update (fst e, n) e (buf_map b) = buf_map b @ [((fst e, n), e)]"
    by (rule update_absent)
  then show "set (buf_map (b\<lparr>buf_map := AList.update (fst e, n) e (buf_map b), buf_idx := n + 1\<rparr>)) =
      (\<lambda>m. ((fst (snd m), fst m), snd m)) ` set (ms @ [(n, e)])"
    using assms by (auto simp: buf_rel_def)
  show "sorted_wrt (<) (map fst (ms @ [(n, e)]))" using assms by (auto simp: buf_rel_def sorted_wrt_append)
qed (use assms in \<open>auto simp: buf_rel_def AList.distinct_update\<close>)

lemma insert_rel:
  assumes "buf_rel b f"
  shows "buf_rel (bufferInsert tpe e b) (spec_insert tpe e f)"
proof -
  obtain ms n where f: "f = (ms, n)" by (cases f)
  let ?b = "b\<lparr>buf_map := AList.update (fst e, n) e (buf_map b), buf_idx := n + 1\<rparr>"
  have idx: "buf_idx b = n" "length (buf_map b) = length ms" using assms by (simp_all add: buf_rel_def f)
  note app = append_rel [OF assms [unfolded f], of e]
  show ?thesis
  proof (cases tpe)
    case Unbounded
    then show ?thesis using app by (simp add: bufferInsert_def spec_insert_def f idx)
  next
    case (Bounded limit)
    have "filter (\<lambda>m. fst m \<ge> n + 1 - limit) xs = filter (\<lambda>m. fst m > n - limit) xs" for xs :: "(int \<times> 'a \<times> 'b) list"
      by (rule filter_cong) auto
    then have "buf_rel (bufferDrop (n + 1 - limit) ?b) (filter (\<lambda>m. fst m > n - limit) (ms @ [(n, e)]), n + 1)"
      using drop_rel [OF app, of "n + 1 - limit"] by (simp add: spec_drop_def)
    then show ?thesis using app Bounded by (simp add: bufferInsert_def spec_insert_def f idx Let_def)
  qed
qed

text \<open>The result of a lookup, and that of the specification, agree.\<close>

fun get_rel :: "(int \<times> 'v \<times> ('ty, 'v) Buffer) option \<Rightarrow> (int \<times> 'v \<times> ('ty, 'v) fifo) option \<Rightarrow> bool" where
  "get_rel None None = True"
| "get_rel (Some (i, v, b)) (Some (j, w, f)) = (i = j \<and> v = w \<and> buf_rel b f)"
| "get_rel _ _ = False"

lemma find_first:
  assumes "sorted_wrt (<) (map fst ms)" and "m \<in> set ms" and "P m"
    and "\<forall>m' \<in> set ms. P m' \<longrightarrow> fst m \<le> (fst m' :: int)"
  shows "List.find P ms = Some m"
  using assms
proof (induction ms)
  case (Cons a ms)
  show ?case
  proof (cases "P a")
    case True
    then have "fst m \<le> fst a" using Cons.prems(4) by simp
    then have "m = a" using Cons.prems(1,2) by auto
    then show ?thesis using True by simp
  qed (use Cons in auto)
qed simp

lemma remove_rel:
  assumes "buf_rel b (ms, n)" and "(i, ty, v) \<in> set ms"
  shows "buf_rel (b\<lparr>buf_map := AList.delete (ty, i) (buf_map b)\<rparr>) (filter (\<lambda>m'. fst m' \<noteq> i) ms, n)"
proof (rule buf_relI)
  have one: "m = (i, ty, v)" if "m \<in> set ms" "fst m = i" for m
    using that assms eq_key_imp_eq_value [of ms i "(ty, v)" "snd m"] fifo_distinct [of ms]
    by (cases m) (auto simp: buf_rel_def)
  show "sorted_wrt (<) (map fst (filter (\<lambda>m'. fst m' \<noteq> i) ms))"
    using assms(1) by (simp add: buf_rel_def sorted_wrt_map sorted_wrt_filter)
  show "set (buf_map (b\<lparr>buf_map := AList.delete (ty, i) (buf_map b)\<rparr>)) =
      (\<lambda>m. ((fst (snd m), fst m), snd m)) ` set (filter (\<lambda>m'. fst m' \<noteq> i) ms)"
  proof -
    have "set (AList.delete (ty, i) (buf_map b)) = {p \<in> set (buf_map b). fst p \<noteq> (ty, i)}"
      by (auto simp: AList.delete_eq)
    also have "\<dots> = (\<lambda>m. ((fst (snd m), fst m), snd m)) ` {m \<in> set ms. (fst (snd m), fst m) \<noteq> (ty, i)}"
      using assms(1) by (auto simp: buf_rel_def)
    also have "{m \<in> set ms. (fst (snd m), fst m) \<noteq> (ty, i)} = set (filter (\<lambda>m'. fst m' \<noteq> i) ms)"
      using one by fastforce
    finally show ?thesis by simp
  qed
qed (use assms in \<open>auto simp: buf_rel_def AList.distinct_delete\<close>)

lemma get_rel:
  fixes b :: "('ty :: linorder, 'v) Buffer"
  assumes "buf_rel b f"
  shows "get_rel (bufferGetWithIndex ty i b) (spec_get ty i f)"
proof -
  obtain ms n where f: "f = (ms, n)" by (cases f)
  have rel: "buf_rel b (ms, n)" using assms by (simp add: f)
  have "set (buf_map b) = (\<lambda>m. ((fst (snd m), fst m), snd m)) ` set ms" using rel by (simp add: buf_rel_def)
  then have entries: "((t, j), d) \<in> set (buf_map b) \<longleftrightarrow> (j, d) \<in> set ms \<and> fst d = t" for t j d
    by (auto simp: image_iff intro: rev_bexI)
  show ?thesis
  proof (cases "\<exists>m \<in> set ms. fst (snd m) = ty \<and> i < fst m")
    case False
    then have "List.find (\<lambda>m. fst (snd m) = ty \<and> i < fst m) ms = None" by (auto simp: find_None_iff)
    moreover have "bufferGetWithIndex ty i b = None"
    proof (cases "lookupGT (ty, i) (buf_map b)")
      case (Some p)
      obtain t j d where p: "p = ((t, j), d)" by (metis prod.exhaust)
      have "(j, d) \<in> set ms" "fst d = t" "(ty, i) < (t, j)"
        using lookupGT_Some [OF Some] entries [of t j d] by (auto simp: p)
      then have "fst d \<noteq> ty" using False by force
      then show ?thesis using Some by (simp add: bufferGetWithIndex_def p fromDynamic_def)
    qed (simp add: bufferGetWithIndex_def)
    ultimately show ?thesis by (simp add: spec_get_def f)
  next
    case True
    then obtain m0 where m0: "m0 \<in> set ms" "fst (snd m0) = ty" "i < fst m0" by blast
    have key: "((ty, fst m0), snd m0) \<in> set (buf_map b)" using m0 entries by (metis prod.collapse)
    then obtain p where p: "lookupGT (ty, i) (buf_map b) = Some p"
      using lookupGT_None [of "(ty, i)" "buf_map b"] m0(3) by (cases "lookupGT (ty, i) (buf_map b)") force+
    obtain t j d where tj: "p = ((t, j), d)" by (metis prod.exhaust)
    have least: "(j, d) \<in> set ms" "fst d = t" "(ty, i) < (t, j)"
        "\<And>q. q \<in> set (buf_map b) \<Longrightarrow> (ty, i) < fst q \<Longrightarrow> (t, j) \<le> fst q"
      using lookupGT_Some [OF p] entries [of t j d] by (auto simp: tj)
    have "(t, j) \<le> (ty, fst m0)" using least(4) [OF key] m0(3) by simp
    then have t: "t = ty" "i < j" using least(3) by auto
    have "fst (j, d) \<le> fst m" if "m \<in> set ms" "fst (snd m) = ty \<and> i < fst m" for m
      using least(4) [of "((ty, fst m), snd m)"] that entries [of ty "fst m" "snd m"] t by simp
    then have "List.find (\<lambda>m. fst (snd m) = ty \<and> i < fst m) ms = Some (j, d)"
      using rel least(1,2) t by (intro find_first) (auto simp: buf_rel_def)
    moreover have "buf_rel (b\<lparr>buf_map := AList.delete (ty, j) (buf_map b)\<rparr>) (filter (\<lambda>m'. fst m' \<noteq> j) ms, n)"
      using least(1,2) t by (intro remove_rel [OF rel, of j ty "snd d"]) (cases d, simp)
    ultimately show ?thesis
      using p least(2) t by (simp add: bufferGetWithIndex_def spec_get_def f tj fromDynamic_def)
  qed
qed

section \<open>Sequences of operations\<close>

datatype ('ty, 'v) buf_op = Insert "'ty \<times> 'v" | Get 'ty int | Drop int

text \<open>Operations on a buffer, and on its specification, with the answers given so far.\<close>

fun buf_step ::
  "FIFOType \<Rightarrow> ('ty :: linorder, 'v) buf_op \<Rightarrow> ('ty, 'v) Buffer \<times> (int \<times> 'v) option list \<Rightarrow>
   ('ty, 'v) Buffer \<times> (int \<times> 'v) option list" where
  "buf_step tpe (Insert e) (b, out) = (bufferInsert tpe e b, out)"
| "buf_step tpe (Get ty i) (b, out) =
     (case bufferGetWithIndex ty i b of None \<Rightarrow> (b, out @ [None]) | Some (j, v, b') \<Rightarrow> (b', out @ [Some (j, v)]))"
| "buf_step tpe (Drop i) (b, out) = (bufferDrop i b, out)"

fun spec_step ::
  "FIFOType \<Rightarrow> ('ty :: linorder, 'v) buf_op \<Rightarrow> ('ty, 'v) fifo \<times> (int \<times> 'v) option list \<Rightarrow>
   ('ty, 'v) fifo \<times> (int \<times> 'v) option list" where
  "spec_step tpe (Insert e) (f, out) = (spec_insert tpe e f, out)"
| "spec_step tpe (Get ty i) (f, out) =
     (case spec_get ty i f of None \<Rightarrow> (f, out @ [None]) | Some (j, v, f') \<Rightarrow> (f', out @ [Some (j, v)]))"
| "spec_step tpe (Drop i) (f, out) = (spec_drop i f, out)"

definition buf_run where
  "buf_run tpe ops = fold (buf_step tpe) ops (fifoBuffer, [])"

definition spec_run where
  "spec_run tpe ops = fold (spec_step tpe) ops (([], 0), [])"

lemma step_rel:
  assumes "buf_rel (fst s) (fst t)" and "snd s = snd t"
  shows "buf_rel (fst (buf_step tpe op s)) (fst (spec_step tpe op t)) \<and>
    snd (buf_step tpe op s) = snd (spec_step tpe op t)"
proof -
  obtain b out f where st: "s = (b, out)" "t = (f, out)" using assms(2) by (metis prod.collapse)
  have rel: "buf_rel b f" using assms(1) by (simp add: st)
  show ?thesis
  proof (cases op)
    case (Get ty i)
    show ?thesis
      using get_rel [OF rel, of ty i] rel
      by (cases "(bufferGetWithIndex ty i b, spec_get ty i f)" rule: get_rel.cases) (simp_all add: Get st)
  qed (simp_all add: st insert_rel [OF rel] drop_rel [OF rel])
qed

lemma run_rel:
  "buf_rel (fst (buf_run tpe ops)) (fst (spec_run tpe ops)) \<and> snd (buf_run tpe ops) = snd (spec_run tpe ops)"
  unfolding buf_run_def spec_run_def
  by (induction ops rule: rev_induct) (simp_all add: fifo_empty step_rel)


lemma range_length:
  assumes "sorted_wrt (<) (map fst ms)" and "\<forall>m \<in> set ms. a < fst m \<and> fst m \<le> (b :: int)"
  shows "length ms \<le> nat (b - a)"
proof -
  have "length ms = card (set (map fst ms))" using fifo_distinct [OF assms(1)] by (simp only: distinct_card length_map)
  also have "\<dots> \<le> card {a<..b}" using assms(2) by (intro card_mono) auto
  finally show ?thesis by simp
qed

lemma spec_step_bounded:
  assumes "buf_rel b (fst t)" and "length (fst (fst t)) \<le> nat limit"
  shows "length (fst (fst (spec_step (Bounded limit) op t))) \<le> nat limit"
proof -
  obtain ms n out where t: "t = ((ms, n), out)" by (metis prod.collapse)
  have ms: "sorted_wrt (<) (map fst ms)" "\<forall>m \<in> set ms. fst m < n" using assms(1) by (simp_all add: buf_rel_def t)
  have len: "length (filter P ms) \<le> nat limit" for P
    by (rule order_trans [OF length_filter_le]) (use assms(2) in \<open>simp add: t\<close>)
  show ?thesis
  proof (cases op)
    case (Insert e)
    have "length (filter (\<lambda>m. fst m > n - limit) (ms @ [(n, e)])) \<le> nat (n - (n - limit))"
    proof (rule range_length)
      have "sorted_wrt (<) (map fst (ms @ [(n, e)]))" using ms by (auto simp: sorted_wrt_append)
      then show "sorted_wrt (<) (map fst (filter (\<lambda>m. fst m > n - limit) (ms @ [(n, e)])))"
        by (simp only: sorted_wrt_map sorted_wrt_filter)
    qed (use ms in auto)
    then show ?thesis using assms(2) by (auto simp: Insert t spec_insert_def)
  next
    case (Get ty i)
    then show ?thesis using assms(2) len by (auto simp: t spec_get_def split: option.split)
  qed (use len in \<open>simp add: t spec_drop_def\<close>)
qed

text \<open>
  A bounded buffer never holds more messages than its limit, and none if the limit is not positive.
\<close>

theorem bounded_buffer_length: "bufferLength (fst (buf_run (Bounded limit) ops)) \<le> nat limit"
proof -
  have "length (fst (fst (spec_run (Bounded limit) ops))) \<le> nat limit"
  proof (induction ops rule: rev_induct)
    case (snoc op ops)
    have "spec_run (Bounded limit) (ops @ [op]) = spec_step (Bounded limit) op (spec_run (Bounded limit) ops)"
      by (simp add: spec_run_def)
    then show ?case using spec_step_bounded [OF conjunct1 [OF run_rel] snoc] by simp
  qed (simp add: spec_run_def)
  then show ?thesis using run_rel [of "Bounded limit" ops] by (simp add: buf_rel_def bufferLength_def)
qed

text \<open>
  A bounded buffer that is full is to discard the oldest message when a new one is inserted. It
  counts by index instead: when messages have been taken out of order, several are discarded at once.
  Here a buffer for three messages, with three in it, is left with two by an insertion.
\<close>

theorem bounded_buffer_discards_several:
  "bufferLength (fst (buf_run (Bounded 3)
     [Insert (0 :: nat, ''a''), Insert (0, ''b''), Insert (1, ''c''), Get 1 initIndex, Insert (0, ''d'')])) = 3 \<and>
   bufferLength (fst (buf_run (Bounded 3)
     [Insert (0 :: nat, ''a''), Insert (0, ''b''), Insert (1, ''c''), Get 1 initIndex, Insert (0, ''d''),
      Insert (0, ''e'')])) = 2"
  by code_simp

end
