(* ===== verification/Mero_States.thy ===== *)
theory Mero_States
  imports HPrelude
begin

text \<open>
  The states of Mero's configuration objects and the transitions between them that the recovery
  coordinator makes (\<^verbatim>\<open>HA/Resources/Mero.hs\<close>, \<^verbatim>\<open>Note.hs\<close>, \<^verbatim>\<open>Mero/Transitions.hs\<close>): storage devices, services
  and processes, and the state that Mero is notified of.
\<close>

section \<open>States\<close>

datatype ConfObjectState =
    M0_NC_UNKNOWN | M0_NC_ONLINE | M0_NC_FAILED | M0_NC_TRANSIENT | M0_NC_REPAIR | M0_NC_REPAIRED | M0_NC_REBALANCE

datatype SDevState =
    SDSUnknown | SDSOnline | SDSFailed | SDSRepairing | SDSRepaired | SDSRebalancing
  | SDSInhibited SDevState | SDSTransient SDevState

datatype ServiceState =
    SSUnknown | SSOffline | SSFailed | SSOnline | SSStarting | SSStopping | SSInhibited ServiceState

datatype ProcessState =
    PSUnknown | PSOffline | PSStarting | PSOnline | PSQuiescing | PSStopping
  | PSFailed string | PSInhibited ProcessState

text \<open>\<open>toConfObjState\<close> of each kind of object.\<close>

fun sdev_conf :: "SDevState \<Rightarrow> ConfObjectState" where
  "sdev_conf SDSUnknown = M0_NC_ONLINE"
| "sdev_conf SDSOnline = M0_NC_ONLINE"
| "sdev_conf SDSFailed = M0_NC_FAILED"
| "sdev_conf SDSRepairing = M0_NC_REPAIR"
| "sdev_conf SDSRepaired = M0_NC_REPAIRED"
| "sdev_conf SDSRebalancing = M0_NC_REBALANCE"
| "sdev_conf (SDSTransient SDSFailed) = M0_NC_FAILED"
| "sdev_conf (SDSTransient SDSRepairing) = M0_NC_REPAIR"
| "sdev_conf (SDSTransient SDSRepaired) = M0_NC_REPAIRED"
| "sdev_conf (SDSTransient SDSRebalancing) = M0_NC_REBALANCE"
| "sdev_conf (SDSTransient _) = M0_NC_TRANSIENT"
| "sdev_conf (SDSInhibited _) = M0_NC_TRANSIENT"

fun service_conf :: "ServiceState \<Rightarrow> ConfObjectState" where
  "service_conf SSUnknown = M0_NC_ONLINE"
| "service_conf SSOffline = M0_NC_FAILED"
| "service_conf SSFailed = M0_NC_FAILED"
| "service_conf SSOnline = M0_NC_ONLINE"
| "service_conf SSStopping = M0_NC_ONLINE"
| "service_conf SSStarting = M0_NC_ONLINE"
| "service_conf (SSInhibited SSFailed) = M0_NC_FAILED"
| "service_conf (SSInhibited _) = M0_NC_TRANSIENT"

fun process_conf :: "ProcessState \<Rightarrow> ConfObjectState" where
  "process_conf PSUnknown = M0_NC_ONLINE"
| "process_conf (PSFailed _) = M0_NC_FAILED"
| "process_conf PSOffline = M0_NC_FAILED"
| "process_conf PSStarting = M0_NC_TRANSIENT"
| "process_conf PSQuiescing = M0_NC_TRANSIENT"
| "process_conf PSStopping = M0_NC_TRANSIENT"
| "process_conf PSOnline = M0_NC_ONLINE"
| "process_conf (PSInhibited PSOnline) = M0_NC_TRANSIENT"
| "process_conf (PSInhibited y) = process_conf y"

section \<open>Transitions\<close>

text \<open>An invalid transition carries a message about where it was tried, which is left out.\<close>

datatype 's TransitionResult = TransitionTo 's | NoTransition | InvalidTransition

type_synonym 's Transition = "'s \<Rightarrow> 's TransitionResult"

definition runTransition :: "'s Transition \<Rightarrow> 's \<Rightarrow> 's TransitionResult" where
  "runTransition runTr st = (case runTr st of
     TransitionTo st' \<Rightarrow> if st = st' then NoTransition else TransitionTo st'
   | r \<Rightarrow> r)"

definition constTransition :: "'s \<Rightarrow> 's Transition" where
  "constTransition st = (\<lambda>_. TransitionTo st)"

subsection \<open>Processes\<close>

text \<open>The message of the time-out, with the elapsed time, is a parameter.\<close>

fun processKeepaliveTimeout :: "string \<Rightarrow> ProcessState Transition" where
  "processKeepaliveTimeout m PSOnline = TransitionTo (PSFailed m)"
| "processKeepaliveTimeout m PSStarting = TransitionTo (PSFailed m)"
| "processKeepaliveTimeout m PSQuiescing = TransitionTo (PSFailed m)"
| "processKeepaliveTimeout m PSStopping = TransitionTo (PSFailed m)"
| "processKeepaliveTimeout m _ = InvalidTransition"

fun processFailed :: "string \<Rightarrow> ProcessState Transition" where
  "processFailed m PSOffline = InvalidTransition"
| "processFailed m (PSFailed _) = NoTransition"
| "processFailed m _ = TransitionTo (PSFailed m)"

definition processHAOnline :: "ProcessState Transition" where
  "processHAOnline = constTransition PSOnline"

fun processOnline :: "ProcessState Transition" where
  "processOnline PSStarting = TransitionTo PSOnline"
| "processOnline _ = InvalidTransition"

fun processStopping :: "ProcessState Transition" where
  "processStopping PSQuiescing = TransitionTo PSStopping"
| "processStopping _ = InvalidTransition"

fun processHAStopping :: "ProcessState Transition" where
  "processHAStopping PSOnline = TransitionTo PSStopping"
| "processHAStopping _ = InvalidTransition"

definition processStarting :: "ProcessState Transition" where
  "processStarting = constTransition PSStarting"

fun processOffline :: "ProcessState Transition" where
  "processOffline PSStopping = TransitionTo PSOffline"
| "processOffline _ = InvalidTransition"

definition processQuiescing :: "ProcessState Transition" where
  "processQuiescing = constTransition PSQuiescing"

definition processUnknown :: "ProcessState Transition" where
  "processUnknown = constTransition PSUnknown"

fun nodeFailsProcess :: "ProcessState Transition" where
  "nodeFailsProcess (PSFailed _) = NoTransition"
| "nodeFailsProcess (PSInhibited _) = NoTransition"
| "nodeFailsProcess x = TransitionTo (PSInhibited x)"

fun nodeUnfailsProcess :: "ProcessState Transition" where
  "nodeUnfailsProcess (PSInhibited PSOffline) = TransitionTo PSOffline"
| "nodeUnfailsProcess (PSInhibited PSUnknown) = TransitionTo PSUnknown"
| "nodeUnfailsProcess (PSInhibited (PSInhibited y)) = nodeUnfailsProcess (PSInhibited y)"
| "nodeUnfailsProcess (PSInhibited _) = TransitionTo (PSFailed ''node failure'')"
| "nodeUnfailsProcess _ = NoTransition"

subsection \<open>Services\<close>

fun serviceOnline :: "ServiceState Transition" where
  "serviceOnline SSUnknown = TransitionTo SSOnline"
| "serviceOnline SSStarting = TransitionTo SSOnline"
| "serviceOnline _ = InvalidTransition"

definition serviceOffline :: "ServiceState Transition" where
  "serviceOffline = constTransition SSOffline"

fun inhibit_service :: "ServiceState Transition" where
  "inhibit_service SSFailed = NoTransition"
| "inhibit_service (SSInhibited _) = NoTransition"
| "inhibit_service x = TransitionTo (SSInhibited x)"

fun processCascadeService :: "ProcessState \<Rightarrow> ServiceState Transition" where
  "processCascadeService PSStarting = constTransition SSStarting"
| "processCascadeService PSOnline = constTransition SSOnline"
| "processCascadeService PSOffline = (\<lambda>s. if s = SSFailed then NoTransition else TransitionTo SSOffline)"
| "processCascadeService (PSFailed _) = constTransition SSFailed"
| "processCascadeService PSQuiescing = (\<lambda>s. if s = SSOffline then NoTransition else inhibit_service s)"
| "processCascadeService PSStopping = (\<lambda>s. if s = SSFailed then NoTransition else TransitionTo SSStopping)"
| "processCascadeService (PSInhibited _) = inhibit_service"
| "processCascadeService PSUnknown = constTransition SSUnknown"

subsection \<open>Storage devices and disks\<close>

text \<open>A disk has the state of its device, and passes its transitions on to it.\<close>

definition diskOnline :: "SDevState Transition" where
  "diskOnline = constTransition SDSOnline"

definition diskRebalance :: "SDevState Transition" where
  "diskRebalance st = (if sdev_conf st = M0_NC_REPAIRED then TransitionTo SDSRebalancing else InvalidTransition)"

definition diskDiReb :: "SDevState Transition" where
  "diskDiReb st = (if sdev_conf st = M0_NC_ONLINE then TransitionTo SDSRebalancing else InvalidTransition)"

definition diskFailed :: "SDevState Transition" where
  "diskFailed = constTransition SDSFailed"

definition sdevRepairStart :: "SDevState Transition" where
  "sdevRepairStart st = (if sdev_conf st = M0_NC_FAILED then TransitionTo SDSRepairing else InvalidTransition)"

fun sdevRepairComplete :: "SDevState Transition" where
  "sdevRepairComplete SDSRepairing = TransitionTo SDSRepaired"
| "sdevRepairComplete _ = InvalidTransition"

definition sdevRepairAbort :: "SDevState Transition" where
  "sdevRepairAbort st = (if sdev_conf st = M0_NC_REPAIR then TransitionTo SDSFailed else InvalidTransition)"

fun sdevRebalanceComplete :: "SDevState Transition" where
  "sdevRebalanceComplete SDSRebalancing = TransitionTo SDSOnline"
| "sdevRebalanceComplete _ = InvalidTransition"

definition sdevRebalanceAbort :: "SDevState Transition" where
  "sdevRebalanceAbort st = (if sdev_conf st = M0_NC_REBALANCE then TransitionTo SDSRepaired else InvalidTransition)"

fun sdevReady :: "SDevState Transition" where
  "sdevReady SDSUnknown = TransitionTo SDSOnline"
| "sdevReady (SDSTransient _) = TransitionTo SDSOnline"
| "sdevReady _ = InvalidTransition"

fun sdsFailTransient :: "SDevState \<Rightarrow> SDevState" where
  "sdsFailTransient SDSFailed = SDSFailed"
| "sdsFailTransient SDSRepairing = SDSRepairing"
| "sdsFailTransient SDSRepaired = SDSRepaired"
| "sdsFailTransient SDSRebalancing = SDSRebalancing"
| "sdsFailTransient (SDSTransient x) = SDSTransient x"
| "sdsFailTransient (SDSInhibited x) = SDSInhibited (sdsFailTransient x)"
| "sdsFailTransient x = SDSTransient x"

definition sdevFailTransient :: "SDevState Transition" where
  "sdevFailTransient st = TransitionTo (sdsFailTransient st)"

fun recover :: "SDevState \<Rightarrow> SDevState" where
  "recover (SDSTransient st) = recover st"
| "recover (SDSInhibited st) = SDSInhibited (recover st)"
| "recover st = st"

fun sdevRecoverTransient :: "SDevState Transition" where
  "sdevRecoverTransient (SDSTransient st) = TransitionTo (recover st)"
| "sdevRecoverTransient _ = InvalidTransition"

fun sdevFailFailed :: "SDevState Transition" where
  "sdevFailFailed SDSRepairing = TransitionTo SDSRepairing"
| "sdevFailFailed SDSRepaired = TransitionTo SDSRepaired"
| "sdevFailFailed SDSRebalancing = TransitionTo SDSRepaired"
| "sdevFailFailed _ = TransitionTo SDSFailed"

fun inhibitSDev :: "SDevState Transition" where
  "inhibitSDev SDSFailed = NoTransition"
| "inhibitSDev (SDSInhibited _) = NoTransition"
| "inhibitSDev x = TransitionTo (SDSInhibited x)"

fun uninhibitSDev :: "SDevState Transition" where
  "uninhibitSDev (SDSInhibited x) = TransitionTo x"
| "uninhibitSDev _ = NoTransition"

fun serviceCascadeDisk :: "ServiceState \<Rightarrow> SDevState Transition" where
  "serviceCascadeDisk SSUnknown = (\<lambda>_. NoTransition)"
| "serviceCascadeDisk SSOffline = inhibitSDev"
| "serviceCascadeDisk SSFailed = inhibitSDev"
| "serviceCascadeDisk SSStarting = uninhibitSDev"
| "serviceCascadeDisk SSOnline = uninhibitSDev"
| "serviceCascadeDisk SSStopping = inhibitSDev"
| "serviceCascadeDisk (SSInhibited _) = inhibitSDev"

section \<open>Reachable states\<close>

inductive reachable_state :: "'s Transition set \<Rightarrow> 's \<Rightarrow> 's \<Rightarrow> bool" for T :: "'s Transition set" and s0 :: 's where
  start: "reachable_state T s0 s0"
| step: "reachable_state T s0 s \<Longrightarrow> tr \<in> T \<Longrightarrow> runTransition tr s = TransitionTo s' \<Longrightarrow> reachable_state T s0 s'"

lemma runTransition_To: "runTransition tr s = TransitionTo s' \<longleftrightarrow> tr s = TransitionTo s' \<and> s' \<noteq> s"
  by (auto simp: runTransition_def split: TransitionResult.splits)

text \<open>An invariant of a set of transitions; and a state that one transition leads to.\<close>

lemma reachable_invariant:
  assumes "reachable_state T s0 s" and "I s0"
    and "\<And>s s' tr. I s \<Longrightarrow> tr \<in> T \<Longrightarrow> tr s = TransitionTo s' \<Longrightarrow> I s'"
  shows "I s"
  using assms(1) by induction (use assms(2,3) in \<open>auto simp: runTransition_To\<close>)

lemma reachable_by:
  assumes "reachable_state T s0 s" and "tr \<in> T" and "tr s = TransitionTo s'"
  shows "reachable_state T s0 s'"
  using assms reachable_state.step [OF assms(1,2), of s'] by (cases "s' = s") (simp_all add: runTransition_To)

definition sdev_transitions :: "SDevState Transition set" where
  "sdev_transitions = {diskOnline, diskRebalance, diskDiReb, diskFailed, sdevRepairStart, sdevRepairComplete,
     sdevRepairAbort, sdevRebalanceComplete, sdevRebalanceAbort, sdevReady, sdevFailTransient,
     sdevRecoverTransient, sdevFailFailed} \<union> range serviceCascadeDisk"

definition service_transitions :: "ServiceState Transition set" where
  "service_transitions = {serviceOnline, serviceOffline} \<union> range processCascadeService"

definition process_transitions :: "ProcessState Transition set" where
  "process_transitions = {processHAOnline, processOnline, processStopping, processHAStopping, processStarting,
     processOffline, processQuiescing, processUnknown, nodeFailsProcess, nodeUnfailsProcess} \<union>
     range processKeepaliveTimeout \<union> range processFailed"

text \<open>
  The states that can occur: a transient failure is one of a device that was online or unknown, and
  what is inhibited is neither failed nor inhibited already.
\<close>

fun sdev_ok :: "SDevState \<Rightarrow> bool" where
  "sdev_ok (SDSTransient x) \<longleftrightarrow> x = SDSUnknown \<or> x = SDSOnline"
| "sdev_ok (SDSInhibited x) \<longleftrightarrow> x \<noteq> SDSFailed \<and> (\<forall>y. x \<noteq> SDSInhibited y) \<and> sdev_ok x"
| "sdev_ok _ \<longleftrightarrow> True"

fun service_ok :: "ServiceState \<Rightarrow> bool" where
  "service_ok (SSInhibited x) \<longleftrightarrow> x \<noteq> SSFailed \<and> (\<forall>y. x \<noteq> SSInhibited y)"
| "service_ok _ \<longleftrightarrow> True"

fun process_ok :: "ProcessState \<Rightarrow> bool" where
  "process_ok (PSInhibited x) \<longleftrightarrow> (\<forall>m. x \<noteq> PSFailed m) \<and> (\<forall>y. x \<noteq> PSInhibited y)"
| "process_ok _ \<longleftrightarrow> True"

lemmas sdev_defs = diskOnline_def diskRebalance_def diskDiReb_def diskFailed_def sdevRepairStart_def
  sdevRepairAbort_def sdevRebalanceAbort_def sdevFailTransient_def constTransition_def

lemma sdev_ok_step:
  assumes "sdev_ok s" and "tr \<in> sdev_transitions" and "tr s = TransitionTo s'"
  shows "sdev_ok s'"
proof -
  have fail_ok: "sdev_ok (sdsFailTransient s) \<and> (s \<noteq> SDSFailed \<longrightarrow> sdsFailTransient s \<noteq> SDSFailed) \<and>
      ((\<forall>y. s \<noteq> SDSInhibited y) \<longrightarrow> (\<forall>y. sdsFailTransient s \<noteq> SDSInhibited y))" if "sdev_ok s" for s
    using that by (induction s rule: sdsFailTransient.induct) auto
  have inhibit: "sdev_ok s'" if "inhibitSDev s = TransitionTo s'"
    using that assms(1) by (cases s) auto
  have uninhibit: "sdev_ok s'" if "uninhibitSDev s = TransitionTo s'"
    using that assms(1) by (cases s) auto
  consider (cascade) st where "tr = serviceCascadeDisk st" | (transient) "tr = sdevFailTransient"
    | (recover) "tr = sdevRecoverTransient"
    | (other) "tr \<in> {diskOnline, diskRebalance, diskDiReb, diskFailed, sdevRepairStart, sdevRepairComplete,
        sdevRepairAbort, sdevRebalanceComplete, sdevRebalanceAbort, sdevReady, sdevFailFailed}"
    using assms(2) by (auto simp: sdev_transitions_def)
  then show ?thesis
  proof cases
    case cascade
    then show ?thesis using assms(3) inhibit uninhibit by (cases st) auto
  next
    case transient
    then show ?thesis using assms(3) fail_ok [OF assms(1)] by (simp add: sdevFailTransient_def)
  next
    case recover
    then show ?thesis using assms(1,3) by (cases s) auto
  next
    case other
    then show ?thesis using assms(3) by (elim insertE; cases s; auto simp: sdev_defs split: if_splits)
  qed
qed

lemma sdev_reachable_ok:
  assumes "sdev_ok s"
  shows "reachable_state sdev_transitions SDSUnknown s"
proof -
  note by_tr = reachable_by [where T = sdev_transitions and ?s0.0 = SDSUnknown]
  have T: "tr \<in> sdev_transitions" if "tr \<in> {diskOnline, diskDiReb, diskFailed, sdevRepairStart, sdevRepairComplete,
      sdevFailTransient}" for tr
    using that by (auto simp: sdev_transitions_def)
  have inhibit: "inhibitSDev \<in> sdev_transitions"
    unfolding sdev_transitions_def using rangeI [of serviceCascadeDisk SSOffline] by simp
  note unknown = reachable_state.start [of sdev_transitions SDSUnknown]
  have online: "reachable_state sdev_transitions SDSUnknown SDSOnline"
    by (rule by_tr [OF unknown T [of diskOnline]]) (simp_all add: sdev_defs)
  have failed: "reachable_state sdev_transitions SDSUnknown SDSFailed"
    by (rule by_tr [OF unknown T [of diskFailed]]) (simp_all add: sdev_defs)
  have repairing: "reachable_state sdev_transitions SDSUnknown SDSRepairing"
    by (rule by_tr [OF failed T [of sdevRepairStart]]) (simp_all add: sdev_defs)
  have repaired: "reachable_state sdev_transitions SDSUnknown SDSRepaired"
    by (rule by_tr [OF repairing T [of sdevRepairComplete]]) simp_all
  have rebalancing: "reachable_state sdev_transitions SDSUnknown SDSRebalancing"
    by (rule by_tr [OF unknown T [of diskDiReb]]) (simp_all add: sdev_defs)
  have transient: "reachable_state sdev_transitions SDSUnknown (SDSTransient SDSUnknown)"
      "reachable_state sdev_transitions SDSUnknown (SDSTransient SDSOnline)"
    by (rule by_tr [OF unknown T [of sdevFailTransient]], simp, simp add: sdev_defs)
      (rule by_tr [OF online T [of sdevFailTransient]], simp, simp add: sdev_defs)
  have plain: "reachable_state sdev_transitions SDSUnknown x" if "sdev_ok x" "\<forall>y. x \<noteq> SDSInhibited y" for x
  proof (cases x)
    case (SDSTransient y)
    then have "y = SDSUnknown \<or> y = SDSOnline" using that(1) by simp
    then show ?thesis unfolding SDSTransient using transient by blast
  qed (use that(2) unknown online failed repairing repaired rebalancing in simp_all)
  show ?thesis
  proof (cases s)
    case (SDSInhibited x)
    then have eq: "inhibitSDev x = TransitionTo s" using assms by (cases x) auto
    have "reachable_state sdev_transitions SDSUnknown x" using assms SDSInhibited by (intro plain) auto
    from by_tr [OF this inhibit eq] show ?thesis .
  qed (use assms in \<open>auto intro: plain\<close>)
qed

lemma service_ok_step:
  assumes "service_ok s" and "tr \<in> service_transitions" and "tr s = TransitionTo s'"
  shows "service_ok s'"
proof -
  have inhibit: "service_ok s'" if "inhibit_service s = TransitionTo s'" using that by (cases s) auto
  consider p where "tr = processCascadeService p" | "tr = serviceOnline" | "tr = serviceOffline"
    using assms(2) by (auto simp: service_transitions_def)
  then show ?thesis
  proof cases
    case 1
    then show ?thesis
      using assms(3) inhibit by (cases p) (auto simp: constTransition_def split: if_splits)
  qed (use assms(3) in \<open>cases s; auto simp: serviceOffline_def constTransition_def\<close>)+
qed

lemma service_reachable_ok:
  assumes "service_ok s"
  shows "reachable_state service_transitions SSUnknown s"
proof -
  note by_tr = reachable_by [where T = service_transitions and ?s0.0 = SSUnknown]
  have T: "processCascadeService p \<in> service_transitions" for p by (simp add: service_transitions_def)
  note unknown = reachable_state.start [of service_transitions SSUnknown]
  have plain: "reachable_state service_transitions SSUnknown x" if "\<forall>y. x \<noteq> SSInhibited y" for x
  proof (cases x)
    case SSOffline
    then show ?thesis using by_tr [OF unknown T [of PSOffline]] by simp
  next
    case SSFailed
    then show ?thesis using by_tr [OF unknown T [of "PSFailed []"]] by (simp add: constTransition_def)
  next
    case SSOnline
    then show ?thesis using by_tr [OF unknown T [of PSOnline]] by (simp add: constTransition_def)
  next
    case SSStarting
    then show ?thesis using by_tr [OF unknown T [of PSStarting]] by (simp add: constTransition_def)
  next
    case SSStopping
    then show ?thesis using by_tr [OF unknown T [of PSStopping]] by simp
  qed (use that unknown in auto)
  show ?thesis
  proof (cases s)
    case (SSInhibited x)
    then have "inhibit_service x = TransitionTo s" using assms by (cases x) auto
    moreover have "reachable_state service_transitions SSUnknown x" using assms SSInhibited by (intro plain) auto
    ultimately show ?thesis using T [of "PSInhibited PSUnknown"] by (intro by_tr [of x inhibit_service s]) simp_all
  qed (auto intro: plain)
qed

lemma process_ok_step:
  assumes "process_ok s" and "tr \<in> process_transitions" and "tr s = TransitionTo s'"
  shows "process_ok s'"
proof -
  consider m where "tr = processKeepaliveTimeout m \<or> tr = processFailed m"
    | "tr \<in> {processHAOnline, processOnline, processStopping, processHAStopping, processStarting,
        processOffline, processQuiescing, processUnknown}"
    | "tr = nodeFailsProcess" | "tr = nodeUnfailsProcess"
    using assms(2) by (auto simp: process_transitions_def)
  then show ?thesis
  proof cases
    case 1
    then show ?thesis using assms(3) by (cases s) auto
  next
    case 2
    then show ?thesis
      using assms(3) by (elim insertE; cases s; auto simp: processHAOnline_def processStarting_def
        processQuiescing_def processUnknown_def constTransition_def)
  next
    case 3
    then show ?thesis using assms(3) by (cases s) auto
  next
    case 4
    have "process_ok s'" if "nodeUnfailsProcess s = TransitionTo s'" for s
      using that by (induction s rule: nodeUnfailsProcess.induct) auto
    then show ?thesis using assms(3) 4 by simp
  qed
qed

lemma process_reachable_ok:
  assumes "process_ok s"
  shows "reachable_state process_transitions PSUnknown s"
proof -
  note by_tr = reachable_by [where T = process_transitions and ?s0.0 = PSUnknown]
  have T: "tr \<in> process_transitions" if "tr \<in> {processHAOnline, processStarting, processQuiescing, processStopping,
      processOffline, nodeFailsProcess} \<union> range processFailed" for tr
    using that by (auto simp: process_transitions_def)
  note unknown = reachable_state.start [of process_transitions PSUnknown]
  have quiescing: "reachable_state process_transitions PSUnknown PSQuiescing"
    by (rule by_tr [OF unknown T [of processQuiescing]]) (simp_all add: processQuiescing_def constTransition_def)
  have stopping: "reachable_state process_transitions PSUnknown PSStopping"
    by (rule by_tr [OF quiescing T [of processStopping]]) simp_all
  have offline: "reachable_state process_transitions PSUnknown PSOffline"
    by (rule by_tr [OF stopping T [of processOffline]]) simp_all
  have plain: "reachable_state process_transitions PSUnknown x" if "\<forall>y. x \<noteq> PSInhibited y" for x
  proof (cases x)
    case PSStarting
    then show ?thesis
      using by_tr [OF unknown T [of processStarting]] by (simp add: processStarting_def constTransition_def)
  next
    case PSOnline
    then show ?thesis
      using by_tr [OF unknown T [of processHAOnline]] by (simp add: processHAOnline_def constTransition_def)
  next
    case (PSFailed m)
    then show ?thesis using by_tr [OF unknown T [of "processFailed m"]] by simp
  qed (use that unknown quiescing stopping offline in auto)
  show ?thesis
  proof (cases s)
    case (PSInhibited x)
    then have "nodeFailsProcess x = TransitionTo s" using assms by (cases x) auto
    then show ?thesis using T assms PSInhibited by (intro by_tr [OF plain, of x nodeFailsProcess]) auto
  qed (auto intro: plain)
qed

text \<open>
  C18. The states that devices, services and processes can get into from the unknown state, by any
  sequence of their transitions, are exactly these: what is inhibited by a failure higher up is never failed or inhibited
  itself, and a device fails transiently only when it was online or unknown. So the cases for nested
  states in the translation to Mero's states and in the transitions never apply.
\<close>

theorem reachable_states_exact:
  "(reachable_state sdev_transitions SDSUnknown d \<longleftrightarrow> sdev_ok d) \<and>
   (reachable_state service_transitions SSUnknown s \<longleftrightarrow> service_ok s) \<and>
   (reachable_state process_transitions PSUnknown p \<longleftrightarrow> process_ok p)"
proof (intro conjI iffI)
  show "sdev_ok d" if "reachable_state sdev_transitions SDSUnknown d"
    by (rule reachable_invariant [where I = sdev_ok, OF that]) (simp, rule sdev_ok_step)
  show "service_ok s" if "reachable_state service_transitions SSUnknown s"
    by (rule reachable_invariant [where I = service_ok, OF that]) (simp, rule service_ok_step)
  show "process_ok p" if "reachable_state process_transitions PSUnknown p"
    by (rule reachable_invariant [where I = process_ok, OF that]) (simp, rule process_ok_step)
qed (rule sdev_reachable_ok service_reachable_ok process_reachable_ok, assumption)+

section \<open>Outages and repair\<close>

text \<open>What a transition that is not made leaves as it is.\<close>

definition after_tr :: "'s Transition \<Rightarrow> 's \<Rightarrow> 's" where
  "after_tr tr s = (case runTransition tr s of TransitionTo s' \<Rightarrow> s' | _ \<Rightarrow> s)"

text \<open>
  C19. An outage is undone. When the service of a device goes down and comes up again, the device is back
  in the state it had, also if it failed transiently meanwhile and recovered afterwards. When the node
  of a process fails and comes back, a process that was not running is as before, and one that was
  running has failed.
\<close>

theorem outage_undone:
  assumes "\<forall>x. d \<noteq> SDSInhibited x" and "\<forall>x. d \<noteq> SDSTransient x" and "\<forall>x. p \<noteq> PSInhibited x"
    and "down \<in> {SSOffline, SSFailed, SSStopping, SSInhibited y}" and "up \<in> {SSStarting, SSOnline}"
  shows "after_tr (serviceCascadeDisk up) (after_tr (serviceCascadeDisk down) d) = d \<and>
    after_tr sdevRecoverTransient (after_tr (serviceCascadeDisk up)
      (after_tr sdevFailTransient (after_tr (serviceCascadeDisk down) d))) = d \<and>
    after_tr nodeUnfailsProcess (after_tr nodeFailsProcess p) =
      (case p of PSUnknown \<Rightarrow> p | PSOffline \<Rightarrow> p | PSFailed m \<Rightarrow> p | _ \<Rightarrow> PSFailed ''node failure'')"
proof -
  have "serviceCascadeDisk down = inhibitSDev" "serviceCascadeDisk up = uninhibitSDev" using assms(4,5) by auto
  moreover have "after_tr uninhibitSDev (after_tr inhibitSDev d) = d"
    using assms(1) by (cases d) (simp_all add: after_tr_def runTransition_def)
  moreover have "after_tr sdevRecoverTransient (after_tr uninhibitSDev
      (after_tr sdevFailTransient (after_tr inhibitSDev d))) = d"
    using assms(1,2) by (cases d) (simp_all add: after_tr_def runTransition_def sdevFailTransient_def)
  moreover have "after_tr nodeUnfailsProcess (after_tr nodeFailsProcess p) =
      (case p of PSUnknown \<Rightarrow> p | PSOffline \<Rightarrow> p | PSFailed m \<Rightarrow> p | _ \<Rightarrow> PSFailed ''node failure'')"
    using assms(3) by (cases p) (simp_all add: after_tr_def runTransition_def)
  ultimately show ?thesis by simp
qed

theorem outage_undone_witness:
  "after_tr (serviceCascadeDisk SSOnline) (after_tr (serviceCascadeDisk (SSInhibited SSOnline)) SDSRepairing) = SDSRepairing \<and>
   after_tr nodeUnfailsProcess (after_tr nodeFailsProcess PSOnline) = PSFailed ''node failure''"
  using outage_undone [of SDSRepairing PSOnline "SSInhibited SSOnline" SSOnline SSOnline] by simp

text \<open>How far a device that has failed has come on its way back.\<close>

fun phase :: "SDevState \<Rightarrow> nat option" where
  "phase SDSFailed = Some 0"
| "phase SDSRepairing = Some 1"
| "phase SDSRepaired = Some 2"
| "phase SDSRebalancing = Some 3"
| "phase (SDSInhibited x) = phase x"
| "phase _ = None"

definition way_back :: "SDevState Transition list" where
  "way_back = [sdevRepairStart, sdevRepairComplete, diskRebalance, sdevRebalanceComplete]"

text \<open>Only the next step of the way back brings a device further.\<close>

lemma phase_step:
  assumes "phase s = Some k" and "k \<le> n" and "n < 4" and "tr \<in> sdev_transitions - {diskOnline, way_back ! n}"
    and "tr s = TransitionTo s'"
  shows "\<exists>k'. phase s' = Some k' \<and> k' \<le> n"
proof -
  have fail: "phase (sdsFailTransient x) = phase x" if "phase x \<noteq> None" for x
    using that by (induction x rule: sdsFailTransient.induct) auto
  have n: "n = 0 \<or> n = 1 \<or> n = 2 \<or> n = 3" using assms(3) by auto
  consider (cascade) st where "tr = serviceCascadeDisk st" | (transient) "tr = sdevFailTransient"
    | (further) "tr \<in> {sdevRepairStart, sdevRepairComplete, diskRebalance, sdevRebalanceComplete}"
    | (other) "tr \<in> {diskDiReb, diskFailed, sdevRepairAbort, sdevRebalanceAbort, sdevReady,
        sdevRecoverTransient, sdevFailFailed}"
    using assms(4) by (auto simp: sdev_transitions_def)
  then show ?thesis
  proof cases
    case cascade
    have "phase s' = phase s" if "inhibitSDev s = TransitionTo s' \<or> uninhibitSDev s = TransitionTo s'"
      using that by (cases s) auto
    then show ?thesis using assms(1,2,5) cascade by (cases st) auto
  next
    case transient
    then show ?thesis using assms(1,2,5) fail [of s] by (auto simp: sdevFailTransient_def)
  next
    case further
    then have "tr = way_back ! k \<and> (k < 3 \<longrightarrow> phase s' = Some (Suc k)) \<and> k < 4"
      using assms(1,5) by (elim insertE; cases s; auto simp: way_back_def sdev_defs split: if_splits)
    moreover have "k \<noteq> n" using assms(4) calculation by auto
    ultimately show ?thesis using assms(2,3) by auto
  next
    case other
    then show ?thesis
      using assms(1,2,5) by (elim insertE; cases s; auto simp: sdev_defs split: if_splits)
  qed
qed

text \<open>
  C17. A device that has failed is reported online again only after all of repair and rebalancing, unless
  it is set online by hand: if any one of the four transitions of the way back is not made, no sequence
  of the others, outages and transient failures in between, brings it there.
\<close>

theorem failed_device_needs_repair:
  assumes "required \<in> {sdevRepairStart, sdevRepairComplete, diskRebalance, sdevRebalanceComplete}"
    and "reachable_state (sdev_transitions - {diskOnline, required}) SDSFailed d"
  shows "sdev_conf d \<noteq> M0_NC_ONLINE"
proof -
  have "required \<in> set way_back" "length way_back = 4" using assms(1) by (auto simp: way_back_def)
  then obtain n where n: "n < 4" "required = way_back ! n" by (metis in_set_conv_nth)
  have "\<exists>k. phase d = Some k \<and> k \<le> n"
  proof (rule reachable_invariant [where I = "\<lambda>s. \<exists>k. phase s = Some k \<and> k \<le> n", OF assms(2)])
    fix s s' tr
    assume "\<exists>k. phase s = Some k \<and> k \<le> n" and tr: "tr \<in> sdev_transitions - {diskOnline, required}"
      and to: "tr s = TransitionTo s'"
    then obtain k where "phase s = Some k" "k \<le> n" by blast
    from phase_step [OF this n(1) tr [unfolded n(2)] to] show "\<exists>k. phase s' = Some k \<and> k \<le> n" .
  qed simp
  then show ?thesis by (cases d) auto
qed

theorem failed_device_needs_repair_witness:
  "reachable_state (sdev_transitions - {diskOnline, sdevRepairComplete}) SDSFailed SDSRepairing \<and>
   sdev_conf SDSRepairing \<noteq> M0_NC_ONLINE"
proof -
  have "sdevRepairStart SDSOnline \<noteq> diskOnline SDSOnline"
      "sdevRepairStart SDSFailed \<noteq> sdevRepairComplete SDSFailed"
    by (simp_all add: sdev_defs)
  then have "sdevRepairStart \<in> sdev_transitions - {diskOnline, sdevRepairComplete}"
    by (auto simp: sdev_transitions_def)
  then have "reachable_state (sdev_transitions - {diskOnline, sdevRepairComplete}) SDSFailed SDSRepairing"
    by (rule reachable_by [OF reachable_state.start]) (simp add: sdevRepairStart_def)
  then show ?thesis using failed_device_needs_repair [of sdevRepairComplete SDSRepairing] by simp
qed

end
