(* ===== verification/Mero_Cascade.thy ===== *)
theory Mero_Cascade
  imports Mero_States
begin

text \<open>
  How a change of the state of one object spreads to others (\<^verbatim>\<open>RecoveryCoordinator/Mero/State.hs\<close>): the
  cascade rules, the loop that applies them, and the deferred changes of graph and notifications that
  come of it. What the rules look up in the resource graph is a record of lookups; relations and
  states are those of \<^verbatim>\<open>HA/Resources/Mero.hs\<close> and \<^verbatim>\<open>Note.hs\<close>. The identifier of an object names its kind.
  Counts of objects stay below the bound of \<open>Word32\<close>.
\<close>

section \<open>Objects and their states\<close>

datatype kind =
    Site | Rack | Enclosure | Controller | Disk | Node | Process | Service | SDev | Pool | PVer
  | SiteV | RackV | EnclosureV | ControllerV | DiskV

datatype Fid = Fid (f_kind: kind) (f_key: nat)

datatype NodeState = NSUnknown | NSOffline | NSFailedUnrecoverable | NSFailed | NSRebalance | NSOnline

datatype ControllerState = CSUnknown | CSOnline | CSTransient

fun node_conf :: "NodeState \<Rightarrow> ConfObjectState" where
  "node_conf NSUnknown = M0_NC_ONLINE"
| "node_conf NSFailed = M0_NC_TRANSIENT"
| "node_conf NSFailedUnrecoverable = M0_NC_FAILED"
| "node_conf NSOffline = M0_NC_FAILED"
| "node_conf NSOnline = M0_NC_ONLINE"
| "node_conf NSRebalance = M0_NC_REBALANCE"

fun controller_conf :: "ControllerState \<Rightarrow> ConfObjectState" where
  "controller_conf CSUnknown = M0_NC_ONLINE"
| "controller_conf CSOnline = M0_NC_ONLINE"
| "controller_conf CSTransient = M0_NC_TRANSIENT"

text \<open>The state of an object of any kind, as \<open>AnyStateChange\<close> hides its type.\<close>

datatype State =
    Conf ConfObjectState | NodeS NodeState | ControllerS ControllerState | ProcessS ProcessState
  | ServiceS ServiceState | SDevS SDevState

fun toConfObjState :: "State \<Rightarrow> ConfObjectState" where
  "toConfObjState (Conf s) = s"
| "toConfObjState (NodeS s) = node_conf s"
| "toConfObjState (ControllerS s) = controller_conf s"
| "toConfObjState (ProcessS s) = process_conf s"
| "toConfObjState (ServiceS s) = service_conf s"
| "toConfObjState (SDevS s) = sdev_conf s"

text \<open>
  The graph: \<open>children\<close> and \<open>parent\<close> are the relation \<open>IsParentOf\<close> in both directions, \<open>on_hardware\<close> and
  \<open>hardware_of\<close> are \<open>IsOnHardware\<close>, \<open>virtuals\<close> and \<open>real_of\<close> are \<open>IsRealOf\<close>.
\<close>

record cluster =
  children :: "Fid \<Rightarrow> Fid list"
  parent :: "Fid \<Rightarrow> Fid option"
  on_hardware :: "Fid \<Rightarrow> Fid option"
  hardware_of :: "Fid \<Rightarrow> Fid option"
  virtuals :: "Fid \<Rightarrow> Fid list"
  real_of :: "Fid \<Rightarrow> Fid option"
  is_ios :: "Fid \<Rightarrow> bool"
  va_tolerance :: "Fid \<Rightarrow> (nat \<times> nat \<times> nat \<times> nat \<times> nat) option"
  nonMDPools :: "Fid list"
  node_state :: "Fid \<Rightarrow> NodeState option"
  controller_state :: "Fid \<Rightarrow> ControllerState option"
  process_state :: "Fid \<Rightarrow> ProcessState option"
  service_state :: "Fid \<Rightarrow> ServiceState option"
  sdev_state :: "Fid \<Rightarrow> SDevState option"
  conf_state :: "Fid \<Rightarrow> ConfObjectState option"
  failure_vector :: "Fid \<Rightarrow> Fid list option"

definition fromMaybe :: "'a \<Rightarrow> 'a option \<Rightarrow> 'a" where
  "fromMaybe d x = (case x of None \<Rightarrow> d | Some y \<Rightarrow> y)"

definition get_sdev :: "Fid \<Rightarrow> cluster \<Rightarrow> SDevState" where
  "get_sdev x rg = fromMaybe SDSUnknown (sdev_state rg x)"

definition get_disk :: "Fid \<Rightarrow> cluster \<Rightarrow> SDevState" where
  "get_disk x rg = (case hardware_of rg x of None \<Rightarrow> SDSUnknown | Some sdev \<Rightarrow> get_sdev sdev rg)"

definition getState :: "Fid \<Rightarrow> cluster \<Rightarrow> State" where
  "getState x rg = (case f_kind x of
     Node \<Rightarrow> NodeS (fromMaybe NSUnknown (node_state rg x))
   | Controller \<Rightarrow> ControllerS (fromMaybe CSUnknown (controller_state rg x))
   | Process \<Rightarrow> ProcessS (fromMaybe PSUnknown (process_state rg x))
   | Service \<Rightarrow> ServiceS (fromMaybe SSUnknown (service_state rg x))
   | SDev \<Rightarrow> SDevS (get_sdev x rg)
   | Disk \<Rightarrow> SDevS (get_disk x rg)
   | _ \<Rightarrow> Conf (fromMaybe M0_NC_ONLINE (conf_state rg x)))"

definition set_sdev :: "Fid \<Rightarrow> SDevState \<Rightarrow> cluster \<Rightarrow> cluster" where
  "set_sdev x s rg = rg\<lparr>sdev_state := (sdev_state rg)(x \<mapsto> s)\<rparr>"

fun setState :: "Fid \<Rightarrow> State \<Rightarrow> cluster \<Rightarrow> cluster" where
  "setState x (NodeS s) rg = rg\<lparr>node_state := (node_state rg)(x \<mapsto> s)\<rparr>"
| "setState x (ControllerS s) rg = rg\<lparr>controller_state := (controller_state rg)(x \<mapsto> s)\<rparr>"
| "setState x (ProcessS s) rg = rg\<lparr>process_state := (process_state rg)(x \<mapsto> s)\<rparr>"
| "setState x (ServiceS s) rg = rg\<lparr>service_state := (service_state rg)(x \<mapsto> s)\<rparr>"
| "setState x (SDevS s) rg =
     (if f_kind x = Disk then (case hardware_of rg x of None \<Rightarrow> rg | Some sdev \<Rightarrow> set_sdev sdev s rg)
      else set_sdev x s rg)"
| "setState x (Conf s) rg = rg\<lparr>conf_state := (conf_state rg)(x \<mapsto> s)\<rparr>"

definition getConfObjState :: "Fid \<Rightarrow> cluster \<Rightarrow> ConfObjectState" where
  "getConfObjState x rg = toConfObjState (getState x rg)"

section \<open>Cascade rules\<close>

text \<open>Guards and transitions of a kind of object; on any other kind there are none.\<close>

definition on_node :: "(NodeState \<Rightarrow> bool) \<Rightarrow> State \<Rightarrow> bool" where
  "on_node P st = (case st of NodeS s \<Rightarrow> P s | _ \<Rightarrow> False)"

definition on_service :: "(ServiceState \<Rightarrow> bool) \<Rightarrow> State \<Rightarrow> bool" where
  "on_service P st = (case st of ServiceS s \<Rightarrow> P s | _ \<Rightarrow> False)"

definition on_sdev :: "(SDevState \<Rightarrow> bool) \<Rightarrow> State \<Rightarrow> bool" where
  "on_sdev P st = (case st of SDevS s \<Rightarrow> P s | _ \<Rightarrow> False)"

definition on_conf :: "(ConfObjectState \<Rightarrow> bool) \<Rightarrow> State \<Rightarrow> bool" where
  "on_conf P st = (case st of Conf s \<Rightarrow> P s | _ \<Rightarrow> False)"

definition process_tr :: "ProcessState Transition \<Rightarrow> State Transition" where
  "process_tr tr st = (case st of ProcessS s \<Rightarrow> map_TransitionResult ProcessS (tr s) | _ \<Rightarrow> InvalidTransition)"

definition service_tr :: "ServiceState Transition \<Rightarrow> State Transition" where
  "service_tr tr st = (case st of ServiceS s \<Rightarrow> map_TransitionResult ServiceS (tr s) | _ \<Rightarrow> InvalidTransition)"

definition sdev_tr :: "SDevState Transition \<Rightarrow> State Transition" where
  "sdev_tr tr st = (case st of SDevS s \<Rightarrow> map_TransitionResult SDevS (tr s) | _ \<Rightarrow> InvalidTransition)"

definition node_tr :: "NodeState Transition \<Rightarrow> State Transition" where
  "node_tr tr st = (case st of NodeS s \<Rightarrow> map_TransitionResult NodeS (tr s) | _ \<Rightarrow> InvalidTransition)"

definition controller_tr :: "ControllerState Transition \<Rightarrow> State Transition" where
  "controller_tr tr st = (case st of ControllerS s \<Rightarrow> map_TransitionResult ControllerS (tr s) | _ \<Rightarrow> InvalidTransition)"

definition conf_tr :: "ConfObjectState Transition \<Rightarrow> State Transition" where
  "conf_tr tr st = (case st of Conf s \<Rightarrow> map_TransitionResult Conf (tr s) | _ \<Rightarrow> InvalidTransition)"

text \<open>The transitions of nodes, racks, enclosures, controllers and pool versions.\<close>

definition nodeUnknown :: "NodeState Transition" where "nodeUnknown = constTransition NSUnknown"
definition nodeOnline :: "NodeState Transition" where "nodeOnline = constTransition NSOnline"
definition nodeFailed :: "NodeState Transition" where "nodeFailed = constTransition NSFailed"
definition nodeRebalance :: "NodeState Transition" where "nodeRebalance = constTransition NSRebalance"

fun nodeCascadeController_tr :: "NodeState \<Rightarrow> ControllerState Transition" where
  "nodeCascadeController_tr NSUnknown = (\<lambda>_. NoTransition)"
| "nodeCascadeController_tr NSOnline = constTransition CSOnline"
| "nodeCascadeController_tr _ = constTransition CSTransient"

fun diskFailsPVer :: "SDevState \<Rightarrow> ConfObjectState Transition" where
  "diskFailsPVer a M0_NC_FAILED = InvalidTransition"
| "diskFailsPVer a _ = TransitionTo (sdev_conf a)"

fun diskFixesPVer :: "SDevState \<Rightarrow> ConfObjectState Transition" where
  "diskFixesPVer a M0_NC_ONLINE = InvalidTransition"
| "diskFixesPVer a _ = TransitionTo (sdev_conf a)"

datatype AnyCascadeRule =
    StateCascadeRule kind "State \<Rightarrow> bool" "State \<Rightarrow> bool" "Fid \<Rightarrow> cluster \<Rightarrow> Fid list" "State \<Rightarrow> State Transition"
  | StateCascadeTrigger kind "State \<Rightarrow> bool" "State \<Rightarrow> bool" "Fid \<Rightarrow> cluster \<Rightarrow> cluster"

definition down_conf :: "ConfObjectState \<Rightarrow> bool" where
  "down_conf s \<longleftrightarrow> s \<in> {M0_NC_FAILED, M0_NC_TRANSIENT}"

definition siteCascadeRackRule :: AnyCascadeRule where
  "siteCascadeRackRule = StateCascadeRule Site (on_conf ((=) M0_NC_ONLINE)) (on_conf down_conf)
     (\<lambda>x rg. children rg x) (\<lambda>_. conf_tr (constTransition M0_NC_TRANSIENT))"

definition rackCascadeEnclosureRule :: AnyCascadeRule where
  "rackCascadeEnclosureRule = StateCascadeRule Rack (on_conf ((=) M0_NC_ONLINE)) (on_conf down_conf)
     (\<lambda>x rg. children rg x) (\<lambda>_. conf_tr (constTransition M0_NC_TRANSIENT))"

definition enclosureCascadeControllerRules :: "AnyCascadeRule list" where
  "enclosureCascadeControllerRules =
     [StateCascadeRule Enclosure (on_conf ((=) M0_NC_ONLINE)) (on_conf down_conf)
        (\<lambda>x rg. children rg x) (\<lambda>_. controller_tr (constTransition CSTransient)),
      StateCascadeRule Enclosure (on_conf ((\<noteq>) M0_NC_ONLINE)) (on_conf ((=) M0_NC_ONLINE))
        (\<lambda>x rg. children rg x) (\<lambda>_. controller_tr (constTransition CSOnline))]"

definition processCascadeServiceRule :: AnyCascadeRule where
  "processCascadeServiceRule = StateCascadeRule Process (\<lambda>_. True) (\<lambda>_. True) (\<lambda>x rg. children rg x)
     (\<lambda>st. case st of ProcessS p \<Rightarrow> service_tr (processCascadeService p) | _ \<Rightarrow> \<lambda>_. NoTransition)"

definition serviceCascadeDiskRule :: AnyCascadeRule where
  "serviceCascadeDiskRule = StateCascadeRule Service (\<lambda>_. True) (\<lambda>_. True) (\<lambda>x rg. children rg x)
     (\<lambda>st. case st of ServiceS s \<Rightarrow> sdev_tr (serviceCascadeDisk s) | _ \<Rightarrow> \<lambda>_. NoTransition)"

definition node_failed :: "NodeState \<Rightarrow> bool" where
  "node_failed s \<longleftrightarrow> s = NSFailed \<or> s = NSFailedUnrecoverable"

definition nodeFailsProcessRule :: AnyCascadeRule where
  "nodeFailsProcessRule = StateCascadeRule Node (\<lambda>_. True) (on_node node_failed) (\<lambda>x rg. children rg x)
     (\<lambda>_. process_tr nodeFailsProcess)"

definition nodeUnfailsProcessRule :: AnyCascadeRule where
  "nodeUnfailsProcessRule = StateCascadeRule Node (on_node node_failed) (on_node ((=) NSOnline))
     (\<lambda>x rg. children rg x) (\<lambda>_. process_tr nodeUnfailsProcess)"

definition maybeToList :: "'a option \<Rightarrow> 'a list" where
  "maybeToList x = (case x of None \<Rightarrow> [] | Some y \<Rightarrow> [y])"

definition sdevCascadeDisk :: AnyCascadeRule where
  "sdevCascadeDisk = StateCascadeRule SDev (\<lambda>_. True) (\<lambda>_. True) (\<lambda>x rg. maybeToList (on_hardware rg x))
     (\<lambda>st. constTransition st)"

definition diskCascadeSdev :: AnyCascadeRule where
  "diskCascadeSdev = StateCascadeRule Disk (\<lambda>_. True) (\<lambda>_. True) (\<lambda>x rg. maybeToList (hardware_of rg x))
     (\<lambda>st. constTransition st)"

definition nodeCascadeController :: AnyCascadeRule where
  "nodeCascadeController = StateCascadeRule Node (\<lambda>_. True) (\<lambda>_. True) (\<lambda>x rg. maybeToList (on_hardware rg x))
     (\<lambda>st. case st of NodeS s \<Rightarrow> controller_tr (nodeCascadeController_tr s) | _ \<Rightarrow> \<lambda>_. NoTransition)"

fun serviceFailed :: "ServiceState \<Rightarrow> bool" where
  "serviceFailed SSFailed \<longleftrightarrow> True"
| "serviceFailed (SSInhibited _) \<longleftrightarrow> True"
| "serviceFailed SSOffline \<longleftrightarrow> True"
| "serviceFailed _ \<longleftrightarrow> False"

fun ancestor :: "nat \<Rightarrow> cluster \<Rightarrow> Fid \<Rightarrow> Fid option" where
  "ancestor 0 rg x = Some x"
| "ancestor (Suc n) rg x = (case parent rg x of None \<Rightarrow> None | Some y \<Rightarrow> ancestor n rg y)"

definition iosToController :: "cluster \<Rightarrow> Fid \<Rightarrow> Fid list" where
  "iosToController rg x = maybeToList (case ancestor 2 rg x of None \<Rightarrow> None | Some node \<Rightarrow> on_hardware rg node)"

definition iosFailsController :: "AnyCascadeRule list" where
  "iosFailsController =
     [StateCascadeRule Service (\<lambda>_. True) (on_service serviceFailed)
        (\<lambda>x rg. if is_ios rg x then iosToController rg x else []) (\<lambda>_. controller_tr (constTransition CSTransient)),
      StateCascadeRule Service (\<lambda>_. True) (on_service (\<lambda>s. \<not> serviceFailed s))
        (\<lambda>x rg. if is_ios rg x then iosToController rg x else []) (\<lambda>_. controller_tr (constTransition CSOnline))]"

subsection \<open>Pool versions\<close>

text \<open>
  \<open>checkBroken\<close> goes down the levels of a pool version, from sites to disks: at each it counts the real
  objects with the state \<open>bad\<close> and stops at the first level at which \<open>over\<close> holds of count and limit.
\<close>

definition realms :: "cluster \<Rightarrow> ConfObjectState \<Rightarrow> Fid list \<Rightarrow> Fid list" where
  "realms rg bad next = filter (\<lambda>realm. getConfObjState realm rg = bad) (List.map_filter (real_of rg) next)"

fun check_levels :: "cluster \<Rightarrow> ConfObjectState \<Rightarrow> (nat \<Rightarrow> nat \<Rightarrow> bool) \<Rightarrow> nat list \<Rightarrow> Fid list \<Rightarrow> bool" where
  "check_levels rg bad over [] objects \<longleftrightarrow> False"
| "check_levels rg bad over (limit # limits) objects \<longleftrightarrow>
     (let next = concat (map (children rg) objects) in
      over (length (realms rg bad next)) limit \<or> check_levels rg bad over limits next)"

definition checkBroken :: "ConfObjectState \<Rightarrow> (nat \<Rightarrow> nat \<Rightarrow> bool) \<Rightarrow> cluster \<Rightarrow> Fid \<Rightarrow> bool" where
  "checkBroken bad over rg pver = (case va_tolerance rg pver of
     None \<Rightarrow> False
   | Some (fsite, frack, fencl, fctrl, fdisk) \<Rightarrow> check_levels rg bad over [fsite, frack, fencl, fctrl, fdisk] [pver])"

fun nub :: "'a list \<Rightarrow> 'a list" where
  "nub [] = []"
| "nub (x # xs) = x # nub (removeAll x xs)"

definition pvers_of :: "ConfObjectState \<Rightarrow> Fid \<Rightarrow> cluster \<Rightarrow> Fid list" where
  "pvers_of done x rg = nub (filter (\<lambda>pver. getConfObjState pver rg \<noteq> done)
     (List.map_filter (ancestor 5 rg) (virtuals rg x)))"

definition diskFailsPVerRule :: AnyCascadeRule where
  "diskFailsPVerRule = StateCascadeRule Disk (\<lambda>_. True) (on_sdev ((=) SDSFailed))
     (\<lambda>x rg. filter (checkBroken M0_NC_FAILED (>) rg) (pvers_of M0_NC_FAILED x rg))
     (\<lambda>st. case st of SDevS s \<Rightarrow> conf_tr (diskFailsPVer s) | _ \<Rightarrow> \<lambda>_. NoTransition)"

definition diskFixesPVerRule :: AnyCascadeRule where
  "diskFixesPVerRule = StateCascadeRule Disk (\<lambda>_. True) (on_sdev ((=) SDSOnline))
     (\<lambda>x rg. filter (checkBroken M0_NC_ONLINE (\<le>) rg) (pvers_of M0_NC_ONLINE x rg))
     (\<lambda>st. case st of SDevS s \<Rightarrow> conf_tr (diskFixesPVer s) | _ \<Rightarrow> \<lambda>_. NoTransition)"

subsection \<open>Failure vectors\<close>

text \<open>The disks of a pool that have failed, in the order in which they did (\<^verbatim>\<open>Castor/Drive/Internal.hs\<close>).\<close>

definition apply_pool :: "(Fid \<Rightarrow> cluster \<Rightarrow> cluster) \<Rightarrow> (Fid \<Rightarrow> Fid list \<Rightarrow> Fid list option) \<Rightarrow> Fid \<Rightarrow> cluster \<Rightarrow> Fid \<Rightarrow> cluster" where
  "apply_pool df f disk rg pool = (case failure_vector rg pool of
     None \<Rightarrow> df pool rg
   | Some v \<Rightarrow> (case f disk v of
       None \<Rightarrow> rg
     | Some fv \<Rightarrow> rg\<lparr>failure_vector := (failure_vector rg)(pool \<mapsto> fv)\<rparr>))"

definition updateDiskFailure ::
  "(Fid \<Rightarrow> cluster \<Rightarrow> cluster) \<Rightarrow> (Fid \<Rightarrow> Fid list \<Rightarrow> Fid list option) \<Rightarrow> Fid \<Rightarrow> cluster \<Rightarrow> cluster" where
  "updateDiskFailure df f disk rg =
     (let pools = nub (List.map_filter (ancestor 6 rg) (virtuals rg disk)) in
      foldl (apply_pool df f disk) rg (filter (\<lambda>p. p \<in> set pools) (nonMDPools rg)))"

fun ins :: "'a \<Rightarrow> 'a list \<Rightarrow> 'a list option" where
  "ins d [] = Some [d]"
| "ins d (x # xs) = (if d = x then None else map_option ((#) x) (ins d xs))"

fun rm :: "'a \<Rightarrow> 'a list \<Rightarrow> 'a list option" where
  "rm d [] = None"
| "rm d (x # xs) = (if d = x then Some xs else map_option ((#) x) (rm d xs))"

definition rgRecordDiskFailure :: "Fid \<Rightarrow> cluster \<Rightarrow> cluster" where
  "rgRecordDiskFailure disk =
     updateDiskFailure (\<lambda>pool rg. rg\<lparr>failure_vector := (failure_vector rg)(pool \<mapsto> [disk])\<rparr>) ins disk"

definition rgRecordDiskOnline :: "Fid \<Rightarrow> cluster \<Rightarrow> cluster" where
  "rgRecordDiskOnline disk = updateDiskFailure (\<lambda>pool rg. rg) rm disk"

definition diskAddToFailureVector :: AnyCascadeRule where
  "diskAddToFailureVector = StateCascadeTrigger Disk (\<lambda>_. True) (on_sdev ((=) SDSFailed)) rgRecordDiskFailure"

definition diskRemoveFromFailureVector :: AnyCascadeRule where
  "diskRemoveFromFailureVector = StateCascadeTrigger Disk (\<lambda>_. True) (on_sdev ((=) SDSOnline)) rgRecordDiskOnline"

definition stateCascadeRules :: "AnyCascadeRule list" where
  "stateCascadeRules =
     [siteCascadeRackRule, rackCascadeEnclosureRule, sdevCascadeDisk, diskCascadeSdev, nodeCascadeController,
      diskFailsPVerRule, diskFixesPVerRule, diskAddToFailureVector, diskRemoveFromFailureVector,
      processCascadeServiceRule, nodeFailsProcessRule, nodeUnfailsProcessRule, serviceCascadeDiskRule] @
     enclosureCascadeControllerRules @ iosFailsController"

section \<open>The cascade\<close>

datatype AnyStateChange = AnyStateChange (asc_object: Fid) (asc_old_state: State) (asc_new_state: State)

definition cascade_object :: "cluster \<Rightarrow> Fid set \<Rightarrow> State Transition \<Rightarrow> Fid \<Rightarrow> AnyStateChange option" where
  "cascade_object rg topFids tr b =
     (if b \<in> topFids then None
      else case runTransition tr (getState b rg) of
        TransitionTo b_new \<Rightarrow> Some (AnyStateChange b (getState b rg) b_new)
      | _ \<Rightarrow> None)"

fun tryApplyCascadeRule ::
  "cluster \<Rightarrow> Fid set \<Rightarrow> AnyStateChange \<Rightarrow> AnyCascadeRule \<Rightarrow> (cluster \<Rightarrow> cluster) option \<times> AnyStateChange list" where
  "tryApplyCascadeRule rg topFids (AnyStateChange a a_old a_new) (StateCascadeRule k old new f u) =
     (if f_kind a = k \<and> old a_old \<and> new a_new
      then (None, List.map_filter (cascade_object rg topFids (u a_new)) (f a rg))
      else (None, []))"
| "tryApplyCascadeRule rg topFids (AnyStateChange a a_old a_new) (StateCascadeTrigger k old new fg) =
     (if f_kind a = k \<and> old a_old \<and> new a_new then (Some (fg a), []) else (None, []))"

definition notMatch :: "AnyStateChange \<Rightarrow> AnyStateChange \<Rightarrow> bool" where
  "notMatch a b \<longleftrightarrow> asc_object a \<noteq> asc_object b"

definition cascade_round ::
  "AnyCascadeRule list \<Rightarrow> cluster \<Rightarrow> Fid set \<Rightarrow> AnyStateChange list \<Rightarrow> ((cluster \<Rightarrow> cluster) option \<times> AnyStateChange list) list" where
  "cascade_round rules rg topFids new_cgs =
     concat (map (\<lambda>c. map (tryApplyCascadeRule rg topFids c) rules) new_cgs)"

definition new_changes :: "AnyStateChange list \<Rightarrow> ((cluster \<Rightarrow> cluster) option \<times> AnyStateChange list) list \<Rightarrow> AnyStateChange list" where
  "new_changes acc results = filter (\<lambda>c. \<forall>a\<in>set acc. notMatch c a) (concat (map snd results))"

partial_function (option) cascade_go ::
  "AnyCascadeRule list \<Rightarrow> cluster \<Rightarrow> Fid set \<Rightarrow> AnyStateChange list \<Rightarrow> AnyStateChange list \<Rightarrow> (cluster \<Rightarrow> cluster) \<Rightarrow>
   ((cluster \<Rightarrow> cluster) \<times> AnyStateChange list) option" where
  "cascade_go rules rg topFids new_cgs acc old_f =
     (if new_cgs = [] then Some (old_f, acc)
      else let results = cascade_round rules rg topFids new_cgs;
               new_f = foldl (\<lambda>f g. g \<circ> f) old_f (List.map_filter fst results);
               b = new_changes acc results
           in cascade_go rules rg topFids b (b @ acc) new_f)"

definition cascadeStateChange ::
  "AnyStateChange \<Rightarrow> cluster \<Rightarrow> Fid set \<Rightarrow> ((cluster \<Rightarrow> cluster) \<times> AnyStateChange list) option" where
  "cascadeStateChange asc rg topFids = cascade_go stateCascadeRules rg topFids [asc] [asc] id"

text \<open>
  The changes that are deferred: what to do to the graph, the notification for Mero and the changes
  themselves. A state set that makes no transition gives a warning.
\<close>

datatype AnyStateSet = AnyStateSet Fid "State Transition"

datatype warning = No_transition_from Fid State | Invalid_transition Fid State

fun lookupOldState :: "cluster \<Rightarrow> AnyStateSet \<Rightarrow> warning + AnyStateChange" where
  "lookupOldState rg (AnyStateSet x t) = (case runTransition t (getState x rg) of
     NoTransition \<Rightarrow> Inl (No_transition_from x (getState x rg))
   | InvalidTransition \<Rightarrow> Inl (Invalid_transition x (getState x rg))
   | TransitionTo st \<Rightarrow> Inr (AnyStateChange x (getState x rg) st))"

fun cascade_all ::
  "cluster \<Rightarrow> Fid set \<Rightarrow> (cluster \<Rightarrow> cluster) \<Rightarrow> AnyStateChange list \<Rightarrow> ((cluster \<Rightarrow> cluster) \<times> AnyStateChange list) option" where
  "cascade_all rg rootFids fg [] = Some (fg, [])"
| "cascade_all rg rootFids fg (change # changes) =
     (case cascadeStateChange change rg rootFids of
        None \<Rightarrow> None
      | Some (g, cs) \<Rightarrow> map_option (map_prod id ((@) cs)) (cascade_all rg rootFids (g \<circ> fg) changes))"

record DeferredStateChanges =
  dsc_graph :: "cluster \<Rightarrow> cluster"
  dsc_notes :: "(Fid \<times> ConfObjectState) list"
  dsc_changes :: "AnyStateChange list"

definition createDeferredStateChanges ::
  "AnyStateSet list \<Rightarrow> cluster \<Rightarrow> (warning list \<times> DeferredStateChanges) option" where
  "createDeferredStateChanges stateSets rg =
     (let found = map (lookupOldState rg) stateSets;
          wrns = List.map_filter (\<lambda>r. case r of Inl w \<Rightarrow> Some w | Inr _ \<Rightarrow> None) found;
          rootStateChanges = List.map_filter (\<lambda>r. case r of Inl _ \<Rightarrow> None | Inr c \<Rightarrow> Some c) found;
          rootFids = set (map asc_object rootStateChanges) in
      case cascade_all rg rootFids id rootStateChanges of
        None \<Rightarrow> None
      | Some (trigger_fn, stateChanges) \<Rightarrow> Some (wrns,
          \<lparr>dsc_graph = (\<lambda>g. trigger_fn (fold (\<lambda>c. setState (asc_object c) (asc_new_state c)) stateChanges g)),
           dsc_notes = rev (map (\<lambda>c. (asc_object c, toConfObjState (asc_new_state c))) stateChanges),
           dsc_changes = rev stateChanges\<rparr>))"

section \<open>What the loop computes\<close>

text \<open>A change that one rule makes because of another, and the changes that follow from a first one.\<close>

definition produces :: "AnyCascadeRule list \<Rightarrow> cluster \<Rightarrow> Fid set \<Rightarrow> AnyStateChange \<Rightarrow> AnyStateChange \<Rightarrow> bool" where
  "produces rules rg topFids c b \<longleftrightarrow> (\<exists>r\<in>set rules. b \<in> set (snd (tryApplyCascadeRule rg topFids c r)))"

inductive derived :: "AnyCascadeRule list \<Rightarrow> cluster \<Rightarrow> Fid set \<Rightarrow> AnyStateChange \<Rightarrow> AnyStateChange \<Rightarrow> bool"
  for rules rg topFids asc where
  root: "derived rules rg topFids asc asc"
| cascade: "derived rules rg topFids asc c \<Longrightarrow> produces rules rg topFids c b \<Longrightarrow> derived rules rg topFids asc b"

lemma set_new_changes:
  "c \<in> set (new_changes acc (cascade_round rules rg topFids cs)) \<longleftrightarrow>
     (\<exists>c'\<in>set cs. produces rules rg topFids c' c) \<and> asc_object c \<notin> asc_object ` set acc"
  by (auto simp: new_changes_def cascade_round_def produces_def notMatch_def)

lemma cascade_object_Some:
  "cascade_object rg topFids tr x = Some b \<longleftrightarrow> x \<notin> topFids \<and>
     (\<exists>s. runTransition tr (getState x rg) = TransitionTo s \<and> b = AnyStateChange x (getState x rg) s)"
  by (auto simp: cascade_object_def split: TransitionResult.splits)

text \<open>A change is made by a rule on an object that the rule finds.\<close>

lemma producesE:
  assumes "produces rules rg topFids c b"
  obtains k old new f u where "StateCascadeRule k old new f u \<in> set rules" and "f_kind (asc_object c) = k"
    and "old (asc_old_state c)" and "new (asc_new_state c)" and "asc_object b \<in> set (f (asc_object c) rg)"
    and "asc_object b \<notin> topFids" and "asc_old_state b = getState (asc_object b) rg"
    and "runTransition (u (asc_new_state c)) (getState (asc_object b) rg) = TransitionTo (asc_new_state b)"
proof -
  obtain r where r: "r \<in> set rules" "b \<in> set (snd (tryApplyCascadeRule rg topFids c r))"
    using assms by (auto simp: produces_def)
  show thesis
  proof (cases r)
    case (StateCascadeRule k old new f u)
    then show ?thesis using r by (cases c) (auto simp: in_map_filter cascade_object_Some split: if_splits intro: that)
  next
    case (StateCascadeTrigger k old new fg)
    then show ?thesis using r by (cases c) (simp split: if_splits)
  qed
qed

lemma producesI:
  assumes "StateCascadeRule (f_kind (asc_object c)) old new f u \<in> set rules"
    and "old (asc_old_state c)" and "new (asc_new_state c)" and "y \<in> set (f (asc_object c) rg)" and "y \<notin> topFids"
    and "runTransition (u (asc_new_state c)) (getState y rg) = TransitionTo s"
  shows "produces rules rg topFids c (AnyStateChange y (getState y rg) s)"
  unfolding produces_def
  by (rule bexI [OF _ assms(1)]) (use assms in \<open>cases c; auto simp: in_map_filter cascade_object_Some\<close>)

lemma produces_object:
  assumes "produces rules rg topFids c b"
  shows "asc_object b \<notin> topFids \<and> asc_old_state b = getState (asc_object b) rg \<and> asc_new_state b \<noteq> asc_old_state b"
  using assms by (rule producesE) (simp add: runTransition_To)

text \<open>The loop keeps the changes made, which follow from the first, and cascades each of them.\<close>

definition cascaded :: "AnyCascadeRule list \<Rightarrow> cluster \<Rightarrow> Fid set \<Rightarrow> AnyStateChange set \<Rightarrow> AnyStateChange set \<Rightarrow> bool" where
  "cascaded rules rg topFids done all \<longleftrightarrow>
     (\<forall>c\<in>done. \<forall>b. produces rules rg topFids c b \<longrightarrow> asc_object b \<in> asc_object ` all)"

lemma cascade_go_result:
  assumes "cascade_go rules rg topFids new_cgs acc old_f = Some r"
  shows "set new_cgs \<subseteq> set acc \<Longrightarrow> \<forall>c\<in>set acc. derived rules rg topFids asc c \<Longrightarrow>
    cascaded rules rg topFids (set acc - set new_cgs) (set acc) \<Longrightarrow>
    set acc \<subseteq> set (snd r) \<and> (\<forall>c\<in>set (snd r). derived rules rg topFids asc c) \<and>
    cascaded rules rg topFids (set (snd r)) (set (snd r))"
proof (induction rule: cascade_go.raw_induct [OF _ assms])
  case (1 go rules rg topFids new_cgs acc old_f r)
  show ?case
  proof (cases "new_cgs = []")
    case True
    then show ?thesis using 1 by auto
  next
    case False
    define b where "b = new_changes acc (cascade_round rules rg topFids new_cgs)"
    obtain f' where go: "go rules rg topFids b (b @ acc) f' = Some r"
      using 1(2) False by (auto simp: b_def Let_def)
    note b = set_new_changes [of _ acc rules rg topFids new_cgs, folded b_def]
    have "\<forall>c\<in>set (b @ acc). derived rules rg topFids asc c"
      using 1(3,4) by (auto simp: b) (metis derived.cascade subsetD)
    moreover have "cascaded rules rg topFids (set (b @ acc) - set b) (set (b @ acc))"
      unfolding cascaded_def
    proof (intro ballI allI impI)
      fix c b' assume c: "c \<in> set (b @ acc) - set b" and b': "produces rules rg topFids c b'"
      show "asc_object b' \<in> asc_object ` set (b @ acc)"
      proof (cases "c \<in> set new_cgs")
        case True
        then have "b' \<in> set b \<or> asc_object b' \<in> asc_object ` set acc" using b b' by blast
        then show ?thesis by auto
      next
        case False
        then have "asc_object b' \<in> asc_object ` set acc" using 1(5) c b' unfolding cascaded_def by auto
        then show ?thesis by auto
      qed
    qed
    ultimately show ?thesis using 1(1) [OF go] by simp
  qed
qed

text \<open>If only finitely many objects can be found, the loop ends.\<close>

lemma cascade_go_returns:
  assumes "finite U" and "\<forall>c b. produces rules rg topFids c b \<longrightarrow> asc_object b \<in> U"
  shows "\<exists>r. cascade_go rules rg topFids new_cgs acc old_f = Some r"
proof (induction "card (U - asc_object ` set acc)" arbitrary: new_cgs acc old_f rule: less_induct)
  case less
  show ?case
  proof (cases "new_cgs = []")
    case True
    then show ?thesis by (simp add: cascade_go.simps)
  next
    case False
    define b where "b = new_changes acc (cascade_round rules rg topFids new_cgs)"
    have go: "\<exists>f'. cascade_go rules rg topFids new_cgs acc old_f = cascade_go rules rg topFids b (b @ acc) f'"
      using False by (subst cascade_go.simps) (auto simp: b_def Let_def)
    show ?thesis
    proof (cases "b = []")
      case True
      then show ?thesis using go by (auto simp: cascade_go.simps [of _ _ _ "[]"])
    next
      case False
      then obtain c where c: "c \<in> set b" by (cases b) auto
      then have "asc_object c \<in> U - asc_object ` set acc"
        using assms(2) unfolding b_def set_new_changes by auto
      then have "U - asc_object ` set (b @ acc) \<subset> U - asc_object ` set acc" using c by auto
      then have "card (U - asc_object ` set (b @ acc)) < card (U - asc_object ` set acc)"
        using assms(1) by (intro psubset_card_mono) auto
      then show ?thesis using go less by metis
    qed
  qed
qed

text \<open>The objects that can be found from others are in \<open>U\<close>.\<close>

definition known :: "Fid set \<Rightarrow> cluster \<Rightarrow> bool" where
  "known U rg \<longleftrightarrow> (\<forall>x. set (children rg x) \<subseteq> U \<and> set_option (parent rg x) \<subseteq> U \<and>
     set_option (on_hardware rg x) \<subseteq> U \<and> set_option (hardware_of rg x) \<subseteq> U)"

lemma ancestor_known: "known U rg \<Longrightarrow> ancestor (Suc n) rg x = Some y \<Longrightarrow> y \<in> U"
proof (induction n arbitrary: x)
  case 0
  then have "parent rg x = Some y" by (simp split: option.splits)
  then show ?case using 0(1) unfolding known_def by force
next
  case (Suc n)
  then show ?case by (auto split: option.splits)
qed

lemmas rule_defs = siteCascadeRackRule_def rackCascadeEnclosureRule_def sdevCascadeDisk_def diskCascadeSdev_def
  nodeCascadeController_def diskFailsPVerRule_def diskFixesPVerRule_def diskAddToFailureVector_def
  diskRemoveFromFailureVector_def processCascadeServiceRule_def nodeFailsProcessRule_def nodeUnfailsProcessRule_def
  serviceCascadeDiskRule_def enclosureCascadeControllerRules_def iosFailsController_def

lemma set_maybeToList [simp]: "set (maybeToList x) = set_option x"
  by (cases x) (simp_all add: maybeToList_def)

lemma set_nub [simp]: "set (nub xs) = set xs"
  by (induction xs rule: nub.induct) auto

lemma produces_known:
  assumes "known U rg" and "produces stateCascadeRules rg topFids c b"
  shows "asc_object b \<in> U"
  using assms(2)
proof (rule producesE)
  fix k old new f u
  let ?x = "asc_object c"
  assume rule: "StateCascadeRule k old new f u \<in> set stateCascadeRules" and found: "asc_object b \<in> set (f ?x rg)"
  have up: "y \<in> U" if "ancestor 5 rg x = Some y" for x y
    using ancestor_known [OF assms(1), of 4 x y] that by (simp add: eval_nat_numeral)
  have "set (pvers_of st ?x rg) \<subseteq> U" for st
    using up by (auto simp: pvers_of_def in_map_filter)
  moreover have hardware: "set_option (on_hardware rg y) \<subseteq> U" for y using assms(1) by (simp add: known_def)
  moreover have "set (iosToController rg ?x) \<subseteq> U"
    using hardware unfolding iosToController_def set_maybeToList by (cases "ancestor 2 rg ?x") auto
  moreover have "set (children rg ?x) \<subseteq> U" "set_option (hardware_of rg ?x) \<subseteq> U"
    using assms(1) by (simp_all add: known_def)
  moreover have "set (f ?x rg) \<subseteq> set (children rg ?x) \<union> set_option (on_hardware rg ?x) \<union>
      set_option (hardware_of rg ?x) \<union> set (pvers_of M0_NC_FAILED ?x rg) \<union> set (pvers_of M0_NC_ONLINE ?x rg) \<union>
      set (iosToController rg ?x)"
    using rule by (auto simp: stateCascadeRules_def rule_defs split: if_splits)
  ultimately show ?thesis using found by blast
qed

definition cascade_closed :: "cluster \<Rightarrow> Fid set \<Rightarrow> AnyStateChange \<Rightarrow> AnyStateChange list \<Rightarrow> bool" where
  "cascade_closed rg topFids asc cs \<longleftrightarrow> asc \<in> set cs \<and> (\<forall>c\<in>set cs. derived stateCascadeRules rg topFids asc c) \<and>
     (\<forall>c\<in>set cs. \<forall>b. produces stateCascadeRules rg topFids c b \<longrightarrow> asc_object b \<in> asc_object ` set cs)"

text \<open>Triggers change nothing but failure vectors.\<close>

definition no_vectors :: "cluster \<Rightarrow> cluster" where
  "no_vectors rg = rg\<lparr>failure_vector := Map.empty\<rparr>"

lemma updateDiskFailure_keeps:
  assumes "\<forall>pool g. no_vectors (df pool g) = no_vectors g"
  shows "no_vectors (updateDiskFailure df f disk rg) = no_vectors rg"
proof -
  have "no_vectors (apply_pool df f disk g pool) = no_vectors g" for g pool
    using assms by (simp add: apply_pool_def no_vectors_def split: option.splits)
  then have "no_vectors (foldl (apply_pool df f disk) g pools) = no_vectors g" for g pools
    by (induction pools arbitrary: g) auto
  then show ?thesis by (simp add: updateDiskFailure_def)
qed

lemma triggers_keep:
  assumes "StateCascadeTrigger k old new fg \<in> set stateCascadeRules"
  shows "no_vectors (fg a g) = no_vectors g"
  using assms updateDiskFailure_keeps [of "\<lambda>pool rg. rg\<lparr>failure_vector := (failure_vector rg)(pool \<mapsto> [a])\<rparr>"]
    updateDiskFailure_keeps [of "\<lambda>pool rg. rg"]
  by (auto simp: stateCascadeRules_def rule_defs rgRecordDiskFailure_def rgRecordDiskOnline_def no_vectors_def)

lemma round_keeps:
  assumes "h \<in> set (List.map_filter fst (cascade_round stateCascadeRules rg topFids cs))"
  shows "no_vectors (h g) = no_vectors g"
proof -
  obtain c r where r: "r \<in> set stateCascadeRules" "fst (tryApplyCascadeRule rg topFids c r) = Some h"
    using assms by (auto simp: in_map_filter cascade_round_def)
  show ?thesis by (cases c; cases r) (use r in \<open>auto simp: triggers_keep split: if_splits\<close>)
qed

lemma foldl_keeps:
  "\<forall>h\<in>set hs. \<forall>g. no_vectors (h g) = no_vectors g \<Longrightarrow> \<forall>g. no_vectors (f g) = no_vectors g \<Longrightarrow>
   no_vectors (foldl (\<lambda>f g. g \<circ> f) f hs g) = no_vectors g"
  by (induction hs arbitrary: f) auto

lemma cascade_go_keeps:
  assumes "cascade_go rules rg topFids new_cgs acc old_f = Some r"
  shows "rules = stateCascadeRules \<Longrightarrow> \<forall>g. no_vectors (old_f g) = no_vectors g \<Longrightarrow> no_vectors (fst r g) = no_vectors g"
proof (induction rule: cascade_go.raw_induct [OF _ assms])
  case (1 go rules rg topFids new_cgs acc old_f r)
  show ?case
  proof (cases "new_cgs = []")
    case True
    then show ?thesis using 1 by auto
  next
    case False
    then have go: "go rules rg topFids (new_changes acc (cascade_round rules rg topFids new_cgs))
        (new_changes acc (cascade_round rules rg topFids new_cgs) @ acc)
        (foldl (\<lambda>f g. g \<circ> f) old_f (List.map_filter fst (cascade_round rules rg topFids new_cgs))) = Some r"
      using 1(2) by (simp add: Let_def)
    show ?thesis
      using 1(1) [OF go 1(3)] foldl_keeps [OF _ 1(4)] round_keeps unfolding 1(3) by blast
  qed
qed

lemma cascade_returns:
  assumes "finite U" and "known U rg"
  shows "\<exists>f cs. cascadeStateChange asc rg topFids = Some (f, cs) \<and> cascade_closed rg topFids asc cs \<and>
    (\<forall>g. no_vectors (f g) = no_vectors g)"
proof -
  have "\<forall>c b. produces stateCascadeRules rg topFids c b \<longrightarrow> asc_object b \<in> U"
    using produces_known [OF assms(2)] by blast
  then obtain r where r: "cascade_go stateCascadeRules rg topFids [asc] [asc] id = Some r"
    using cascade_go_returns [OF assms(1)] by blast
  then have "{asc} \<subseteq> set (snd r) \<and> (\<forall>c\<in>set (snd r). derived stateCascadeRules rg topFids asc c) \<and>
      cascaded stateCascadeRules rg topFids (set (snd r)) (set (snd r))"
    using cascade_go_result [OF r, of asc] by (simp add: derived.root cascaded_def)
  moreover have "no_vectors (fst r g) = no_vectors g" for g using cascade_go_keeps [OF r] by simp
  ultimately show ?thesis
    using r unfolding cascadeStateChange_def cascade_closed_def cascaded_def by (cases r) auto
qed

end
