(* ===== verification/Cascade_Outages.thy ===== *)
theory Cascade_Outages
  imports Mero_Cascade
begin

text \<open>
  What cascades guarantee: they end and make all changes the rules require; outages of nodes and
  processes reach the services and devices below them; and that a pool version which has failed is
  not restored.
\<close>

section \<open>Cascades end\<close>

text \<open>
  C16. A cascade ends, and does all it should: it returns the first change together with changes that
  follow from it by the rules, none of them of an object set at top level, and for every change that the
  rules require because of a change returned, one of the same object is returned. The only requirement
  is that the objects connected with others are finitely many.
\<close>

theorem cascade_complete:
  assumes "finite U" and "known U rg"
  shows "\<exists>f cs. cascadeStateChange asc rg topFids = Some (f, cs) \<and> asc \<in> set cs \<and>
    (\<forall>c\<in>set cs. derived stateCascadeRules rg topFids asc c \<and> (c = asc \<or> asc_object c \<notin> topFids)) \<and>
    (\<forall>c\<in>set cs. \<forall>b. produces stateCascadeRules rg topFids c b \<longrightarrow> asc_object b \<in> asc_object ` set cs)"
proof -
  have "c = asc \<or> asc_object c \<notin> topFids" if "derived stateCascadeRules rg topFids asc c" for c
    using that by cases (use produces_object in auto)
  then show ?thesis using cascade_returns [OF assms, of asc topFids] unfolding cascade_closed_def by blast
qed

section \<open>Outages reach the devices\<close>

text \<open>
  A graph with the declared cardinalities (\<^verbatim>\<open>HA/Resources/Mero.hs\<close>): an object has at most one parent,
  of the right kind, and a device one disk.
\<close>

fun child_kind :: "kind \<Rightarrow> kind option" where
  "child_kind Site = Some Rack"
| "child_kind Rack = Some Enclosure"
| "child_kind Enclosure = Some Controller"
| "child_kind Controller = Some Disk"
| "child_kind Node = Some Process"
| "child_kind Process = Some Service"
| "child_kind Service = Some SDev"
| "child_kind Pool = Some PVer"
| "child_kind PVer = Some SiteV"
| "child_kind SiteV = Some RackV"
| "child_kind RackV = Some EnclosureV"
| "child_kind EnclosureV = Some ControllerV"
| "child_kind ControllerV = Some DiskV"
| "child_kind _ = None"

definition wf_cluster :: "cluster \<Rightarrow> bool" where
  "wf_cluster rg \<longleftrightarrow>
     (\<forall>x y. y \<in> set (children rg x) \<longleftrightarrow> parent rg y = Some x) \<and>
     (\<forall>x y. parent rg y = Some x \<longrightarrow> child_kind (f_kind x) = Some (f_kind y)) \<and>
     (\<forall>x y. on_hardware rg x = Some y \<longleftrightarrow> hardware_of rg y = Some x) \<and>
     (\<forall>x y. on_hardware rg x = Some y \<longrightarrow>
        f_kind x = SDev \<and> f_kind y = Disk \<or> f_kind x = Node \<and> f_kind y = Controller) \<and>
     (\<forall>x. \<forall>y\<in>set (virtuals rg x). f_kind x = Disk \<longrightarrow> f_kind y = DiskV)"

lemma wf_clusterD:
  assumes "wf_cluster rg"
  shows "y \<in> set (children rg x) \<longleftrightarrow> parent rg y = Some x"
    and "parent rg y = Some x \<Longrightarrow> child_kind (f_kind x) = Some (f_kind y)"
    and "hardware_of rg y = Some x \<longleftrightarrow> on_hardware rg x = Some y"
    and "on_hardware rg x = Some y \<Longrightarrow> f_kind x = SDev \<and> f_kind y = Disk \<or> f_kind x = Node \<and> f_kind y = Controller"
    and "y \<in> set (virtuals rg x) \<Longrightarrow> f_kind x = Disk \<Longrightarrow> f_kind y = DiskV"
  using assms by (simp_all add: wf_cluster_def)

fun parent_kind :: "kind \<Rightarrow> kind option" where
  "parent_kind Rack = Some Site"
| "parent_kind Enclosure = Some Rack"
| "parent_kind Controller = Some Enclosure"
| "parent_kind Disk = Some Controller"
| "parent_kind Process = Some Node"
| "parent_kind Service = Some Process"
| "parent_kind SDev = Some Service"
| "parent_kind PVer = Some Pool"
| "parent_kind SiteV = Some PVer"
| "parent_kind RackV = Some SiteV"
| "parent_kind EnclosureV = Some RackV"
| "parent_kind ControllerV = Some EnclosureV"
| "parent_kind DiskV = Some ControllerV"
| "parent_kind _ = None"

lemma parent_kind: "wf_cluster rg \<Longrightarrow> parent rg y = Some x \<Longrightarrow> parent_kind (f_kind y) = Some (f_kind x)"
  using wf_clusterD(2) [of rg y x] by (cases "f_kind x") auto

lemma ancestor_kind:
  assumes "wf_cluster rg"
  shows "ancestor 5 rg x = Some y \<Longrightarrow> f_kind x = DiskV \<Longrightarrow> f_kind y = PVer"
    and "ancestor 2 rg x = Some y \<Longrightarrow> f_kind x = Service \<Longrightarrow> f_kind y = Node"
  by (auto simp: eval_nat_numeral split: option.splits dest!: parent_kind [OF assms])

definition process_of :: "Fid \<Rightarrow> cluster \<Rightarrow> ProcessState" where
  "process_of x rg = fromMaybe PSUnknown (process_state rg x)"

definition service_of :: "Fid \<Rightarrow> cluster \<Rightarrow> ServiceState" where
  "service_of x rg = fromMaybe SSUnknown (service_state rg x)"

lemma getState_kind:
  "f_kind x = Process \<Longrightarrow> getState x rg = ProcessS (process_of x rg)"
  "f_kind x = Service \<Longrightarrow> getState x rg = ServiceS (service_of x rg)"
  "f_kind x = SDev \<Longrightarrow> getState x rg = SDevS (get_sdev x rg)"
  by (simp_all add: getState_def process_of_def service_of_def)

lemma map_result_To: "map_TransitionResult f r = TransitionTo y \<longleftrightarrow> (\<exists>x. r = TransitionTo x \<and> y = f x)"
  by (cases r) auto

lemma run_lifted:
  "runTransition (process_tr tr) (ProcessS p) = TransitionTo st \<longleftrightarrow> (\<exists>p'. st = ProcessS p' \<and> runTransition tr p = TransitionTo p')"
  "runTransition (service_tr tr') (ServiceS s) = TransitionTo st \<longleftrightarrow> (\<exists>s'. st = ServiceS s' \<and> runTransition tr' s = TransitionTo s')"
  "runTransition (sdev_tr tr'') (SDevS d) = TransitionTo st \<longleftrightarrow> (\<exists>d'. st = SDevS d' \<and> runTransition tr'' d = TransitionTo d')"
  by (auto simp: runTransition_To process_tr_def service_tr_def sdev_tr_def map_result_To)

text \<open>What the rules do, by the kinds of the two objects.\<close>

lemma produces_cases:
  assumes "wf_cluster rg" and "produces stateCascadeRules rg topFids c b"
  obtains
    (service) p s' where "f_kind (asc_object c) = Process" "f_kind (asc_object b) = Service"
      "parent rg (asc_object b) = Some (asc_object c)" "asc_new_state c = ProcessS p" "asc_new_state b = ServiceS s'"
      "runTransition (processCascadeService p) (service_of (asc_object b) rg) = TransitionTo s'"
  | (sdev) s d' where "f_kind (asc_object c) = Service" "f_kind (asc_object b) = SDev"
      "parent rg (asc_object b) = Some (asc_object c)" "asc_new_state c = ServiceS s" "asc_new_state b = SDevS d'"
      "runTransition (serviceCascadeDisk s) (get_sdev (asc_object b) rg) = TransitionTo d'"
  | (disk) "f_kind (asc_object c) = SDev" "f_kind (asc_object b) = Disk"
      "on_hardware rg (asc_object c) = Some (asc_object b)" "asc_new_state b = asc_new_state c"
  | (sdev_of_disk) "f_kind (asc_object c) = Disk" "f_kind (asc_object b) = SDev"
      "on_hardware rg (asc_object b) = Some (asc_object c)" "asc_new_state b = asc_new_state c"
  | (process) n p' where "f_kind (asc_object c) = Node" "f_kind (asc_object b) = Process"
      "parent rg (asc_object b) = Some (asc_object c)" "asc_new_state c = NodeS n" "asc_new_state b = ProcessS p'"
      "node_failed n \<and> runTransition nodeFailsProcess (process_of (asc_object b) rg) = TransitionTo p' \<or>
       n = NSOnline \<and> runTransition nodeUnfailsProcess (process_of (asc_object b) rg) = TransitionTo p'"
  | (pver) "f_kind (asc_object b) = PVer"
      "asc_object b \<in> set (filter (checkBroken M0_NC_FAILED (>) rg) (pvers_of M0_NC_FAILED (asc_object c) rg)) \<union>
         set (filter (checkBroken M0_NC_ONLINE (\<le>) rg) (pvers_of M0_NC_ONLINE (asc_object c) rg))"
  | (other) "f_kind (asc_object b) \<in> {Controller, Rack, Enclosure}"
  using assms(2)
proof (rule producesE)
  fix k old new f u
  let ?x = "asc_object c" and ?y = "asc_object b"
  assume rule: "StateCascadeRule k old new f u \<in> set stateCascadeRules" and k: "f_kind ?x = k"
    and new: "new (asc_new_state c)" and found: "?y \<in> set (f ?x rg)"
    and run: "runTransition (u (asc_new_state c)) (getState ?y rg) = TransitionTo (asc_new_state b)"
  note wf = wf_clusterD [OF assms(1)]
  have kinds: "?y \<in> set (children rg ?x) \<Longrightarrow> child_kind k = Some (f_kind ?y)" using wf(1,2) k by blast
  consider "StateCascadeRule k old new f u = processCascadeServiceRule"
    | "StateCascadeRule k old new f u = serviceCascadeDiskRule"
    | "StateCascadeRule k old new f u = sdevCascadeDisk"
    | "StateCascadeRule k old new f u = diskCascadeSdev"
    | "StateCascadeRule k old new f u = nodeFailsProcessRule"
    | "StateCascadeRule k old new f u = nodeUnfailsProcessRule"
    | "StateCascadeRule k old new f u \<in> {siteCascadeRackRule, rackCascadeEnclosureRule} \<union> set enclosureCascadeControllerRules"
    | "StateCascadeRule k old new f u \<in> {nodeCascadeController} \<union> set iosFailsController"
    | "StateCascadeRule k old new f u \<in> {diskFailsPVerRule, diskFixesPVerRule}"
    using rule by (auto simp: stateCascadeRules_def diskAddToFailureVector_def diskRemoveFromFailureVector_def)
  then show thesis
  proof cases
    case 1
    then have y: "?y \<in> set (children rg ?x)" "k = Process" using found by (simp_all add: rule_defs)
    then have "f_kind ?y = Service" using kinds by simp
    then show ?thesis
      using 1 y k run wf(1) service by (cases "asc_new_state c")
        (auto simp: rule_defs getState_kind run_lifted runTransition_To [of "\<lambda>_. NoTransition"])
  next
    case 2
    then have y: "?y \<in> set (children rg ?x)" "k = Service" using found by (simp_all add: rule_defs)
    then have "f_kind ?y = SDev" using kinds by simp
    then show ?thesis
      using 2 y k run wf(1) sdev by (cases "asc_new_state c")
        (auto simp: rule_defs getState_kind run_lifted runTransition_To [of "\<lambda>_. NoTransition"])
  next
    case 3
    then have y: "on_hardware rg ?x = Some ?y" "k = SDev" using found by (simp_all add: rule_defs)
    then show ?thesis using 3 k run wf(4) [OF y(1)] disk by (auto simp: rule_defs runTransition_To constTransition_def)
  next
    case 4
    then have y: "on_hardware rg ?y = Some ?x" "k = Disk" using found wf(3) by (simp_all add: rule_defs)
    then show ?thesis using 4 k run wf(4) [OF y(1)] sdev_of_disk by (auto simp: rule_defs runTransition_To constTransition_def)
  next
    case 5
    then have y: "?y \<in> set (children rg ?x)" "k = Node" using found by (simp_all add: rule_defs)
    then have "f_kind ?y = Process" using kinds by simp
    then show ?thesis
      using 5 y k run new wf(1) process by (cases "asc_new_state c")
        (auto simp: rule_defs getState_kind run_lifted on_node_def)
  next
    case 6
    then have y: "?y \<in> set (children rg ?x)" "k = Node" using found by (simp_all add: rule_defs)
    then have "f_kind ?y = Process" using kinds by simp
    then show ?thesis
      using 6 y k run new wf(1) process by (cases "asc_new_state c")
        (auto simp: rule_defs getState_kind run_lifted on_node_def)
  next
    case 7
    then have "?y \<in> set (children rg ?x)" "k \<in> {Site, Rack, Enclosure}" using found by (auto simp: rule_defs)
    then show ?thesis using kinds other by auto
  next
    case 8
    have ios: "f_kind ?y = Controller" if "?y \<in> set (iosToController rg ?x)" "k = Service"
      using that k ancestor_kind(2) [OF assms(1), of ?x]
      by (auto simp: iosToController_def split: option.splits dest: wf(4))
    have "f_kind ?y = Controller"
      using 8 found k wf(4) [of ?x ?y] ios by (auto simp: rule_defs split: if_splits)
    then show ?thesis using other by simp
  next
    case 9
    then have y: "?y \<in> set (filter (checkBroken M0_NC_FAILED (>) rg) (pvers_of M0_NC_FAILED ?x rg)) \<union>
        set (filter (checkBroken M0_NC_ONLINE (\<le>) rg) (pvers_of M0_NC_ONLINE ?x rg))" "k = Disk"
      using found by (auto simp: rule_defs)
    then have "f_kind ?y = PVer"
      using k wf(5) ancestor_kind(1) [OF assms(1)] by (auto simp: pvers_of_def in_map_filter)
    then show ?thesis using pver y(1) by blast
  qed
qed

text \<open>
  The states after a change of a node or a process, computed along the tree: of the process, of its
  services and of their devices.
\<close>

definition new_process :: "cluster \<Rightarrow> AnyStateChange \<Rightarrow> Fid \<Rightarrow> ProcessState" where
  "new_process rg asc x = (case asc_new_state asc of
     ProcessS p \<Rightarrow> p
   | NodeS n \<Rightarrow> after_tr (if node_failed n then nodeFailsProcess else nodeUnfailsProcess) (process_of x rg)
   | _ \<Rightarrow> process_of x rg)"

definition new_service :: "cluster \<Rightarrow> AnyStateChange \<Rightarrow> Fid \<Rightarrow> ServiceState" where
  "new_service rg asc x = after_tr (processCascadeService (new_process rg asc (the (parent rg x)))) (service_of x rg)"

definition new_sdev :: "cluster \<Rightarrow> AnyStateChange \<Rightarrow> Fid \<Rightarrow> SDevState" where
  "new_sdev rg asc x = after_tr (serviceCascadeDisk (new_service rg asc (the (parent rg x)))) (get_sdev x rg)"

text \<open>A change of the state of a node or of a process.\<close>

definition outage_root :: "cluster \<Rightarrow> AnyStateChange \<Rightarrow> bool" where
  "outage_root rg asc \<longleftrightarrow> asc_old_state asc = getState (asc_object asc) rg \<and>
     (f_kind (asc_object asc) = Node \<and> (\<exists>n. asc_new_state asc = NodeS n) \<or>
      f_kind (asc_object asc) = Process \<and> (\<exists>p. asc_new_state asc = ProcessS p))"

definition follows :: "cluster \<Rightarrow> Fid set \<Rightarrow> AnyStateChange \<Rightarrow> AnyStateChange \<Rightarrow> bool" where
  "follows rg topFids asc c \<longleftrightarrow> (case f_kind (asc_object c) of
     Node \<Rightarrow> c = asc
   | Process \<Rightarrow> asc_new_state c = ProcessS (new_process rg asc (asc_object c)) \<and>
       (c = asc \<or> f_kind (asc_object asc) = Node \<and> parent rg (asc_object c) = Some (asc_object asc))
   | Service \<Rightarrow> asc_new_state c = ServiceS (new_service rg asc (asc_object c)) \<and>
       (\<exists>c'. derived stateCascadeRules rg topFids asc c' \<and> f_kind (asc_object c') = Process \<and>
          parent rg (asc_object c) = Some (asc_object c'))
   | SDev \<Rightarrow> asc_new_state c = SDevS (new_sdev rg asc (asc_object c)) \<and>
       (\<exists>c'. derived stateCascadeRules rg topFids asc c' \<and> f_kind (asc_object c') = Service \<and>
          parent rg (asc_object c) = Some (asc_object c'))
   | Disk \<Rightarrow> (\<exists>d. on_hardware rg d = Some (asc_object c) \<and> asc_new_state c = SDevS (new_sdev rg asc d) \<and>
       (\<exists>c'. derived stateCascadeRules rg topFids asc c' \<and> f_kind (asc_object c') = Service \<and>
          parent rg d = Some (asc_object c')))
   | _ \<Rightarrow> True)"

lemma after_tr_To: "runTransition tr s = TransitionTo s' \<Longrightarrow> after_tr tr s = s'"
  by (simp add: after_tr_def)

lemma derived_follows:
  assumes "wf_cluster rg" and "outage_root rg asc" and "derived stateCascadeRules rg topFids asc c"
  shows "follows rg topFids asc c"
  using assms(3)
proof induction
  case root
  show ?case using assms(2) by (auto simp: outage_root_def follows_def new_process_def)
next
  case (cascade c b)
  note wf = wf_clusterD [OF assms(1)]
  from assms(1) cascade.hyps(2) show ?case
  proof (cases rule: produces_cases)
    case (service p s')
    then have "p = new_process rg asc (asc_object c)" using cascade.IH by (simp add: follows_def)
    then show ?thesis using service cascade.hyps(1) by (auto simp: follows_def new_service_def after_tr_To)
  next
    case (sdev s d')
    then have "s = new_service rg asc (asc_object c)" using cascade.IH by (simp add: follows_def)
    then show ?thesis using sdev cascade.hyps(1) by (auto simp: follows_def new_sdev_def after_tr_To)
  next
    case disk
    then show ?thesis using cascade.IH by (auto simp: follows_def)
  next
    case sdev_of_disk
    then obtain d where "on_hardware rg d = Some (asc_object c)" "asc_new_state c = SDevS (new_sdev rg asc d)"
        "\<exists>c'. derived stateCascadeRules rg topFids asc c' \<and> f_kind (asc_object c') = Service \<and>
          parent rg d = Some (asc_object c')"
      using cascade.IH by (auto simp: follows_def)
    moreover have "d = asc_object b"
      using wf(3) [of "asc_object c"] calculation(1) sdev_of_disk(3) by (metis option.inject)
    ultimately show ?thesis using sdev_of_disk by (auto simp: follows_def)
  next
    case (process n p')
    then have "c = asc" using cascade.IH by (simp add: follows_def)
    then show ?thesis using process by (auto simp: follows_def new_process_def after_tr_To node_failed_def)
  qed (auto simp: follows_def)
qed

text \<open>So each object of these kinds is changed in one way, and the loop finds all that are changed.\<close>

lemma derived_unique:
  assumes "wf_cluster rg" and "outage_root rg asc"
    and "derived stateCascadeRules rg topFids asc c" and "derived stateCascadeRules rg topFids asc c'"
    and "asc_object c = asc_object c'" and "f_kind (asc_object c) \<in> {Node, Process, Service, SDev, Disk}"
  shows "c = c'"
proof -
  have "asc_old_state b = getState (asc_object b) rg" if "derived stateCascadeRules rg topFids asc b" for b
    using that by cases (use assms(2) produces_object in \<open>auto simp: outage_root_def\<close>)
  moreover have "asc_new_state c = asc_new_state c'"
    using derived_follows [OF assms(1-3)] derived_follows [OF assms(1,2,4)] assms(5,6) wf_clusterD(3) [OF assms(1)]
    by (auto simp: follows_def) (metis option.inject)
  ultimately show ?thesis using assms(3-5) by (metis AnyStateChange.expand)
qed

lemma derived_listed:
  assumes "wf_cluster rg" and "outage_root rg asc" and "cascade_closed rg topFids asc cs"
    and "derived stateCascadeRules rg topFids asc c" and "f_kind (asc_object c) \<in> {Node, Process, Service, SDev, Disk}"
  shows "c \<in> set cs"
  using assms(4,5)
proof induction
  case root
  then show ?case using assms(3) by (simp add: cascade_closed_def)
next
  case (cascade c b)
  have "f_kind (asc_object c) \<in> {Node, Process, Service, SDev, Disk}"
    using assms(1) cascade.hyps(2) by (cases rule: produces_cases) (use cascade.prems in auto)
  then have "c \<in> set cs" by (rule cascade.IH)
  then obtain c' where c': "c' \<in> set cs" "asc_object c' = asc_object b"
    using assms(3) cascade.hyps(2) unfolding cascade_closed_def by (metis imageE)
  moreover have "derived stateCascadeRules rg topFids asc c'" using c'(1) assms(3) by (simp add: cascade_closed_def)
  ultimately show ?case
    using derived_unique [OF assms(1,2) derived.cascade [OF cascade.hyps], of c'] cascade.prems by simp
qed

subsection \<open>The graph afterwards\<close>

lemma fold_last:
  assumes "\<forall>c\<in>set cs. \<forall>g. I g \<longrightarrow> I (step c g) \<and> R (step c g) = (if T c then w else R g)" and "I g"
  shows "R (fold step cs g) = (if \<exists>c\<in>set cs. T c then w else R g)"
  using assms by (induction cs arbitrary: g) auto

definition set_changes :: "AnyStateChange list \<Rightarrow> cluster \<Rightarrow> cluster" where
  "set_changes cs = fold (\<lambda>c. setState (asc_object c) (asc_new_state c)) cs"

lemma setState_reads:
  "process_of x (setState y st g) = (case st of ProcessS p \<Rightarrow> if y = x then p else process_of x g | _ \<Rightarrow> process_of x g)"
  "service_of x (setState y st g) = (case st of ServiceS s \<Rightarrow> if y = x then s else service_of x g | _ \<Rightarrow> service_of x g)"
  "get_sdev x (setState y st g) = (case st of SDevS s \<Rightarrow>
     if (if f_kind y = Disk then hardware_of g y = Some x else y = x) then s else get_sdev x g | _ \<Rightarrow> get_sdev x g)"
  "hardware_of (setState y st g) = hardware_of g"
  by (cases st; auto simp: process_of_def service_of_def get_sdev_def fromMaybe_def set_sdev_def split: option.splits)+

lemma get_set_sdev: "get_sdev x (set_sdev y s g) = (if y = x then s else get_sdev x g)"
  by (simp add: get_sdev_def set_sdev_def fromMaybe_def)

lemma listed_follows:
  assumes "wf_cluster rg" and "outage_root rg asc" and "cascade_closed rg topFids asc cs" and "c \<in> set cs"
  shows "follows rg topFids asc c"
  using derived_follows [OF assms(1,2)] assms(3,4) by (simp add: cascade_closed_def)

lemma process_after:
  assumes "wf_cluster rg" and "outage_root rg asc" and "cascade_closed rg topFids asc cs" and "f_kind x = Process"
  shows "process_of x (set_changes cs rg) = (if x \<in> asc_object ` set cs then new_process rg asc x else process_of x rg)"
proof -
  have "asc_object c = x \<longrightarrow> asc_new_state c = ProcessS (new_process rg asc x)" if "c \<in> set cs" for c
    using listed_follows [OF assms(1-3) that] assms(4) by (auto simp: follows_def)
  then have "\<forall>c\<in>set cs. \<forall>g. process_of x (setState (asc_object c) (asc_new_state c) g) =
      (if asc_object c = x then new_process rg asc x else process_of x g)"
    by (auto simp: setState_reads split: State.splits)
  then have "process_of x (set_changes cs rg) = (if \<exists>c\<in>set cs. asc_object c = x then new_process rg asc x else process_of x rg)"
    unfolding set_changes_def by (intro fold_last [where I = "\<lambda>_. True"]) simp_all
  then show ?thesis by auto
qed

lemma service_set:
  assumes "wf_cluster rg" and "outage_root rg asc" and "cascade_closed rg topFids asc cs" and "f_kind x = Service"
  shows "service_of x (set_changes cs rg) = (if x \<in> asc_object ` set cs then new_service rg asc x else service_of x rg)"
proof -
  have "asc_object c = x \<longrightarrow> asc_new_state c = ServiceS (new_service rg asc x)" if "c \<in> set cs" for c
    using listed_follows [OF assms(1-3) that] assms(4) by (auto simp: follows_def)
  then have "\<forall>c\<in>set cs. \<forall>g. service_of x (setState (asc_object c) (asc_new_state c) g) =
      (if asc_object c = x then new_service rg asc x else service_of x g)"
    by (auto simp: setState_reads split: State.splits)
  then have "service_of x (set_changes cs rg) = (if \<exists>c\<in>set cs. asc_object c = x then new_service rg asc x else service_of x rg)"
    unfolding set_changes_def by (intro fold_last [where I = "\<lambda>_. True"]) simp_all
  then show ?thesis by auto
qed

lemma sdev_set:
  assumes "wf_cluster rg" and "outage_root rg asc" and "cascade_closed rg topFids asc cs" and "f_kind x = SDev"
  shows "get_sdev x (set_changes cs rg) =
    (if x \<in> asc_object ` set cs \<or> (\<exists>k\<in>asc_object ` set cs. on_hardware rg x = Some k) then new_sdev rg asc x else get_sdev x rg)"
proof -
  let ?T = "\<lambda>c. asc_object c = x \<or> on_hardware rg x = Some (asc_object c)"
  note wf = wf_clusterD [OF assms(1)]
  note f = listed_follows [OF assms(1-3)]
  have "get_sdev x (setState (asc_object c) (asc_new_state c) g) = (if ?T c then new_sdev rg asc x else get_sdev x g)"
    if c: "c \<in> set cs" and g: "hardware_of g = hardware_of rg" for c g
  proof (cases "f_kind (asc_object c) = Disk")
    case True
    then obtain d where d: "on_hardware rg d = Some (asc_object c)" "asc_new_state c = SDevS (new_sdev rg asc d)"
      using f [OF c] by (auto simp: follows_def)
    then have "hardware_of rg (asc_object c) = Some d" by (simp add: wf(3))
    then show ?thesis using d True g assms(4) wf(3) [of "asc_object c" x] by (auto simp: get_set_sdev)
  next
    case False
    then have "on_hardware rg x \<noteq> Some (asc_object c)" using wf(4) [of x "asc_object c"] assms(4) by auto
    then show ?thesis
      using False f [OF c] assms(4) by (auto simp: setState_reads follows_def split: State.splits)
  qed
  then have "get_sdev x (set_changes cs rg) = (if \<exists>c\<in>set cs. ?T c then new_sdev rg asc x else get_sdev x rg)"
    unfolding set_changes_def
    by (intro fold_last [where I = "\<lambda>g. hardware_of g = hardware_of rg"]) (simp_all add: setState_reads)
  then show ?thesis by auto
qed

text \<open>A service is changed if its process is, and a device if its service is, where the rules say so.\<close>

lemma after_tr_other: "(\<forall>s'. runTransition tr s \<noteq> TransitionTo s') \<Longrightarrow> after_tr tr s = s"
  by (simp add: after_tr_def split: TransitionResult.splits)

lemma service_after:
  assumes "wf_cluster rg" and "outage_root rg asc" and "cascade_closed rg topFids asc cs"
    and "f_kind x = Service" and "parent rg x = Some p" and "x \<notin> topFids"
  shows "service_of x (set_changes cs rg) = (if p \<in> asc_object ` set cs then new_service rg asc x else service_of x rg)"
proof -
  have p: "f_kind p = Process" using parent_kind [OF assms(1,5)] assms(4) by simp
  have up: "p \<in> asc_object ` set cs" if listed: "x \<in> asc_object ` set cs"
  proof -
    obtain c where c: "c \<in> set cs" "asc_object c = x" using listed by auto
    then obtain c' where "derived stateCascadeRules rg topFids asc c'" "asc_object c' = p"
      using listed_follows [OF assms(1-3) c(1)] assms(4,5) by (auto simp: follows_def)
    then show ?thesis using derived_listed [OF assms(1-3), of c'] p by auto
  qed
  have "new_service rg asc x = service_of x rg" if listed: "p \<in> asc_object ` set cs" and x: "x \<notin> asc_object ` set cs"
  proof -
    obtain c where c: "c \<in> set cs" "asc_object c = p" using listed by auto
    have new: "asc_new_state c = ProcessS (new_process rg asc p)"
      using listed_follows [OF assms(1-3) c(1)] c(2) p by (simp add: follows_def)
    have "runTransition (processCascadeService (new_process rg asc p)) (service_of x rg) \<noteq> TransitionTo s'" for s'
    proof
      assume "runTransition (processCascadeService (new_process rg asc p)) (service_of x rg) = TransitionTo s'"
      then have "produces stateCascadeRules rg topFids c (AnyStateChange x (getState x rg) (ServiceS s'))"
        using c(2) p new assms(4-6) wf_clusterD(1) [OF assms(1)]
        by (intro producesI [where old = "\<lambda>_. True" and new = "\<lambda>_. True" and f = "\<lambda>x rg. children rg x"])
          (auto simp: stateCascadeRules_def processCascadeServiceRule_def getState_kind run_lifted)
      then show False using assms(3) c(1) x unfolding cascade_closed_def by force
    qed
    then show ?thesis using assms(5) by (simp add: new_service_def after_tr_other)
  qed
  then show ?thesis using service_set [OF assms(1-4)] up by auto
qed

lemma sdev_after:
  assumes "wf_cluster rg" and "outage_root rg asc" and "cascade_closed rg topFids asc cs"
    and "f_kind x = SDev" and "parent rg x = Some s" and "x \<notin> topFids"
  shows "get_sdev x (set_changes cs rg) = (if s \<in> asc_object ` set cs then new_sdev rg asc x else get_sdev x rg)"
proof -
  let ?touched = "x \<in> asc_object ` set cs \<or> (\<exists>k\<in>asc_object ` set cs. on_hardware rg x = Some k)"
  note wf = wf_clusterD [OF assms(1)]
  have s: "f_kind s = Service" using parent_kind [OF assms(1,5)] assms(4) by simp
  have up: "s \<in> asc_object ` set cs" if touched: ?touched
  proof -
    obtain c where c: "c \<in> set cs" "asc_object c = x \<or> on_hardware rg x = Some (asc_object c)" using touched by auto
    have "\<exists>c'. derived stateCascadeRules rg topFids asc c' \<and> asc_object c' = s"
      using c(2)
    proof
      assume "asc_object c = x"
      then show ?thesis using listed_follows [OF assms(1-3) c(1)] assms(4,5) by (auto simp: follows_def)
    next
      assume on: "on_hardware rg x = Some (asc_object c)"
      then have "f_kind (asc_object c) = Disk" using wf(4) [OF on] assms(4) by simp
      then obtain d c' where d: "on_hardware rg d = Some (asc_object c)" "derived stateCascadeRules rg topFids asc c'"
          "parent rg d = Some (asc_object c')"
        using listed_follows [OF assms(1-3) c(1)] by (auto simp: follows_def)
      have "d = x" using d(1) on wf(3) [of "asc_object c"] by (metis option.inject)
      then show ?thesis using d(2,3) assms(5) by auto
    qed
    then show ?thesis using derived_listed [OF assms(1-3)] s by force
  qed
  have "new_sdev rg asc x = get_sdev x rg" if listed: "s \<in> asc_object ` set cs" and x: "x \<notin> asc_object ` set cs"
  proof -
    obtain c where c: "c \<in> set cs" "asc_object c = s" using listed by auto
    have new: "asc_new_state c = ServiceS (new_service rg asc s)"
      using listed_follows [OF assms(1-3) c(1)] c(2) s by (simp add: follows_def)
    have "runTransition (serviceCascadeDisk (new_service rg asc s)) (get_sdev x rg) \<noteq> TransitionTo d'" for d'
    proof
      assume "runTransition (serviceCascadeDisk (new_service rg asc s)) (get_sdev x rg) = TransitionTo d'"
      then have "produces stateCascadeRules rg topFids c (AnyStateChange x (getState x rg) (SDevS d'))"
        using c(2) s new assms(4-6) wf(1)
        by (intro producesI [where old = "\<lambda>_. True" and new = "\<lambda>_. True" and f = "\<lambda>x rg. children rg x"])
          (auto simp: stateCascadeRules_def serviceCascadeDiskRule_def getState_kind run_lifted)
      then show False using assms(3) c(1) x unfolding cascade_closed_def by force
    qed
    then show ?thesis using assms(5) by (simp add: new_sdev_def after_tr_other)
  qed
  then show ?thesis using sdev_set [OF assms(1-4)] up by auto
qed

subsection \<open>Outages are passed on\<close>

fun process_down :: "ProcessState \<Rightarrow> bool" where
  "process_down PSUnknown \<longleftrightarrow> False"
| "process_down PSStarting \<longleftrightarrow> False"
| "process_down PSOnline \<longleftrightarrow> False"
| "process_down _ \<longleftrightarrow> True"

fun service_down :: "ServiceState \<Rightarrow> bool" where
  "service_down SSUnknown \<longleftrightarrow> False"
| "service_down SSStarting \<longleftrightarrow> False"
| "service_down SSOnline \<longleftrightarrow> False"
| "service_down _ \<longleftrightarrow> True"

fun sdev_down :: "SDevState \<Rightarrow> bool" where
  "sdev_down SDSFailed \<longleftrightarrow> True"
| "sdev_down (SDSInhibited _) \<longleftrightarrow> True"
| "sdev_down _ \<longleftrightarrow> False"

definition outages_passed_on :: "cluster \<Rightarrow> bool" where
  "outages_passed_on rg \<longleftrightarrow>
     (\<forall>p s. s \<in> set (children rg p) \<and> f_kind s = Service \<and> process_down (process_of p rg) \<longrightarrow> service_down (service_of s rg)) \<and>
     (\<forall>s d. d \<in> set (children rg s) \<and> f_kind d = SDev \<and> service_down (service_of s rg) \<longrightarrow> sdev_down (get_sdev d rg))"

lemma down_after:
  "process_down p \<Longrightarrow> service_down (after_tr (processCascadeService p) s)"
  "service_down s \<Longrightarrow> sdev_down (after_tr (serviceCascadeDisk s) d)"
  "process_down (after_tr nodeFailsProcess q)"
proof -
  show "service_down (after_tr (processCascadeService p) s)" if "process_down p"
    using that by (cases p; cases s) (auto simp: after_tr_def runTransition_def constTransition_def)
  show "sdev_down (after_tr (serviceCascadeDisk s) d)" if "service_down s"
    using that by (cases s; cases d) (auto simp: after_tr_def runTransition_def)
  show "process_down (after_tr nodeFailsProcess q)"
    by (cases q) (auto simp: after_tr_def runTransition_def)
qed

lemma sdev_down_conf: "sdev_down d \<Longrightarrow> sdev_conf d \<noteq> M0_NC_ONLINE"
  by (cases d) auto

lemma set_changes_keeps:
  "children (set_changes cs rg) = children rg" "hardware_of (set_changes cs rg) = hardware_of rg"
proof -
  have "children (setState x st g) = children g" for x st g
    by (cases st) (auto simp: set_sdev_def split: option.splits)
  then show "children (set_changes cs rg) = children rg"
    unfolding set_changes_def by (induction cs arbitrary: rg) auto
  show "hardware_of (set_changes cs rg) = hardware_of rg"
    unfolding set_changes_def by (induction cs arbitrary: rg) (auto simp: setState_reads)
qed

lemma set_changes_passes_on:
  assumes "wf_cluster rg" and "outage_root rg asc" and "cascade_closed rg topFids asc cs"
    and "outages_passed_on rg" and "\<forall>x\<in>topFids. f_kind x = Node \<or> f_kind x = Process"
  shows "outages_passed_on (set_changes cs rg)"
  unfolding outages_passed_on_def set_changes_keeps
proof (intro conjI allI impI; elim conjE)
  note wf = wf_clusterD [OF assms(1)]
  fix p s assume s: "s \<in> set (children rg p)" "f_kind s = Service" and down: "process_down (process_of p (set_changes cs rg))"
  have up: "parent rg s = Some p" "f_kind p = Process" using s wf(1) parent_kind [OF assms(1), of s p] by auto
  have "s \<notin> topFids" using assms(5) s(2) by auto
  from service_after [OF assms(1-3) s(2) up(1) this] process_after [OF assms(1-3) up(2)]
  show "service_down (service_of s (set_changes cs rg))"
    using down down_after(1) up(1) s assms(4) by (auto simp: new_service_def outages_passed_on_def split: if_splits)
next
  note wf = wf_clusterD [OF assms(1)]
  fix s d assume d: "d \<in> set (children rg s)" "f_kind d = SDev" and down: "service_down (service_of s (set_changes cs rg))"
  have up: "parent rg d = Some s" "f_kind s = Service" using d wf(1) parent_kind [OF assms(1), of d s] by auto
  have "d \<notin> topFids" using assms(5) d(2) by auto
  note d_after = sdev_after [OF assms(1-3) d(2) up(1) this]
  show "sdev_down (get_sdev d (set_changes cs rg))"
  proof (cases "s \<in> asc_object ` set cs")
    case True
    then have "service_of s (set_changes cs rg) = new_service rg asc s" using service_set [OF assms(1-3) up(2)] by simp
    then show ?thesis using True d_after down down_after(2) up(1) by (simp add: new_sdev_def)
  next
    case False
    then have "service_of s (set_changes cs rg) = service_of s rg" using service_set [OF assms(1-3) up(2)] by simp
    then show ?thesis using False d_after down d assms(4) by (auto simp: outages_passed_on_def)
  qed
qed

lemma node_process_down:
  assumes "wf_cluster rg" and "outage_root rg asc" and "cascade_closed rg {asc_object asc} asc cs"
    and "asc_new_state asc = NodeS n" and "node_failed n" and "parent rg p = Some (asc_object asc)" and "f_kind p = Process"
  shows "process_down (process_of p (set_changes cs rg))"
proof (cases "p \<in> asc_object ` set cs")
  case True
  then show ?thesis
    using process_after [OF assms(1-3,7)] assms(4,5) down_after(3) by (simp add: new_process_def)
next
  case False
  have n: "f_kind (asc_object asc) = Node" using parent_kind [OF assms(1,6)] assms(7) by simp
  have "runTransition nodeFailsProcess (process_of p rg) \<noteq> TransitionTo p'" for p'
  proof
    assume "runTransition nodeFailsProcess (process_of p rg) = TransitionTo p'"
    then have "produces stateCascadeRules rg {asc_object asc} asc (AnyStateChange p (getState p rg) (ProcessS p'))"
      using n assms(4-7) wf_clusterD(1) [OF assms(1)]
      by (intro producesI [where old = "\<lambda>_. True" and new = "on_node node_failed" and f = "\<lambda>x rg. children rg x"
        and u = "\<lambda>_. process_tr nodeFailsProcess"])
        (auto simp: stateCascadeRules_def nodeFailsProcessRule_def on_node_def getState_kind run_lifted)
    then show False using assms(3) False unfolding cascade_closed_def by force
  qed
  then have "after_tr nodeFailsProcess (process_of p rg) = process_of p rg" by (simp add: after_tr_other)
  then have "process_down (process_of p rg)" using down_after(3) by metis
  then show ?thesis using process_after [OF assms(1-3,7)] False by simp
qed

lemma no_vectors_reads:
  assumes "no_vectors g = no_vectors g'"
  shows "process_of x g = process_of x g'" "service_of x g = service_of x g'" "get_sdev x g = get_sdev x g'"
    "children g = children g'" "hardware_of g = hardware_of g'"
  using assms by (auto simp: no_vectors_def process_of_def service_of_def get_sdev_def dest: arg_cong [where f = process_state]
    arg_cong [where f = service_state] arg_cong [where f = sdev_state] arg_cong [where f = children] arg_cong [where f = hardware_of])

text \<open>A single state set: the changes of its cascade are made, or nothing is.\<close>

lemma deferred_single:
  assumes "finite U" and "known U rg"
  shows "\<exists>wrns d. createDeferredStateChanges [AnyStateSet x tr] rg = Some (wrns, d) \<and>
    ((\<forall>st. runTransition tr (getState x rg) \<noteq> TransitionTo st) \<and> dsc_graph d rg = rg \<or>
     (\<exists>st cs. runTransition tr (getState x rg) = TransitionTo st \<and>
        cascade_closed rg {x} (AnyStateChange x (getState x rg) st) cs \<and>
        no_vectors (dsc_graph d rg) = no_vectors (set_changes cs rg)))"
proof (cases "runTransition tr (getState x rg)")
  case (TransitionTo st)
  obtain f cs where f: "cascadeStateChange (AnyStateChange x (getState x rg) st) rg {x} = Some (f, cs)"
      "cascade_closed rg {x} (AnyStateChange x (getState x rg) st) cs" "\<forall>g. no_vectors (f g) = no_vectors g"
    using cascade_returns [OF assms] by blast
  then show ?thesis
    using TransitionTo by (auto simp: createDeferredStateChanges_def List.map_filter_simps set_changes_def)
qed (simp_all add: createDeferredStateChanges_def List.map_filter_simps)

lemma outages_no_vectors: "no_vectors g = no_vectors g' \<Longrightarrow> outages_passed_on g = outages_passed_on g'"
  unfolding outages_passed_on_def by (simp add: no_vectors_reads [of g g'])

text \<open>
  C15. Outages are passed on to the devices: that the services of every process that is down are down,
  and the devices of every service that is down are failed or inhibited, is kept by every transition of
  a process or a node, with the changes it cascades to.
\<close>

theorem outages_kept_passed_on:
  assumes "wf_cluster rg" and "finite U" and "known U rg" and "outages_passed_on rg"
    and "f_kind x = Node \<and> tr = node_tr nt \<or> f_kind x = Process \<and> tr = process_tr pt"
  shows "\<exists>wrns d. createDeferredStateChanges [AnyStateSet x tr] rg = Some (wrns, d) \<and>
    outages_passed_on (dsc_graph d rg)"
proof -
  obtain wrns d where d: "createDeferredStateChanges [AnyStateSet x tr] rg = Some (wrns, d)"
      "dsc_graph d rg = rg \<or> (\<exists>st cs. runTransition tr (getState x rg) = TransitionTo st \<and>
        cascade_closed rg {x} (AnyStateChange x (getState x rg) st) cs \<and>
        no_vectors (dsc_graph d rg) = no_vectors (set_changes cs rg))"
    using deferred_single [OF assms(2,3), of x tr] by blast
  from d(2) have "outages_passed_on (dsc_graph d rg)"
  proof (elim disjE exE conjE)
    fix st cs assume st: "runTransition tr (getState x rg) = TransitionTo st"
      and cs: "cascade_closed rg {x} (AnyStateChange x (getState x rg) st) cs"
      and same: "no_vectors (dsc_graph d rg) = no_vectors (set_changes cs rg)"
    have "outage_root rg (AnyStateChange x (getState x rg) st)"
      using assms(5) st by (auto simp: outage_root_def runTransition_To node_tr_def process_tr_def getState_def map_result_To)
    from set_changes_passes_on [OF assms(1) this cs assms(4)] show ?thesis
      using assms(5) outages_no_vectors [OF same] by auto
  qed (use assms(4) in simp)
  then show ?thesis using d(1) by blast
qed


section \<open>Pool versions that are not restored\<close>

fun enough_online :: "cluster \<Rightarrow> nat list \<Rightarrow> Fid list \<Rightarrow> bool" where
  "enough_online rg [] objects \<longleftrightarrow> True"
| "enough_online rg (limit # limits) objects \<longleftrightarrow>
     (let next = concat (map (children rg) objects) in
      limit < length (realms rg M0_NC_ONLINE next) \<and> enough_online rg limits next)"

lemma enough_online_check: "enough_online rg limits objects \<Longrightarrow> \<not> check_levels rg M0_NC_ONLINE (\<le>) limits objects"
  by (induction limits arbitrary: objects) (auto simp: Let_def)

text \<open>
  C37. A pool version that has failed is not restored while it is in good health. The rule that is to
  restore it when a disk comes back counts the objects that are online and compares them with the number
  of failures tolerated: if at every level more objects are online than failures are tolerated, no
  cascade, of whatever change, changes the state of the pool version.
\<close>

theorem healthy_pver_not_restored:
  assumes "wf_cluster rg" and "finite U" and "known U rg"
    and "f_kind pver = PVer" and "getConfObjState pver rg = M0_NC_FAILED"
    and "va_tolerance rg pver = Some (fsite, frack, fencl, fctrl, fdisk)"
    and "enough_online rg [fsite, frack, fencl, fctrl, fdisk] [pver]" and "asc_object asc \<noteq> pver"
  shows "\<exists>f cs. cascadeStateChange asc rg topFids = Some (f, cs) \<and> pver \<notin> asc_object ` set cs"
proof -
  have sound: "\<not> checkBroken M0_NC_ONLINE (\<le>) rg pver"
    using enough_online_check [OF assms(7)] by (simp add: checkBroken_def assms(6) del: check_levels.simps)
  have unchanged: "asc_object b \<noteq> pver" if "produces stateCascadeRules rg topFids c b" for c b
    using assms(1) that
  proof (cases rule: produces_cases)
    case pver
    then show ?thesis using assms(5) sound by (auto simp: pvers_of_def)
  qed (use assms(4) in auto)
  have other: "asc_object c \<noteq> pver" if "derived stateCascadeRules rg topFids asc c" for c
    using that by (cases rule: derived.cases) (use assms(8) in simp, rule unchanged)
  obtain f cs where cs: "cascadeStateChange asc rg topFids = Some (f, cs)" "cascade_closed rg topFids asc cs"
    using cascade_returns [OF assms(2,3)] by blast
  have "pver \<notin> asc_object ` set cs"
  proof
    assume "pver \<in> asc_object ` set cs"
    then obtain c where c: "c \<in> set cs" "asc_object c = pver" by blast
    have "derived stateCascadeRules rg topFids asc c" using cs(2) c(1) by (simp add: cascade_closed_def)
    from other [OF this] c(2) show False by simp
  qed
  then show ?thesis using cs(1) by blast
qed

section \<open>Examples\<close>

text \<open>Clusters given by the list of all objects with their parents, and one device on a disk.\<close>

definition tree_cluster :: "(Fid \<times> Fid) list \<Rightarrow> cluster \<Rightarrow> bool" where
  "tree_cluster t rg \<longleftrightarrow> distinct (map fst t) \<and> (\<forall>(y, x)\<in>set t. child_kind (f_kind x) = Some (f_kind y)) \<and>
     children rg = (\<lambda>x. map fst (filter (\<lambda>e. snd e = x) t)) \<and> parent rg = map_of t \<and>
     on_hardware rg = [Fid SDev 0 \<mapsto> Fid Disk 0] \<and> hardware_of rg = [Fid Disk 0 \<mapsto> Fid SDev 0] \<and>
     (\<forall>x. \<forall>y\<in>set (virtuals rg x). f_kind y = DiskV)"

lemma tree_cluster_ok:
  assumes "tree_cluster t rg"
  shows "wf_cluster rg" "known (fst ` set t \<union> snd ` set t \<union> {Fid SDev 0, Fid Disk 0}) rg"
proof -
  note t = assms [unfolded tree_cluster_def]
  have "map_of t y = Some x \<longleftrightarrow> (y, x) \<in> set t" for x y using t by (simp add: map_of_eq_Some_iff)
  then show "wf_cluster rg" using t unfolding wf_cluster_def by (auto simp: image_iff split: if_splits)
  show "known (fst ` set t \<union> snd ` set t \<union> {Fid SDev 0, Fid Disk 0}) rg"
    using t unfolding known_def by (auto dest!: map_of_SomeD split: if_splits) (force simp: image_iff)+
qed

text \<open>A node with a process, a service and a device, all online.\<close>

definition one_tree :: "(Fid \<times> Fid) list" where
  "one_tree = [(Fid Process 0, Fid Node 0), (Fid Service 0, Fid Process 0), (Fid SDev 0, Fid Service 0)]"

definition one_device :: cluster where
  "one_device = \<lparr>children = (\<lambda>x. map fst (filter (\<lambda>e. snd e = x) one_tree)), parent = map_of one_tree,
     on_hardware = map_of [(Fid SDev 0, Fid Disk 0)], hardware_of = map_of [(Fid Disk 0, Fid SDev 0)],
     virtuals = (\<lambda>_. []), real_of = Map.empty, is_ios = (\<lambda>_. True), va_tolerance = Map.empty, nonMDPools = [],
     node_state = [Fid Node 0 \<mapsto> NSOnline], controller_state = Map.empty,
     process_state = [Fid Process 0 \<mapsto> PSOnline], service_state = [Fid Service 0 \<mapsto> SSOnline],
     sdev_state = [Fid SDev 0 \<mapsto> SDSOnline], conf_state = Map.empty, failure_vector = Map.empty\<rparr>"

lemma one_device_tree: "tree_cluster one_tree one_device"
  by (simp add: tree_cluster_def one_device_def one_tree_def)

lemma one_device_passed_on: "outages_passed_on one_device"
  by (auto simp: outages_passed_on_def one_device_def one_tree_def process_of_def service_of_def fromMaybe_def
    split: if_splits)

lemmas one_device_ok = tree_cluster_ok [OF one_device_tree] one_device_passed_on

theorem cascade_complete_witness:
  "\<exists>f cs. cascadeStateChange (AnyStateChange (Fid Process 0) (ProcessS PSOnline) (ProcessS PSQuiescing)) one_device
     {Fid Process 0} = Some (f, cs) \<and>
   AnyStateChange (Fid Process 0) (ProcessS PSOnline) (ProcessS PSQuiescing) \<in> set cs"
  using cascade_complete [OF _ one_device_ok(2), of
      "AnyStateChange (Fid Process 0) (ProcessS PSOnline) (ProcessS PSQuiescing)" "{Fid Process 0}"] by auto

theorem outages_kept_passed_on_witness:
  "\<exists>wrns d. createDeferredStateChanges [AnyStateSet (Fid Process 0) (process_tr processQuiescing)] one_device =
     Some (wrns, d) \<and> outages_passed_on (dsc_graph d one_device)"
  using outages_kept_passed_on [OF one_device_ok(1) _ one_device_ok(2,3), of "Fid Process 0" "process_tr processQuiescing"]
  by simp


text \<open>A pool version over three disks of one controller, which tolerates one failure; one disk has failed.\<close>

definition pver_tree :: "(Fid \<times> Fid) list" where
  "pver_tree = [(Fid SiteV 0, Fid PVer 0), (Fid RackV 0, Fid SiteV 0), (Fid EnclosureV 0, Fid RackV 0),
     (Fid ControllerV 0, Fid EnclosureV 0), (Fid DiskV 0, Fid ControllerV 0), (Fid DiskV 1, Fid ControllerV 0),
     (Fid DiskV 2, Fid ControllerV 0)]"

definition pver_cluster :: cluster where
  "pver_cluster = one_device\<lparr>children := (\<lambda>x. map fst (filter (\<lambda>e. snd e = x) pver_tree)), parent := map_of pver_tree,
     virtuals := (\<lambda>x. if f_kind x = Disk then [Fid DiskV (f_key x)] else []),
     real_of := map_of [(Fid SiteV 0, Fid Site 0), (Fid RackV 0, Fid Rack 0), (Fid EnclosureV 0, Fid Enclosure 0),
       (Fid ControllerV 0, Fid Controller 0), (Fid DiskV 0, Fid Disk 0), (Fid DiskV 1, Fid Disk 1), (Fid DiskV 2, Fid Disk 2)],
     va_tolerance := [Fid PVer 0 \<mapsto> (0, 0, 0, 0, 1)],
     sdev_state := [Fid SDev 0 \<mapsto> SDSFailed], conf_state := [Fid PVer 0 \<mapsto> M0_NC_FAILED]\<rparr>"

lemma pver_cluster_tree: "tree_cluster pver_tree pver_cluster"
  by (simp add: tree_cluster_def pver_cluster_def one_device_def pver_tree_def)

lemmas pver_cluster_ok = tree_cluster_ok [OF pver_cluster_tree]

theorem healthy_pver_not_restored_witness:
  "\<exists>f cs. cascadeStateChange (AnyStateChange (Fid Disk 0) (SDevS SDSFailed) (SDevS SDSOnline)) pver_cluster {Fid Disk 0} =
     Some (f, cs) \<and> Fid PVer 0 \<notin> asc_object ` set cs"
proof -
  have failed: "getConfObjState (Fid PVer 0) pver_cluster = M0_NC_FAILED"
    and tolerance: "va_tolerance pver_cluster (Fid PVer 0) = Some (0, 0, 0, 0, 1)"
    by (simp_all add: getConfObjState_def getState_def pver_cluster_def fromMaybe_def)
  have online: "enough_online pver_cluster [0, 0, 0, 0, 1] [Fid PVer 0]"
    by (simp add: realms_def List.map_filter_simps pver_cluster_def pver_tree_def getConfObjState_def getState_def
      get_disk_def get_sdev_def fromMaybe_def one_device_def)
  show ?thesis
    by (rule healthy_pver_not_restored [OF pver_cluster_ok(1) _ pver_cluster_ok(2) _ failed tolerance online]) simp_all
qed

end
