(* ===== verification/Spec2Isabelle.thy ===== *)
theory Spec2Isabelle
  imports Stat_Threads Rpclite_Fom Ha_State Confc_Helpers Client_Runs Paxos_Query Graph_Reload Event_Queue Cep_Buffer Cascade_Outages
begin

text \<open>
  A verification of Halon, a high-availability layer for the Mero file system.

  \<^bold>\<open>The program.\<close> Halon is a set of Haskell packages over a C layer. The C layer binds to Mero: rpclite
  (\<^verbatim>\<open>src/rpclite/rpclite\<close>) sends and receives messages over Mero's RPC, \<^verbatim>\<open>m0init.c\<close> and \<^verbatim>\<open>forkm0os.c\<close> set
  up the process and its Mero threads, \<^verbatim>\<open>hastate.c\<close> (\<^verbatim>\<open>src/mero-halon/hastate\<close>) carries HA messages
  between Mero and Halon, \<^verbatim>\<open>confc_helpers.c\<close> (\<^verbatim>\<open>src/confc\<close>) validates configurations. On the Haskell
  side, decisions are replicated by consensus (\<^verbatim>\<open>src/consensus\<close>, \<^verbatim>\<open>src/consensus-paxos\<close>), whose acceptors
  keep their votes in a store (\<^verbatim>\<open>src/replicated-log\<close>), and the state of the cluster is a graph of
  resources (\<^verbatim>\<open>src/halon\<close>) stored with its help. Events wait in a replicated queue until rules
  (\<^verbatim>\<open>src/cep\<close>) of the recovery coordinator (\<^verbatim>\<open>src/mero-halon\<close>) handle them.

  \<^bold>\<open>The C layer.\<close> A C function is a HOL function from the state of the process (\<^verbatim>\<open>Mero_World\<close>: heap,
  globals, what Mero holds for the process) to an outcome: a value, a failed assertion, a call of \<open>exit\<close>
  or undefined behaviour. Calls of Mero are values of a datatype and their answers come from the
  parameter \<open>env\<close>; a theorem holds for all answers except where it names a hypothesis about them.
  Machine integers are words of their width.

  \<^item> \<^verbatim>\<open>HPrelude\<close>: integer types, the program monad, its rules \<open>wp\<close>, and the interfaces
    \<open>invariant_system\<close>, \<open>open_close\<close> and \<open>clean_open_close\<close>.
  \<^item> \<^verbatim>\<open>Rpc_Stat\<close>, \<^verbatim>\<open>Stat_Threads\<close>: \<open>add_rpc_stat_record\<close> and the getters of \<^verbatim>\<open>rpclite.c\<close>, alone and under
    any interleaving of threads: statistics of the samples, wrap-around, atomicity and progress.
  \<^item> \<^verbatim>\<open>Mero_World\<close>, \<^verbatim>\<open>Rpclite_Init\<close>, \<^verbatim>\<open>Rpclite_Endpoint\<close>, \<^verbatim>\<open>Rpclite_Conn\<close>: \<open>rpc_init\<close> to \<open>rpc_disconnect\<close>
    with every error path; each pair of set-up and tear-down releases what it took, any number of
    times, and the paths that do not are stated.
  \<^item> \<^verbatim>\<open>Rpclite_Fop\<close>, \<^verbatim>\<open>Rpclite_Send\<close>, \<^verbatim>\<open>Rpclite_Epoch\<close>, \<^verbatim>\<open>Rpclite_Fom\<close>: payload (gather and read back, overflow),
    blocking and asynchronous sends with their callbacks, epochs, and the receiving side.
  \<^item> \<^verbatim>\<open>M0_Init\<close>, \<^verbatim>\<open>Confc_Helpers\<close>, \<^verbatim>\<open>Ha_State\<close>: \<^verbatim>\<open>m0init.c\<close>, \<^verbatim>\<open>forkm0os.c\<close>, \<^verbatim>\<open>confc_helpers.c\<close>, \<^verbatim>\<open>hastate.c\<close>.
  \<^item> \<^verbatim>\<open>Rpclite_Frame\<close>, \<^verbatim>\<open>Rpclite_Clients\<close>, \<^verbatim>\<open>Client_Runs\<close>: what calls leave unchanged, the programs \<^verbatim>\<open>test2.c\<close>,
    \<^verbatim>\<open>test3.c\<close>, \<^verbatim>\<open>test4.c\<close>, \<^verbatim>\<open>test7.c\<close>, \<^verbatim>\<open>test9.c\<close>, \<^verbatim>\<open>test-epoch.c\<close>, and two complete runs. A loop that need not
    end is a \<open>partial_function (option)\<close>; that it ends, or does not, is a theorem.

  \<^bold>\<open>Consensus.\<close> The functions of Haskell are HOL functions; a process is a state and a function per
  message, which returns the new state and the messages it sends.

  \<^item> \<^verbatim>\<open>Paxos_Types\<close>: decrees, ballots, the lifted order, \<open>chooseValue\<close>, \<open>intervals\<close>, \<open>diffIntervals\<close>
    (\<^verbatim>\<open>Consensus.hs\<close>, \<^verbatim>\<open>Lifted.hs\<close>, \<^verbatim>\<open>Paxos.hs\<close>, \<^verbatim>\<open>Paxos/Types.hs\<close>).
  \<^item> \<^verbatim>\<open>Paxos_Acceptor\<close>: \<open>acceptor\<close> of \<^verbatim>\<open>Paxos.hs\<close> with the store of \<^verbatim>\<open>Persistence/Paxos.hs\<close>: the invariant
    P1, well-formedness, and what restarting and synchronising lose.
  \<^item> \<^verbatim>\<open>Paxos_System\<close>, \<^verbatim>\<open>Paxos_Invariants\<close>, \<^verbatim>\<open>Paxos_Agreement\<close>: \<open>propose\<close>, \<open>scout\<close>, \<open>command\<close> and \<open>retry\<close> of
    \<^verbatim>\<open>BasicPaxos.hs\<close>, \<open>expectQuorum\<close> of \<^verbatim>\<open>Quorum.hs\<close>, and the system of any number of them with a network
    that delays, reorders and loses messages but does not duplicate them (which \<^verbatim>\<open>Quorum.hs\<close> relies
    on). Agreement holds if no ballot proposes two values; a run in which the proposers do so and
    disagree is given.
  \<^item> \<^verbatim>\<open>Paxos_Query\<close>: \<open>query\<close> of \<^verbatim>\<open>BasicPaxos.hs\<close>: it reports what was decided, and more.

  The store performs each operation before the next message is handled; \<^verbatim>\<open>Persistence/Paxos.hs\<close> uses a
  pool of processes, which does not guarantee it. Haskell's \<open>Int\<close> is an integer there: ballots and
  decrees do not come near its bound. Acceptors are not restarted in the runs of the system.

  \<^bold>\<open>The resource graph.\<close> The state of a cluster is a graph of resources (\<^verbatim>\<open>src/halon/src/lib/HA\<close>), kept in
  memory by the recovery coordinator with a log of its changes, which a synchronisation sends to a
  replicated multimap. A hash map is an association list, a hash set a list without duplicates; the
  serialisation of resources is the parameter \<open>codec\<close>, and that it can be undone a named hypothesis.

  \<^item> \<^verbatim>\<open>Graph_Store\<close>: the multimap (\<^verbatim>\<open>Multimap/Implementation.hs\<close>) behind the interface \<open>multimap_spec\<close>,
    \<open>updateStore\<close> (\<^verbatim>\<open>Multimap/Process.hs\<close>), which refines the meaning documented in \<^verbatim>\<open>Multimap.hs\<close>, and the
    change log (\<^verbatim>\<open>ResourceGraph/GraphLike.hs\<close>): its invariants, and when it is equivalent to the updates
    it was made of.
  \<^item> \<^verbatim>\<open>Resource_Graph\<close>, \<^verbatim>\<open>Graph_Merge\<close>: the operations of \<^verbatim>\<open>GraphLike.hs\<close> and \<^verbatim>\<open>ResourceGraph.hs\<close>: queries,
    \<open>connect\<close> for each cardinality, the ways to disconnect, \<open>removeResource\<close>, \<open>mergeResources\<close>,
    \<open>garbageCollect\<close>, \<open>sync\<close> and \<open>buildGraph\<close>.
  \<^item> \<^verbatim>\<open>Graph_Invariants\<close>: each operation as a list of updates that graph and change log share, and its
    effect on the nodes and the edges; garbage collection computes connectedness with the roots.
  \<^item> \<^verbatim>\<open>Graph_Sync\<close>: any sequence of operations and synchronisations from the empty graph. The graph
    refines a set of nodes and a set of edges, both ends agree on every edge, and declared
    cardinalities are respected except by merges.
  \<^item> \<^verbatim>\<open>Graph_Reload\<close>: what a node that reads the store gets. It is the graph, unless a removed resource is
    connected again before the removal is stored, in which case removed edges reappear.

  \<^bold>\<open>Events and object states.\<close>

  \<^item> \<^verbatim>\<open>Event_Queue\<close>: the replicated state of \<^verbatim>\<open>HA/EventQueue/Process.hs\<close> and its poller, as a sequence of
    additions, trims, clearings, polls and new coordinators. It refines lists of events, each forwarded
    once and in order, if the queue is never cleared; clearing it can lose an event.
  \<^item> \<^verbatim>\<open>Cep_Buffer\<close>: the buffers of messages of \<^verbatim>\<open>Network/CEP/Buffer.hs\<close>, a map by type and index, which
    refines one list; the bound of a bounded buffer, and that it discards more than documented.
  \<^item> \<^verbatim>\<open>Mero_States\<close>: the states of devices, services and processes (\<^verbatim>\<open>HA/Resources/Mero.hs\<close>, \<^verbatim>\<open>Note.hs\<close>)
    and the transitions of \<^verbatim>\<open>Mero/Transitions.hs\<close>: which states can be reached, that an outage is undone,
    and that a failed device comes back only by way of repair and rebalancing.
  \<^item> \<^verbatim>\<open>Mero_Cascade\<close>, \<^verbatim>\<open>Cascade_Outages\<close>: how a change of state spreads (\<^verbatim>\<open>RecoveryCoordinator/Mero/State.hs\<close>):
    the cascade rules and the loop that applies them, a \<open>partial_function (option)\<close> that is proved to
    end over finitely many objects. The failure of a node reaches all devices below it, and outages
    stay passed on; a failed pool version is not restored while it is healthy.

  \<^bold>\<open>Not modelled.\<close> Messages to stderr and traces. The \<open>main\<close> of \<^verbatim>\<open>test4.c\<close> and \<^verbatim>\<open>test-epoch.c\<close> beyond
  their threads, whose scheduling belongs to Mero. \<^verbatim>\<open>dummyService.c\<close>, which uses functions that no longer
  exist. The random delays of \<open>propose\<close> (any delay is allowed) and the client side of
  Paxos's \<open>sync\<close>. The
  replicated log itself (the store is updated at once by a synchronisation), the process that serves
  the multimap, the untyped graphs of migrations, the retries of the event queue when there is no quorum,
  the rule engine (\<^verbatim>\<open>cep\<close>) beyond its buffers, and the recovery rules (\<^verbatim>\<open>mero-halon\<close>) beyond the states and
  transitions named above, which are large and consist mostly of effects in the monads of distributed-process;
  the network transports, generated schemas, command-line tools and scripts.
\<close>

end
